(* ===== verification/QF_Prelude.thy ===== *)
theory QF_Prelude
  imports Complex_Main "HOL-Library.Word" "HOL-Library.AList" "HOL-Library.Multiset"
begin

text \<open>
  Shared vocabulary of the QuantForge development: the machine types of the C++ code, C strings,
  decimal printing, and the facts on association lists (the model of \<open>std::unordered_map\<close>)
  that the component theories share.

  \<^item> \<open>u64\<close>, \<open>u32\<close>: unsigned machine words, arithmetic wraps.
  \<^item> \<open>int32_t\<close>/\<open>int\<close>: HOL integers, with the two's complement wrap \<open>i32\<close> written at every
    place where the code adds, subtracts or negates.
  \<^item> \<open>double\<close>: exact reals (rounding, NaN and infinities are outside the model).
\<close>

unbundle bit_operations_syntax

type_synonym u64 = "64 word"
type_synonym u32 = "32 word"
type_synonym dbl = real

named_theorems wrap_simps "rules for wrapped signed arithmetic"
named_theorems alist_simps "rules for association lists as maps"
named_theorems inv_intros "introduction rules for component invariants"

section \<open>Signed 32-bit and 64-bit arithmetic\<close>

definition i32 :: "int \<Rightarrow> int" where
  "i32 x = (x + 2147483648) mod 4294967296 - 2147483648"

definition in_i32 :: "int \<Rightarrow> bool" where
  "in_i32 x \<longleftrightarrow> -2147483648 \<le> x \<and> x < 2147483648"

definition i64 :: "int \<Rightarrow> int" where
  "i64 x = (x + 9223372036854775808) mod 18446744073709551616 - 9223372036854775808"

lemma i32_id [wrap_simps]: "in_i32 x \<Longrightarrow> i32 x = x"
  by (simp add: i32_def in_i32_def)

lemma in_i32_i32 [wrap_simps]: "in_i32 (i32 x)"
  using pos_mod_bound [of 4294967296 "x + 2147483648"]
    pos_mod_sign [of 4294967296 "x + 2147483648"]
  unfolding i32_def in_i32_def by linarith

lemma i32_idem [wrap_simps]: "i32 (i32 x) = i32 x"
  by (simp add: wrap_simps)

lemma i32_add_i32 [wrap_simps]: "i32 (i32 x + y) = i32 (x + y)" "i32 (x + i32 y) = i32 (x + y)"
  unfolding i32_def by (simp_all add: mod_simps algebra_simps)

lemma i64_id [wrap_simps]:
  "-9223372036854775808 \<le> x \<Longrightarrow> x < 9223372036854775808 \<Longrightarrow> i64 x = x"
  by (simp add: i64_def)

section \<open>Power-of-two masks\<close>

lemma unat_and_mask:
  fixes x :: "'a::len word"
  assumes "n < LENGTH('a)"
  shows "unat (x AND (2 ^ n - 1)) = unat x mod 2 ^ n"
proof -
  have "x AND (2 ^ n - 1) = take_bit n x"
    by (simp add: take_bit_eq_mask mask_eq_exp_minus_1)
  then show ?thesis
    by (simp only: unsigned_take_bit_eq) (simp only: take_bit_eq_mod)
qed

lemma unat_plus_and_mask:
  fixes x y :: "'a::len word"
  assumes "n < LENGTH('a)"
  shows "unat ((x + y) AND (2 ^ n - 1)) = (unat x + unat y) mod 2 ^ n"
proof -
  have "(2::nat) ^ n dvd 2 ^ LENGTH('a)"
    using assms by (simp add: le_imp_power_dvd)
  then show ?thesis
    by (simp add: unat_and_mask [OF assms] unat_word_ariths mod_mod_cancel)
qed

section \<open>C strings\<close>

text \<open>
  A \<open>char[N]\<close> member starts zeroed and is written by \<open>strncpy(dst, src, N - 1)\<close>: its content, read
  up to the terminating zero, is the first \<open>N - 1\<close> characters of the source, cut at a zero byte.
\<close>

definition c_str :: "string \<Rightarrow> string" where
  "c_str s = takeWhile (\<lambda>c. c \<noteq> CHR 0x00) s"

definition strncpy_buf :: "nat \<Rightarrow> string \<Rightarrow> string" where
  "strncpy_buf n s = take (n - 1) (c_str s)"

definition strncmp_eq :: "nat \<Rightarrow> string \<Rightarrow> string \<Rightarrow> bool" where
  "strncmp_eq n a b \<longleftrightarrow> take n (c_str a) = take n (c_str b)"

lemma c_str_id: "CHR 0x00 \<notin> set s \<Longrightarrow> c_str s = s"
  unfolding c_str_def by (induction s) auto

lemma nul_notin_c_str [simp]: "CHR 0x00 \<notin> set (c_str s)"
  unfolding c_str_def by (auto dest: set_takeWhileD)

lemma nul_notin_strncpy [simp]: "CHR 0x00 \<notin> set (strncpy_buf n s)"
  unfolding strncpy_buf_def by (meson in_set_takeD nul_notin_c_str)

lemma length_strncpy: "length (strncpy_buf n s) \<le> n - 1"
  by (simp add: strncpy_buf_def)

lemma strncpy_id: "CHR 0x00 \<notin> set s \<Longrightarrow> length s < n \<Longrightarrow> strncpy_buf n s = s"
  by (simp add: strncpy_buf_def c_str_id)

lemma strncpy_idem [simp]: "strncpy_buf n (strncpy_buf n s) = strncpy_buf n s"
  using c_str_id [OF nul_notin_strncpy, of n s] by (simp add: strncpy_buf_def)

lemma strncmp_eq_id:
  assumes "CHR 0x00 \<notin> set a" and "CHR 0x00 \<notin> set b" and "length a < n" and "length b < n"
  shows "strncmp_eq n a b \<longleftrightarrow> a = b"
  using assms by (simp add: strncmp_eq_def c_str_id)

section \<open>Decimal printing\<close>

definition digit_char :: "nat \<Rightarrow> char" where
  "digit_char d = char_of (48 + d)"

text \<open>\<open>std::to_string\<close> and \<open>operator<<\<close> on an unsigned integer.\<close>

fun dec :: "nat \<Rightarrow> string" where
  "dec n = (if n < 10 then [digit_char n] else dec (n div 10) @ [digit_char (n mod 10)])"

declare dec.simps [simp del]

lemma digit_char_inj: "a < 10 \<Longrightarrow> b < 10 \<Longrightarrow> digit_char a = digit_char b \<longleftrightarrow> a = b"
  unfolding digit_char_def by (simp add: char_of_eq_iff take_bit_eq_mod)

lemma digit_char_neq: "d < 10 \<Longrightarrow> digit_char d \<noteq> CHR ''-'' \<and> digit_char d \<noteq> CHR 0x00"
  unfolding digit_char_def by (auto simp: char_of_eq_iff take_bit_eq_mod)

lemma dec_nonempty [simp]: "dec n \<noteq> []" "[] \<noteq> dec n"
  by (subst dec.simps, simp)+

lemma dec_chars: "c \<in> set (dec n) \<Longrightarrow> c \<noteq> CHR ''-'' \<and> c \<noteq> CHR 0x00"
proof (induction n rule: dec.induct)
  case (1 n)
  then show ?case
    by (cases "n < 10") (auto simp: dec.simps [of n] digit_char_neq)
qed

lemma dec_inj: "dec m = dec n \<longleftrightarrow> m = n"
proof (induction m arbitrary: n rule: dec.induct)
  case (1 m)
  show ?case
  proof (cases "m < 10")
    case True
    then show ?thesis
      by (cases "n < 10") (auto simp: dec.simps [of m] dec.simps [of n] digit_char_inj)
  next
    case m: False
    show ?thesis
    proof (cases "n < 10")
      case True
      with m show ?thesis by (auto simp: dec.simps [of m] dec.simps [of n])
    next
      case False
      have "dec m = dec n \<longleftrightarrow> m div 10 = n div 10 \<and> m mod 10 = n mod 10"
        using m False 1 by (auto simp: dec.simps [of m] dec.simps [of n] digit_char_inj)
      also have "\<dots> \<longleftrightarrow> m = n" by (metis div_mult_mod_eq)
      finally show ?thesis .
    qed
  qed
qed

section \<open>Association lists\<close>

lemmas [alist_simps] = update_conv' delete_conv'

lemma map_of_in_snd: "map_of al k = Some v \<Longrightarrow> v \<in> set (map snd al)"
  by (metis map_of_SomeD image_eqI set_map snd_conv)

lemma keys_alist_update_fresh: "k \<notin> fst ` set al \<Longrightarrow> AList.update k v al = al @ [(k, v)]"
  by (induction al) auto

lemma alist_delete_fresh: "k \<notin> fst ` set al \<Longrightarrow> AList.delete k al = al"
  by (induction al) auto

lemma length_alist_delete:
  "distinct (map fst al) \<Longrightarrow> map_of al k = Some v \<Longrightarrow> Suc (length (AList.delete k al)) = length al"
  by (induction al) (auto simp: alist_delete_fresh split: if_splits)

text \<open>
  Tables whose values are owned (each value under one key): deleting a key gives up exactly its
  value, adding a fresh key takes exactly one.
\<close>

definition owned_table :: "('k \<times> 'v) list \<Rightarrow> bool" where
  "owned_table al \<longleftrightarrow> distinct (map fst al) \<and> distinct (map snd al)"

lemma owned_table_delete:
  assumes "owned_table al" and "map_of al k = Some v"
  shows "owned_table (AList.delete k al)"
    and "snd ` set (AList.delete k al) = snd ` set al - {v}"
proof -
  have d: "AList.delete k al = filter (\<lambda>(k', _). k \<noteq> k') al" by (simp add: AList.delete_eq)
  show "owned_table (AList.delete k al)"
    using assms(1) unfolding owned_table_def d by (simp add: distinct_map_filter)
  have kv: "(k, v) \<in> set al" using assms(2) by (rule map_of_SomeD)
  have inj: "inj_on fst (set al)" "inj_on snd (set al)"
    using assms(1) by (auto simp: owned_table_def distinct_map)
  have "snd x = v \<longleftrightarrow> fst x = k" if "x \<in> set al" for x
    using that kv inj by (metis fst_conv inj_onD snd_conv)
  then show "snd ` set (AList.delete k al) = snd ` set al - {v}"
    unfolding d by (auto simp: image_iff) (metis snd_conv fst_conv)+
qed

lemma owned_table_update_fresh:
  assumes "owned_table al" and "k \<notin> fst ` set al" and "v \<notin> snd ` set al"
  shows "owned_table (AList.update k v al)"
  using assms by (simp add: owned_table_def keys_alist_update_fresh)

lemma set_alist_update_subset: "set (AList.update k v al) \<subseteq> insert (k, v) (set al)"
  by (induction al) auto

lemma set_alist_delete_subset: "set (AList.delete k al) \<subseteq> set al"
  unfolding AList.delete_eq by auto

lemma alist_delete_key: "(k', v) \<in> set (AList.delete k al) \<Longrightarrow> k' \<noteq> k"
  unfolding AList.delete_eq by auto

end
