(* ===== verification/QF_Arena.thy ===== *)
theory QF_Arena
  imports QF_Prelude
begin

text \<open>
  The bump allocator of \<open>cpp/common/arena_allocator.hpp\<close>. Sizes and offsets are \<open>size_t\<close>, that is
  64-bit words that wrap. A block is its offset from the base of the pool, which the constructor
  aligns to 64 bytes. \<open>arena_plan\<close> is one turn of the compare-and-swap loop up to the exchange;
  \<open>allocate\<close> is the loop when the exchange succeeds at once, and \<open>arena_step\<close> lets any number of
  threads take their turns in any order, with exchanges that fail, spuriously too.
\<close>

unbundle bit_operations_syntax

section \<open>Operations\<close>

record arena =
  ar_pool_size :: u64
  ar_offset :: u64

definition arena_new :: "u64 \<Rightarrow> arena" where
  "arena_new pool_bytes = \<lparr>ar_pool_size = pool_bytes, ar_offset = 0\<rparr>"

definition arena_plan :: "u64 \<Rightarrow> u64 \<Rightarrow> u64 \<Rightarrow> u64 \<Rightarrow> (u64 \<times> u64) option" where
  "arena_plan pool_size cur sz align =
     (let aligned_cur = (cur + align - 1) AND NOT (align - 1);
          next_off = aligned_cur + sz
      in if next_off > pool_size then None else Some (aligned_cur, next_off))"

definition allocate :: "u64 \<Rightarrow> u64 \<Rightarrow> arena \<Rightarrow> u64 option \<times> arena" where
  "allocate sz align ar =
     (case arena_plan (ar_pool_size ar) (ar_offset ar) sz align of
        None \<Rightarrow> (None, ar)
      | Some (aligned_cur, next_off) \<Rightarrow> (Some aligned_cur, ar\<lparr>ar_offset := next_off\<rparr>))"

definition arena_reset :: "arena \<Rightarrow> arena" where
  "arena_reset ar = ar\<lparr>ar_offset := 0\<rparr>"

definition used_bytes :: "arena \<Rightarrow> u64" where
  "used_bytes ar = ar_offset ar"

definition total_bytes :: "arena \<Rightarrow> u64" where
  "total_bytes ar = ar_pool_size ar"

definition utilization :: "arena \<Rightarrow> dbl" where
  "utilization ar = real (unat (used_bytes ar)) / real (unat (total_bytes ar))"

section \<open>Rounding up to an alignment\<close>

lemma and_not_mask_eq: "(x :: u64) AND NOT (mask k) = x - take_bit k x"
proof -
  have "take_bit k x AND (x AND NOT (mask k)) = 0"
    by (rule bit_eqI) (auto simp: bit_simps)
  then have "take_bit k x + (x AND NOT (mask k)) = take_bit k x OR (x AND NOT (mask k))"
    by (rule disjunctive_add_eq_or)
  also have "\<dots> = x"
    by (rule bit_eqI) (auto simp: bit_simps)
  finally show ?thesis by (simp add: algebra_simps)
qed

lemma unat_and_not_mask:
  "unat ((x :: u64) AND NOT (mask k)) = unat x div 2 ^ k * 2 ^ k"
proof -
  have t: "unat (take_bit k x) = unat x mod 2 ^ k"
    by (simp only: unsigned_take_bit_eq) (simp only: take_bit_eq_mod)
  then have "take_bit k x \<le> x" by (simp add: word_le_nat_alt)
  then have "unat (x AND NOT (mask k)) = unat x - unat x mod 2 ^ k"
    by (simp add: and_not_mask_eq unat_sub t)
  then show ?thesis by (simp add: minus_mod_eq_div_mult)
qed

lemma unat_mask: "k < 64 \<Longrightarrow> unat (mask k :: u64) = 2 ^ k - 1"
proof -
  assume "k < 64"
  then have "unat (mask k :: u64) = mask k"
    by (intro bit_eqI) (auto simp: bit_unsigned_iff bit_mask_iff bit_simps)
  then show ?thesis by (simp add: mask_eq_exp_minus_1)
qed

lemma arena_plan_unat:
  assumes "align = 2 ^ k" and "k < 64"
    and room: "unat cur + 2 ^ k + unat sz \<le> 2 ^ 64"
    and plan: "arena_plan ps cur sz align = Some (a, n)"
  shows "unat cur \<le> unat a" "2 ^ k dvd unat a" "unat n = unat a + unat sz" "unat n \<le> unat ps"
proof -
  have m: "align - 1 = mask k" using assms(1) by (simp add: mask_eq_exp_minus_1)
  have al: "unat (mask k :: u64) = 2 ^ k - 1"
    by (rule unat_mask) (rule assms(2))
  have 1: "unat (cur + mask k) = unat cur + (2 ^ k - 1)"
  proof -
    have "unat cur + unat (mask k :: u64) < 2 ^ 64" using room al by (simp add: less_le_trans)
    then show ?thesis by (simp add: unat_plus_simple [THEN iffD1] no_olen_add_nat al)
  qed
  have "cur + align - 1 = cur + mask k" using m by (simp add: algebra_simps)
  note this [simp]
  have a: "a = (cur + mask k) AND NOT (mask k)" and n: "n = a + sz" and le: "n \<le> ps"
    using plan unfolding arena_plan_def by (auto simp: Let_def m split: if_splits)
  have ua: "unat a = (unat cur + (2 ^ k - 1)) div 2 ^ k * 2 ^ k"
    by (simp add: a unat_and_not_mask 1)
  show "2 ^ k dvd unat a" by (simp add: ua)
  show "unat cur \<le> unat a"
  proof -
    have "(unat cur + (2 ^ k - 1)) mod 2 ^ k < 2 ^ k" by simp
    with div_mult_mod_eq [of "unat cur + (2 ^ k - 1)" "2 ^ k"] show ?thesis
      unfolding ua by linarith
  qed
  have "unat a \<le> unat cur + (2 ^ k - 1)" by (simp add: ua)
  moreover have "(0 :: nat) < 2 ^ k" by simp
  ultimately have "unat a + unat sz < 2 ^ 64" using room by linarith
  then show "unat n = unat a + unat sz" by (simp add: n unat_word_ariths)
  show "unat n \<le> unat ps" using le by (simp add: word_le_nat_alt)
qed

section \<open>Threads sharing the arena\<close>

text \<open>
  A thread is idle or holds the size and alignment it wants with the offset it read. Sizes and
  alignments are those of \<open>request_ok\<close>: a power of two up to the alignment of the pool, and a size
  for which the end of a block cannot pass \<open>2 ^ 64\<close>.
\<close>

datatype alloc_pc = AIdle | ALoaded u64 u64 u64

record arena_sys =
  as_arena :: arena
  as_pc :: "nat \<Rightarrow> alloc_pc"
  as_blocks :: "(u64 \<times> u64 \<times> u64) list"

definition request_ok :: "u64 \<Rightarrow> u64 \<Rightarrow> u64 \<Rightarrow> bool" where
  "request_ok ps sz align \<longleftrightarrow>
     align \<in> {1, 2, 4, 8, 16, 32, 64} \<and> unat ps + 64 + unat sz \<le> 2 ^ 64"

definition arena_sys_new :: "u64 \<Rightarrow> arena_sys" where
  "arena_sys_new ps = \<lparr>as_arena = arena_new ps, as_pc = (\<lambda>_. AIdle), as_blocks = []\<rparr>"

inductive arena_step :: "arena_sys \<Rightarrow> arena_sys \<Rightarrow> bool" where
  load: "as_pc s t = AIdle \<Longrightarrow> request_ok (ar_pool_size (as_arena s)) sz align \<Longrightarrow>
    arena_step s (s\<lparr>as_pc := (as_pc s)(t := ALoaded sz align (ar_offset (as_arena s)))\<rparr>)"
| full: "as_pc s t = ALoaded sz align cur \<Longrightarrow>
    arena_plan (ar_pool_size (as_arena s)) cur sz align = None \<Longrightarrow>
    arena_step s (s\<lparr>as_pc := (as_pc s)(t := AIdle)\<rparr>)"
| exchange: "as_pc s t = ALoaded sz align cur \<Longrightarrow>
    arena_plan (ar_pool_size (as_arena s)) cur sz align = Some (a, n) \<Longrightarrow>
    ar_offset (as_arena s) = cur \<Longrightarrow>
    arena_step s (s\<lparr>as_arena := (as_arena s)\<lparr>ar_offset := n\<rparr>,
       as_pc := (as_pc s)(t := AIdle), as_blocks := (a, sz, align) # as_blocks s\<rparr>)"
| failed: "as_pc s t = ALoaded sz align cur \<Longrightarrow>
    arena_plan (ar_pool_size (as_arena s)) cur sz align = Some (a, n) \<Longrightarrow>
    arena_step s (s\<lparr>as_pc := (as_pc s)(t := ALoaded sz align (ar_offset (as_arena s)))\<rparr>)"

inductive arena_reach :: "u64 \<Rightarrow> arena_sys \<Rightarrow> bool" for ps where
  start: "arena_reach ps (arena_sys_new ps)"
| next_step: "arena_reach ps s \<Longrightarrow> arena_step s s' \<Longrightarrow> arena_reach ps s'"

fun block_ok :: "nat \<Rightarrow> u64 \<times> u64 \<times> u64 \<Rightarrow> bool" where
  "block_ok used (a, sz, align) \<longleftrightarrow> unat a + unat sz \<le> used \<and> unat align dvd unat a"

fun apart :: "u64 \<times> u64 \<times> u64 \<Rightarrow> u64 \<times> u64 \<times> u64 \<Rightarrow> bool" where
  "apart (a, sz, _) (b, sz', _) \<longleftrightarrow> unat b + unat sz' \<le> unat a \<or> unat a + unat sz \<le> unat b"

fun blocks_inv :: "nat \<Rightarrow> (u64 \<times> u64 \<times> u64) list \<Rightarrow> bool" where
  "blocks_inv used [] = True"
| "blocks_inv used (b # bs) = (block_ok used b \<and> blocks_inv (unat (fst b)) bs)"

definition arena_inv :: "u64 \<Rightarrow> arena_sys \<Rightarrow> bool" where
  "arena_inv ps s \<longleftrightarrow> ar_pool_size (as_arena s) = ps \<and> ar_offset (as_arena s) \<le> ps
     \<and> blocks_inv (unat (ar_offset (as_arena s))) (as_blocks s)
     \<and> (\<forall>t sz align cur. as_pc s t = ALoaded sz align cur \<longrightarrow> request_ok ps sz align)"

lemma blocks_inv_mono: "blocks_inv u bs \<Longrightarrow> u \<le> v \<Longrightarrow> blocks_inv v bs"
  by (cases bs) auto

lemma blocks_inv_set: "blocks_inv u bs \<Longrightarrow> b \<in> set bs \<Longrightarrow> block_ok u b"
proof (induction bs arbitrary: u)
  case (Cons x bs)
  obtain a sz al where x: "x = (a, sz, al)" by (cases x)
  have "block_ok (unat a) b" if "b \<in> set bs" using Cons that x by simp
  then show ?case using Cons.prems x by (cases b) auto
qed simp

lemma blocks_inv_apart: "blocks_inv u bs \<Longrightarrow> sorted_wrt apart bs"
proof (induction bs arbitrary: u)
  case (Cons x bs)
  have "apart x b" if "b \<in> set bs" for b
    using blocks_inv_set [of "unat (fst x)" bs b] Cons.prems that by (cases x; cases b) auto
  with Cons show ?case by auto
qed simp

lemma request_power:
  assumes "request_ok ps sz align"
  obtains k where "align = 2 ^ k" "k \<le> 6" "unat align = 2 ^ k"
proof -
  have "align \<in> {2 ^ 0, 2 ^ 1, 2 ^ 2, 2 ^ 3, 2 ^ 4, 2 ^ 5, 2 ^ 6}"
    using assms by (simp add: request_ok_def)
  then show thesis by (elim insertE emptyE) (rule that, assumption, simp, simp)+
qed

lemma plan_block:
  assumes req: "request_ok ps sz align" and cur: "cur \<le> ps"
    and plan: "arena_plan ps cur sz align = Some (a, n)"
  shows "unat cur \<le> unat a \<and> block_ok (unat n) (a, sz, align) \<and> n \<le> ps"
proof -
  obtain k where k: "align = 2 ^ k" "k \<le> 6" "unat align = 2 ^ k" using req by (rule request_power)
  have p: "(2 :: nat) ^ k \<le> 64" using power_increasing [OF k(2), of "2 :: nat"] by simp
  have "unat cur + 2 ^ k + unat sz \<le> 2 ^ 64"
    using req cur p by (simp add: request_ok_def word_le_nat_alt)
  from arena_plan_unat [OF k(1) _ this plan] k(2)
  have r: "unat cur \<le> unat a" "2 ^ k dvd unat a" "unat n = unat a + unat sz" "unat n \<le> unat ps"
    by auto
  from r k(3) show ?thesis by (simp add: word_le_nat_alt)
qed

lemma arena_inv_step:
  assumes inv: "arena_inv ps s" and step: "arena_step s s'"
  shows "arena_inv ps s'"
  using step
proof (cases rule: arena_step.cases)
  case (exchange t sz align cur a n)
  have "unat cur \<le> unat a \<and> block_ok (unat n) (a, sz, align) \<and> n \<le> ps"
    by (rule plan_block) (use inv exchange in \<open>auto simp: arena_inv_def\<close>)
  then show ?thesis
    using inv exchange by (auto simp: arena_inv_def elim: blocks_inv_mono)
qed (use inv in \<open>auto simp: arena_inv_def\<close>)

lemma arena_reach_inv: "arena_reach ps s \<Longrightarrow> arena_inv ps s"
proof (induction rule: arena_reach.induct)
  case start
  show ?case by (simp add: arena_inv_def arena_sys_new_def arena_new_def)
qed (rule arena_inv_step)



section \<open>The end of a block wraps\<close>

text \<open>
  Nothing stops \<open>aligned_cur + size\<close> from wrapping. A request within \<open>d\<close> bytes of \<open>2 ^ 64\<close> is
  granted whatever the pool holds, moves the offset back by \<open>d\<close>, and the next request gets bytes
  that are already in use.
\<close>

lemma arena_wrap_overlaps:
  assumes "d \<le> ar_offset ar" and "ar_offset ar \<le> ar_pool_size ar"
  shows "fst (allocate (- d) 1 ar) = Some (ar_offset ar)
     \<and> fst (allocate d 1 (snd (allocate (- d) 1 ar))) = Some (ar_offset ar - d)"
proof -
  have p: "arena_plan ps cur sz 1 = (if ps < cur + sz then None else Some (cur, cur + sz))" for ps cur sz
    by (simp add: arena_plan_def Let_def)
  have "ar_offset ar - d \<le> ar_offset ar"
    using assms(1) by (simp add: word_le_nat_alt unat_sub)
  then have "\<not> ar_pool_size ar < ar_offset ar + (- d)" using assms(2) by simp
  then show ?thesis using assms(2) by (simp add: allocate_def p)
qed

lemma arena_wrap_overlaps_witness:
  "fst (allocate (- 32) 1 \<lparr>ar_pool_size = 128, ar_offset = 64\<rparr>) = Some 64
   \<and> fst (allocate 32 1 (snd (allocate (- 32) 1 \<lparr>ar_pool_size = 128, ar_offset = 64\<rparr>))) = Some 32"
  using arena_wrap_overlaps [of 32 "\<lparr>ar_pool_size = 128, ar_offset = 64\<rparr>"] by simp

end
