(* ===== verification/QF_Types.thy ===== *)
theory QF_Types
  imports QF_Prelude
begin

text \<open>
  The data of \<open>cpp/common/types.hpp\<close>: the enumerations with their \<open>uint8_t\<close> codes, the plain
  structs as records (padding members left out), their default member initialisers as \<open>*_init\<close>
  constants, and the member functions of \<open>Position\<close> and \<open>PortfolioSnapshot\<close>.
  A \<open>char[N]\<close> member is the string it holds; an \<open>unordered_map\<close> is an association list with
  distinct keys, in an iteration order the code does not fix.
\<close>

section \<open>Limits\<close>

definition MAX_SYMBOL_LEN :: nat where "MAX_SYMBOL_LEN = 32"
definition MAX_ORDER_ID_LEN :: nat where "MAX_ORDER_ID_LEN = 36"
definition MAX_TAG_LEN :: nat where "MAX_TAG_LEN = 32"
definition MAX_STRATEGY_LEN :: nat where "MAX_STRATEGY_LEN = 32"
definition DEPTH_LEVELS :: nat where "DEPTH_LEVELS = 5"

lemmas limit_defs = MAX_SYMBOL_LEN_def MAX_ORDER_ID_LEN_def MAX_TAG_LEN_def MAX_STRATEGY_LEN_def
  DEPTH_LEVELS_def

section \<open>Enumerations\<close>

datatype side = BUY | SELL

datatype order_type = MARKET | LIMIT | SL | SLM

datatype order_product = INTRADAY | DELIVERY | MTF

datatype order_validity = DAY | IOC

datatype order_status =
  PENDING | OPEN | COMPLETE | CANCELLED | REJECTED | PARTIAL | TRIGGER_PENDING

datatype exchange_id = NSE_EQ | NSE_FO | BSE_EQ | BSE_FO | NSE_IDX

datatype risk_decision =
  PASS | REJECT_KILL_SWITCH | REJECT_MARKET_CLOSED | REJECT_RATE_LIMIT | REJECT_POSITION_LIMIT
  | REJECT_CAPITAL | REJECT_PRICE_SANITY | REJECT_GREEK_LIMIT | REJECT_DAILY_LOSS

datatype alert_level = DEBUG | INFO | WARN | HIGH | CRITICAL

primrec side_code :: "side \<Rightarrow> 8 word" where
  "side_code BUY = 1"
| "side_code SELL = 2"

primrec order_type_code :: "order_type \<Rightarrow> 8 word" where
  "order_type_code MARKET = 1"
| "order_type_code LIMIT = 2"
| "order_type_code SL = 3"
| "order_type_code SLM = 4"

primrec order_product_code :: "order_product \<Rightarrow> 8 word" where
  "order_product_code INTRADAY = 1"
| "order_product_code DELIVERY = 2"
| "order_product_code MTF = 3"

primrec order_validity_code :: "order_validity \<Rightarrow> 8 word" where
  "order_validity_code DAY = 1"
| "order_validity_code IOC = 2"

primrec exchange_id_code :: "exchange_id \<Rightarrow> 8 word" where
  "exchange_id_code NSE_EQ = 1"
| "exchange_id_code NSE_FO = 2"
| "exchange_id_code BSE_EQ = 3"
| "exchange_id_code BSE_FO = 4"
| "exchange_id_code NSE_IDX = 5"

primrec risk_decision_code :: "risk_decision \<Rightarrow> 8 word" where
  "risk_decision_code PASS = 0"
| "risk_decision_code REJECT_KILL_SWITCH = 1"
| "risk_decision_code REJECT_MARKET_CLOSED = 2"
| "risk_decision_code REJECT_RATE_LIMIT = 3"
| "risk_decision_code REJECT_POSITION_LIMIT = 4"
| "risk_decision_code REJECT_CAPITAL = 5"
| "risk_decision_code REJECT_PRICE_SANITY = 6"
| "risk_decision_code REJECT_GREEK_LIMIT = 7"
| "risk_decision_code REJECT_DAILY_LOSS = 8"

primrec order_status_code :: "order_status \<Rightarrow> 8 word" where
  "order_status_code PENDING = 0"
| "order_status_code OPEN = 1"
| "order_status_code COMPLETE = 2"
| "order_status_code CANCELLED = 3"
| "order_status_code REJECTED = 4"
| "order_status_code PARTIAL = 5"
| "order_status_code TRIGGER_PENDING = 6"

primrec alert_level_code :: "alert_level \<Rightarrow> 8 word" where
  "alert_level_code DEBUG = 0"
| "alert_level_code INFO = 1"
| "alert_level_code WARN = 2"
| "alert_level_code HIGH = 3"
| "alert_level_code CRITICAL = 4"

section \<open>Market data\<close>

record depth_level =
  dl_price :: dbl
  dl_qty :: u32
  dl_orders :: "16 word"

definition depth_level_init :: depth_level where
  "depth_level_init = \<lparr>dl_price = 0, dl_qty = 0, dl_orders = 0\<rparr>"

record tick =
  tk_token :: u64
  tk_symbol :: string
  tk_exchange :: exchange_id
  tk_ltp :: dbl
  tk_prev_close :: dbl
  tk_open :: dbl
  tk_high :: dbl
  tk_low :: dbl
  tk_volume :: u64
  tk_oi :: u64
  tk_bid :: "depth_level list"
  tk_ask :: "depth_level list"
  tk_candle_open_1m :: dbl
  tk_candle_high_1m :: dbl
  tk_candle_low_1m :: dbl
  tk_candle_close_1m :: dbl
  tk_iv :: dbl
  tk_delta :: dbl
  tk_gamma :: dbl
  tk_theta :: dbl
  tk_vega :: dbl
  tk_exchange_ts_ns :: u64
  tk_recv_ts_ns :: u64
  tk_latency_ns :: int
  tk_is_stale :: bool
  tk_is_index :: bool
  tk_is_option :: bool

definition tick_init :: tick where
  "tick_init = \<lparr>tk_token = 0, tk_symbol = [], tk_exchange = NSE_EQ, tk_ltp = 0, tk_prev_close = 0,
     tk_open = 0, tk_high = 0, tk_low = 0, tk_volume = 0, tk_oi = 0,
     tk_bid = replicate DEPTH_LEVELS depth_level_init,
     tk_ask = replicate DEPTH_LEVELS depth_level_init,
     tk_candle_open_1m = 0, tk_candle_high_1m = 0, tk_candle_low_1m = 0, tk_candle_close_1m = 0,
     tk_iv = 0, tk_delta = 0, tk_gamma = 0, tk_theta = 0, tk_vega = 0,
     tk_exchange_ts_ns = 0, tk_recv_ts_ns = 0, tk_latency_ns = 0,
     tk_is_stale = False, tk_is_index = False, tk_is_option = False\<rparr>"

record candle =
  cd_token :: u64
  cd_open_ts_ns :: u64
  cd_close_ts_ns :: u64
  cd_interval_sec :: u32
  cd_open :: dbl
  cd_high :: dbl
  cd_low :: dbl
  cd_close :: dbl
  cd_volume :: u64
  cd_oi :: u64

section \<open>Orders and fills\<close>

record order_request =
  rq_token :: u64
  rq_side :: side
  rq_order_type :: order_type
  rq_product :: order_product
  rq_validity :: order_validity
  rq_quantity :: int
  rq_limit_price :: dbl
  rq_trigger_price :: dbl
  rq_stop_loss_price :: dbl
  rq_take_profit_price :: dbl
  rq_signal_strength :: dbl
  rq_is_amo :: bool
  rq_slice :: bool
  rq_market_protection :: int
  rq_strategy_id :: string
  rq_tag :: string
  rq_request_ts_ns :: u64

definition order_request_init :: "u64 \<Rightarrow> order_request" where
  \<comment> \<open>\<open>instrument_token\<close> has no initialiser: its first value is the argument\<close>
  "order_request_init tok = \<lparr>rq_token = tok, rq_side = BUY, rq_order_type = MARKET,
     rq_product = INTRADAY, rq_validity = DAY, rq_quantity = 0, rq_limit_price = 0,
     rq_trigger_price = 0, rq_stop_loss_price = 0, rq_take_profit_price = 0,
     rq_signal_strength = 0, rq_is_amo = False, rq_slice = True, rq_market_protection = -1,
     rq_strategy_id = [], rq_tag = [], rq_request_ts_ns = 0\<rparr>"

record order =
  od_order_id :: string
  od_strategy_id :: string
  od_tag :: string
  od_token :: u64
  od_side :: side
  od_order_type :: order_type
  od_product :: order_product
  od_status :: order_status
  od_quantity :: int
  od_filled_qty :: int
  od_limit_price :: dbl
  od_trigger_price :: dbl
  od_avg_fill_price :: dbl
  od_placed_ts_ns :: u64
  od_last_update_ns :: u64

definition order_init :: order where
  "order_init = \<lparr>od_order_id = [], od_strategy_id = [], od_tag = [], od_token = 0, od_side = BUY,
     od_order_type = MARKET, od_product = INTRADAY, od_status = PENDING, od_quantity = 0,
     od_filled_qty = 0, od_limit_price = 0, od_trigger_price = 0, od_avg_fill_price = 0,
     od_placed_ts_ns = 0, od_last_update_ns = 0\<rparr>"

record fill =
  fl_order_id :: string
  fl_trade_id :: string
  fl_strategy_id :: string
  fl_token :: u64
  fl_side :: side
  fl_quantity :: int
  fl_price :: dbl
  fl_ts_ns :: u64

definition fill_init :: fill where
  "fill_init = \<lparr>fl_order_id = [], fl_trade_id = [], fl_strategy_id = [], fl_token = 0,
     fl_side = BUY, fl_quantity = 0, fl_price = 0, fl_ts_ns = 0\<rparr>"

definition side_str :: "fill \<Rightarrow> string" where
  "side_str f = (if fl_side f = BUY then ''BUY'' else ''SELL'')"

section \<open>Positions and the portfolio snapshot\<close>

record position =
  ps_token :: u64
  ps_symbol :: string
  ps_strategy_id :: string
  ps_quantity :: int
  ps_avg_price :: dbl
  ps_current_price :: dbl
  ps_realized_pnl :: dbl
  ps_unrealized_pnl :: dbl
  ps_net_delta :: dbl
  ps_net_gamma :: dbl
  ps_net_vega :: dbl
  ps_net_theta :: dbl

definition position_init :: position where
  "position_init = \<lparr>ps_token = 0, ps_symbol = [], ps_strategy_id = [], ps_quantity = 0,
     ps_avg_price = 0, ps_current_price = 0, ps_realized_pnl = 0, ps_unrealized_pnl = 0,
     ps_net_delta = 0, ps_net_gamma = 0, ps_net_vega = 0, ps_net_theta = 0\<rparr>"

definition abs32 :: "int \<Rightarrow> int" where
  \<comment> \<open>\<open>std::abs\<close> on \<open>int\<close>\<close>
  "abs32 x = i32 \<bar>x\<bar>"

definition position_value :: "position \<Rightarrow> dbl" where
  "position_value p = of_int (abs32 (ps_quantity p)) * ps_current_price p"

definition is_long :: "position \<Rightarrow> bool" where
  "is_long p \<longleftrightarrow> ps_quantity p > 0"

definition is_short :: "position \<Rightarrow> bool" where
  "is_short p \<longleftrightarrow> ps_quantity p < 0"

definition is_flat :: "position \<Rightarrow> bool" where
  "is_flat p \<longleftrightarrow> ps_quantity p = 0"

record snapshot =
  sn_positions :: "(u64 \<times> position) list"
  sn_total_realized_pnl :: dbl
  sn_total_unrealized_pnl :: dbl
  sn_available_capital :: dbl
  sn_used_margin :: dbl
  sn_ts_ns :: u64

definition snapshot_init :: snapshot where
  "snapshot_init = \<lparr>sn_positions = [], sn_total_realized_pnl = 0, sn_total_unrealized_pnl = 0,
     sn_available_capital = 0, sn_used_margin = 0, sn_ts_ns = 0\<rparr>"

definition snapshot_get_position :: "snapshot \<Rightarrow> u64 \<Rightarrow> position" where
  "snapshot_get_position s tok =
     (case map_of (sn_positions s) tok of Some p \<Rightarrow> p | None \<Rightarrow> position_init)"

fun sum_positions :: "(position \<Rightarrow> bool) \<Rightarrow> (position \<Rightarrow> dbl) \<Rightarrow> (u64 \<times> position) list \<Rightarrow> dbl \<Rightarrow> dbl" where
  \<comment> \<open>the accumulating loop over the map's entries\<close>
  "sum_positions sel val [] acc = acc"
| "sum_positions sel val ((_, p) # ps) acc =
     sum_positions sel val ps (if sel p then acc + val p else acc)"

definition strategy_daily_pnl :: "snapshot \<Rightarrow> string \<Rightarrow> dbl" where
  "strategy_daily_pnl s sid =
     sum_positions (\<lambda>p. strncmp_eq MAX_STRATEGY_LEN (ps_strategy_id p) sid)
       (\<lambda>p. ps_realized_pnl p + ps_unrealized_pnl p) (sn_positions s) 0"

definition strategy_used_capital :: "snapshot \<Rightarrow> string \<Rightarrow> dbl" where
  "strategy_used_capital s sid =
     sum_positions (\<lambda>p. strncmp_eq MAX_STRATEGY_LEN (ps_strategy_id p) sid)
       position_value (sn_positions s) 0"

lemma sum_positions_sum_list:
  "sum_positions sel val ps acc = acc + sum_list (map val (filter sel (map snd ps)))"
  by (induction sel val ps acc rule: sum_positions.induct) auto

text \<open>The result does not depend on the map's iteration order.\<close>

lemma sum_positions_perm:
  "mset ps = mset qs \<Longrightarrow> sum_positions sel val ps acc = sum_positions sel val qs acc"
proof -
  assume "mset ps = mset qs"
  then have "mset (map val (filter sel (map snd ps))) = mset (map val (filter sel (map snd qs)))"
    by (metis mset_filter mset_map)
  then have "sum_list (map val (filter sel (map snd ps))) = sum_list (map val (filter sel (map snd qs)))"
    by (metis sum_mset_sum_list)
  then show ?thesis
    by (simp only: sum_positions_sum_list)
qed

section \<open>Configuration\<close>

record risk_limits =
  rl_max_single_order_value :: dbl
  rl_max_position_value :: dbl
  rl_max_capital_allocation :: dbl
  rl_max_daily_loss :: dbl
  rl_max_net_delta :: dbl
  rl_max_net_vega :: dbl
  rl_max_orders_per_second :: int

definition risk_limits_init :: risk_limits where
  "risk_limits_init = \<lparr>rl_max_single_order_value = 10000, rl_max_position_value = 50000,
     rl_max_capital_allocation = 50000, rl_max_daily_loss = 5000, rl_max_net_delta = 500,
     rl_max_net_vega = 10000, rl_max_orders_per_second = 10\<rparr>"

record strategy_config =
  sc_id :: string
  sc_name :: string
  sc_plugin_path :: string
  sc_instruments :: "u64 list"
  sc_allocated_core :: int
  sc_risk :: risk_limits
  sc_params :: "(string \<times> dbl) list"

definition strategy_config_init :: strategy_config where
  "strategy_config_init = \<lparr>sc_id = [], sc_name = [], sc_plugin_path = [], sc_instruments = [],
     sc_allocated_core = 2, sc_risk = risk_limits_init, sc_params = []\<rparr>"

record strategy_info =
  si_id :: string
  si_name :: string
  si_version :: string
  si_description :: string

record thread_config =
  tc_market_data_io :: int
  tc_tick_normalizer :: int
  tc_risk_gate :: int
  tc_oms :: int
  tc_fill_processor :: int
  tc_portfolio :: int
  tc_kafka_publisher :: int
  tc_heartbeat :: int

definition thread_config_init :: thread_config where
  "thread_config_init = \<lparr>tc_market_data_io = 0, tc_tick_normalizer = 1, tc_risk_gate = 6,
     tc_oms = 7, tc_fill_processor = 8, tc_portfolio = 3, tc_kafka_publisher = 4,
     tc_heartbeat = 5\<rparr>"

record engine_config =
  ec_access_token :: string
  ec_api_key :: string
  ec_redirect_uri :: string
  ec_redis_url :: string
  ec_kafka_brokers :: string
  ec_threads :: thread_config
  ec_strategies :: "strategy_config list"
  ec_paper_trading :: bool
  ec_dry_run :: bool

definition engine_config_init :: engine_config where
  "engine_config_init = \<lparr>ec_access_token = [], ec_api_key = [], ec_redirect_uri = [],
     ec_redis_url = ''redis://127.0.0.1:6379'', ec_kafka_brokers = ''127.0.0.1:9092'',
     ec_threads = thread_config_init, ec_strategies = [], ec_paper_trading = True,
     ec_dry_run = False\<rparr>"

record order_book =
  ob_token :: u64
  ob_ts_ns :: u64
  ob_bid :: "depth_level list"
  ob_ask :: "depth_level list"

record risk_alert =
  ra_level :: alert_level
  ra_strategy_id :: string
  ra_message :: string
  ra_ts_ns :: u64

end
