(* ===== verification/QF_Rest.thy ===== *)
theory QF_Rest
  imports QF_Types
begin

text \<open>
  The REST client of \<open>cpp/transport/upstox_rest_client.cpp\<close>: which request each call builds, and which
  callback the asynchronous chain of \<open>do_request\<close> ends in. What the network does is an argument, as
  is the text \<open>nlohmann::json::dump\<close> makes of a value.
\<close>

section \<open>Values the JSON library is given\<close>

datatype json =
  JNull | JBool bool | JInt int | JNum dbl | JStr string | JArr "json list" | JObj "(string \<times> json) list"

section \<open>Requests and outcomes\<close>

datatype http_verb = Get | Post | Put | Delete

record http_request =
  hr_verb :: http_verb
  hr_host :: string
  hr_target :: string
  hr_headers :: "(string \<times> string) list"
  hr_body :: string

datatype net_result =
  ResolveFailed string | SniFailed | ConnectFailed string | TlsFailed string | WriteFailed string
| ReadFailed string | Response nat string

datatype rest_callback = OnSuccess string | OnError string

datatype rest_call = Callback rest_callback | Request http_request

record rest_client =
  rc_access_token :: string
  rc_paper_mode :: bool

definition HFT_HOST :: string where "HFT_HOST = ''api-hft.upstox.com''"
definition API_HOST :: string where "API_HOST = ''api.upstox.com''"

definition set_access_token :: "string \<Rightarrow> rest_client \<Rightarrow> rest_client" where
  "set_access_token tok rc = rc\<lparr>rc_access_token := tok\<rparr>"

definition do_request :: "net_result \<Rightarrow> rest_callback" where
  "do_request net =
     (case net of
        ResolveFailed e \<Rightarrow> OnError (''Resolve: '' @ e)
      | SniFailed \<Rightarrow> OnError ''SSL SNI failed''
      | ConnectFailed e \<Rightarrow> OnError (''Connect: '' @ e)
      | TlsFailed e \<Rightarrow> OnError (''TLS: '' @ e)
      | WriteFailed e \<Rightarrow> OnError (''Write: '' @ e)
      | ReadFailed e \<Rightarrow> OnError (''Read: '' @ e)
      | Response status body \<Rightarrow>
          if status \<ge> 200 \<and> status < 300 then OnSuccess body
          else OnError (''HTTP '' @ dec status @ '': '' @ body))"

section \<open>Request bodies\<close>

definition type_str :: "order_type \<Rightarrow> string" where
  "type_str t = (case t of MARKET \<Rightarrow> ''MARKET'' | LIMIT \<Rightarrow> ''LIMIT'' | SL \<Rightarrow> ''SL'' | SLM \<Rightarrow> ''SL-M'')"

definition prod_str :: "order_product \<Rightarrow> string" where
  "prod_str p = (case p of INTRADAY \<Rightarrow> ''I'' | DELIVERY \<Rightarrow> ''D'' | MTF \<Rightarrow> ''MTF'')"

definition build_place_order_body :: "order_request \<Rightarrow> string \<Rightarrow> json" where
  "build_place_order_body req tag = JObj
     [(''quantity'', JInt (rq_quantity req)),
      (''product'', JStr (prod_str (rq_product req))),
      (''validity'', JStr (if rq_validity req = IOC then ''IOC'' else ''DAY'')),
      (''price'', JNum (rq_limit_price req)),
      (''tag'', JStr (rq_tag req @ ''-'' @ tag)),
      (''instrument_token'', JStr (dec (unat (rq_token req)))),
      (''order_type'', JStr (type_str (rq_order_type req))),
      (''transaction_type'', JStr (if rq_side req = BUY then ''BUY'' else ''SELL'')),
      (''disclosed_quantity'', JInt 0),
      (''trigger_price'', JNum (rq_trigger_price req)),
      (''is_amo'', JBool (rq_is_amo req)),
      (''slice'', JBool (rq_slice req))]"

definition modify_body :: "string \<Rightarrow> dbl \<Rightarrow> int \<Rightarrow> json" where
  "modify_body ex price qty = JObj [(''order_id'', JStr ex), (''price'', JNum price),
     (''quantity'', JInt qty), (''validity'', JStr ''DAY'')]"

section \<open>Calls\<close>

definition json_headers :: "string \<Rightarrow> rest_client \<Rightarrow> (string \<times> string) list" where
  "json_headers host rc = [(''Host'', host), (''Content-Type'', ''application/json''),
     (''User-Agent'', ''quantforge-engine/1.0''), (''Authorization'', ''Bearer '' @ rc_access_token rc)]"

definition plain_headers :: "string \<Rightarrow> rest_client \<Rightarrow> (string \<times> string) list" where
  "plain_headers host rc = [(''Host'', host), (''User-Agent'', ''quantforge-engine/1.0''),
     (''Authorization'', ''Bearer '' @ rc_access_token rc)]"

definition paper_body :: "string \<Rightarrow> string" where
  "paper_body oid = ''{\"data\":{\"order_ids\":[\"PAPER-'' @ oid @ ''\"]},\"status\":\"success\"}''"

definition rest_place_order :: "(json \<Rightarrow> string) \<Rightarrow> order_request \<Rightarrow> string \<Rightarrow> rest_client \<Rightarrow> rest_call" where
  "rest_place_order dump req oid rc =
     (if rc_paper_mode rc then Callback (OnSuccess (paper_body oid))
      else Request \<lparr>hr_verb = Post, hr_host = HFT_HOST, hr_target = ''/v3/order/place'',
        hr_headers = json_headers HFT_HOST rc, hr_body = dump (build_place_order_body req oid)\<rparr>)"

definition rest_cancel_order :: "string \<Rightarrow> rest_client \<Rightarrow> rest_call" where
  "rest_cancel_order ex rc =
     (if rc_paper_mode rc then Callback (OnSuccess ''{}'')
      else Request \<lparr>hr_verb = Delete, hr_host = HFT_HOST, hr_target = ''/v3/order/cancel?order_id='' @ ex,
        hr_headers = plain_headers HFT_HOST rc, hr_body = []\<rparr>)"

definition rest_modify_order :: "(json \<Rightarrow> string) \<Rightarrow> string \<Rightarrow> dbl \<Rightarrow> int \<Rightarrow> rest_client \<Rightarrow> rest_call" where
  "rest_modify_order dump ex price qty rc =
     (if rc_paper_mode rc then Callback (OnSuccess ''{}'')
      else Request \<lparr>hr_verb = Put, hr_host = HFT_HOST, hr_target = ''/v3/order/modify'',
        hr_headers = json_headers HFT_HOST rc, hr_body = dump (modify_body ex price qty)\<rparr>)"

definition get_positions :: "rest_client \<Rightarrow> rest_call" where
  "get_positions rc = Request \<lparr>hr_verb = Get, hr_host = API_HOST,
     hr_target = ''/v3/portfolio/short-term-positions'', hr_headers = plain_headers API_HOST rc, hr_body = []\<rparr>"

definition get_funds :: "rest_client \<Rightarrow> rest_call" where
  "get_funds rc = Request \<lparr>hr_verb = Get, hr_host = API_HOST,
     hr_target = ''/v3/user/get-funds-and-margin'', hr_headers = plain_headers API_HOST rc, hr_body = []\<rparr>"

definition rest_outcome :: "rest_call \<Rightarrow> net_result \<Rightarrow> rest_callback" where
  \<comment> \<open>the callback a call ends in, when the network does \<open>net\<close> to its request\<close>
  "rest_outcome call net = (case call of Callback cb \<Rightarrow> cb | Request _ \<Rightarrow> do_request net)"

section \<open>What can be read back\<close>

fun json_at :: "string \<Rightarrow> json \<Rightarrow> json option" where
  \<comment> \<open>\<open>at(key)\<close>; \<open>None\<close> stands for the exception\<close>
  "json_at k (JObj kvs) = map_of kvs k"
| "json_at k _ = None"

fun json_nth :: "nat \<Rightarrow> json \<Rightarrow> json option" where
  "json_nth i (JArr xs) = (if i < length xs then Some (xs ! i) else None)"
| "json_nth i _ = None"

fun json_string :: "json \<Rightarrow> string option" where
  "json_string (JStr s) = Some s"
| "json_string _ = None"

lemma do_request_success:
  "do_request net = OnSuccess body \<longleftrightarrow> (\<exists>status. net = Response status body \<and> 200 \<le> status \<and> status < 300)"
  by (auto simp: do_request_def split: net_result.split)

lemma type_str_inj: "type_str t = type_str t' \<longleftrightarrow> t = t'"
  by (cases t; cases t') (simp_all add: type_str_def)

lemma prod_str_inj: "prod_str p = prod_str p' \<longleftrightarrow> p = p'"
  by (cases p; cases p') (simp_all add: prod_str_def)

text \<open>
  The body of an order loses nothing the exchange acts on: two requests with the same body agree in
  instrument, side, type, product, validity, quantity, prices and flags.
\<close>

lemma order_body_faithful:
  assumes "build_place_order_body req oid = build_place_order_body req' oid'"
  shows "rq_token req = rq_token req' \<and> rq_side req = rq_side req' \<and> rq_order_type req = rq_order_type req'
     \<and> rq_product req = rq_product req' \<and> rq_validity req = rq_validity req'
     \<and> rq_quantity req = rq_quantity req' \<and> rq_limit_price req = rq_limit_price req'
     \<and> rq_trigger_price req = rq_trigger_price req' \<and> rq_is_amo req = rq_is_amo req'
     \<and> rq_slice req = rq_slice req'"
proof -
  have "rq_side req = rq_side req'" using assms
    by (cases "rq_side req"; cases "rq_side req'") (simp_all add: build_place_order_body_def)
  moreover have "rq_validity req = rq_validity req'" using assms
    by (cases "rq_validity req"; cases "rq_validity req'") (simp_all add: build_place_order_body_def)
  ultimately show ?thesis
    using assms by (simp add: build_place_order_body_def type_str_inj prod_str_inj dec_inj word_unat_eq_iff)
qed

lemma order_body_faithful_witness:
  "rq_slice ((order_request_init 7)\<lparr>rq_tag := ''a''\<rparr>) = rq_slice (order_request_init 7)"
  using order_body_faithful [of "(order_request_init 7)\<lparr>rq_tag := ''a''\<rparr>" "''1''" "order_request_init 7" "''a-1''"]
  by (simp add: build_place_order_body_def order_request_init_def)

text \<open>
  In paper mode no order call reaches the network: placing, modifying and cancelling call back at
  once, and what the network would do has no influence.
\<close>

lemma paper_mode_sends_nothing:
  assumes "rc_paper_mode rc"
  shows "rest_outcome (rest_place_order dump req oid rc) net = OnSuccess (paper_body oid)
     \<and> rest_outcome (rest_cancel_order ex rc) net = OnSuccess ''{}''
     \<and> rest_outcome (rest_modify_order dump ex price qty rc) net = OnSuccess ''{}''"
  using assms by (simp add: rest_place_order_def rest_cancel_order_def rest_modify_order_def rest_outcome_def)

end
