(* ===== verification/QF_Order_State.thy ===== *)
theory QF_Order_State
  imports QF_Types
begin

text \<open>
  The order life cycle of \<open>cpp/oms/order_state.hpp\<close>. \<open>is_legal\<close> is the transition table,
  \<open>cas_transition\<close> the body of \<open>transition\<close> with the value its first load returned and the value the
  compare-exchange finds, \<open>transition\<close> the call without interference. \<open>osm_step\<close> interleaves any
  number of threads inside \<open>transition\<close>: whatever the schedule, the status only moves along legal
  edges, at most four times, and never out of a terminal status.
\<close>

fun is_legal :: "order_status \<Rightarrow> order_status \<Rightarrow> bool" where
  "is_legal PENDING st \<longleftrightarrow> st = OPEN \<or> st = REJECTED \<or> st = CANCELLED \<or> st = TRIGGER_PENDING"
| "is_legal TRIGGER_PENDING st \<longleftrightarrow> st = OPEN \<or> st = CANCELLED"
| "is_legal OPEN st \<longleftrightarrow> st = COMPLETE \<or> st = PARTIAL \<or> st = CANCELLED"
| "is_legal PARTIAL st \<longleftrightarrow> st = COMPLETE \<or> st = CANCELLED"
| "is_legal _ st \<longleftrightarrow> False"

definition cas_transition :: "order_status \<Rightarrow> order_status \<Rightarrow> order_status \<Rightarrow> bool \<times> order_status" where
  \<comment> \<open>\<open>loaded\<close>: what the first load returned; \<open>actual\<close>: the status at the compare-exchange\<close>
  "cas_transition loaded actual st =
     (if \<not> is_legal loaded st then (False, actual)
      else if actual = loaded then (True, st) else (False, actual))"

definition transition :: "order_status \<Rightarrow> order_status \<Rightarrow> bool \<times> order_status" where
  "transition current st = cas_transition current current st"

definition is_terminal :: "order_status \<Rightarrow> bool" where
  "is_terminal s \<longleftrightarrow> s = COMPLETE \<or> s = CANCELLED \<or> s = REJECTED"

fun status_name :: "order_status \<Rightarrow> string" where
  "status_name PENDING = ''PENDING''"
| "status_name OPEN = ''OPEN''"
| "status_name COMPLETE = ''COMPLETE''"
| "status_name CANCELLED = ''CANCELLED''"
| "status_name REJECTED = ''REJECTED''"
| "status_name PARTIAL = ''PARTIAL''"
| "status_name TRIGGER_PENDING = ''TRIGGER_PENDING''"

lemma status_name_inj: "status_name a = status_name b \<longleftrightarrow> a = b"
  by (cases a; cases b) auto

lemma transition_eq: "transition s st = (if is_legal s st then (True, st) else (False, s))"
  by (simp add: transition_def cas_transition_def)

lemma terminal_no_exit: "is_terminal s \<Longrightarrow> \<not> is_legal s st"
  by (auto simp: is_terminal_def)

lemma nonterminal_exit: "\<not> is_terminal s \<Longrightarrow> \<exists>st. is_legal s st"
  by (cases s) (auto simp: is_terminal_def)

section \<open>Ranks: the table has no cycle\<close>

fun status_rank :: "order_status \<Rightarrow> nat" where
  "status_rank PENDING = 4"
| "status_rank TRIGGER_PENDING = 3"
| "status_rank OPEN = 2"
| "status_rank PARTIAL = 1"
| "status_rank _ = 0"

lemma is_legal_rank: "is_legal s st \<Longrightarrow> status_rank st < status_rank s"
  by (cases s; cases st) auto

lemma status_rank_max: "status_rank s \<le> 4"
  by (cases s) auto

section \<open>Threads inside \<open>transition\<close>\<close>

text \<open>
  \<open>osm_pending t\<close> holds what thread \<open>t\<close> has loaded and where it wants to go; \<open>osm_path\<close> records the
  statuses the order has had, latest first.
\<close>

record osm =
  osm_status :: order_status
  osm_pending :: "nat \<Rightarrow> (order_status \<times> order_status) option"
  osm_path :: "order_status list"

definition osm_new :: osm where
  "osm_new = \<lparr>osm_status = PENDING, osm_pending = (\<lambda>_. None), osm_path = [PENDING]\<rparr>"

inductive osm_step :: "osm \<Rightarrow> osm \<Rightarrow> bool" where
  t_load: "osm_pending m t = None \<Longrightarrow>
    osm_step m (m\<lparr>osm_pending := (osm_pending m)(t := Some (osm_status m, st))\<rparr>)"
| t_done: "osm_pending m t = Some (loaded, st) \<Longrightarrow>
    cas_transition loaded (osm_status m) st = (True, s') \<Longrightarrow>
    osm_step m (m\<lparr>osm_status := s', osm_pending := (osm_pending m)(t := None),
      osm_path := s' # osm_path m\<rparr>)"
| t_fail: "osm_pending m t = Some (loaded, st) \<Longrightarrow>
    cas_transition loaded (osm_status m) st = (False, s') \<Longrightarrow>
    osm_step m (m\<lparr>osm_status := s', osm_pending := (osm_pending m)(t := None)\<rparr>)"

inductive osm_reach :: "osm \<Rightarrow> bool" where
  osm_init: "osm_reach osm_new"
| osm_next: "osm_reach m \<Longrightarrow> osm_step m m' \<Longrightarrow> osm_reach m'"

fun legal_path :: "order_status list \<Rightarrow> bool" where
  "legal_path [] \<longleftrightarrow> False"
| "legal_path [s] \<longleftrightarrow> s = PENDING"
| "legal_path (s' # s # ss) \<longleftrightarrow> is_legal s s' \<and> legal_path (s # ss)"

lemma legal_path_length:
  "legal_path ss \<Longrightarrow> length ss + status_rank (hd ss) \<le> 5"
  by (induction ss rule: legal_path.induct) (auto dest: is_legal_rank)

lemma legal_path_terminal: "legal_path ss \<Longrightarrow> s \<in> set (tl ss) \<Longrightarrow> \<not> is_terminal s"
  by (induction ss rule: legal_path.induct) (auto dest: terminal_no_exit)

lemma cas_transition_cases:
  "cas_transition loaded actual st = (True, s') \<longleftrightarrow> is_legal loaded st \<and> actual = loaded \<and> s' = st"
  "cas_transition loaded actual st = (False, s') \<longleftrightarrow> (is_legal loaded st \<longrightarrow> actual \<noteq> loaded) \<and> s' = actual"
  by (auto simp: cas_transition_def)

lemma osm_step_path:
  assumes "osm_step m m'" and "legal_path (osm_path m)" and "hd (osm_path m) = osm_status m"
  shows "legal_path (osm_path m') \<and> hd (osm_path m') = osm_status m'"
  using assms
proof cases
  case (t_done t loaded st s')
  obtain ss where "osm_path m = osm_status m # ss"
    using assms(2,3) by (cases "osm_path m") auto
  with t_done assms(2) show ?thesis by (simp add: cas_transition_cases)
qed (simp_all add: cas_transition_cases)

lemma osm_reach_path: "osm_reach m \<Longrightarrow> legal_path (osm_path m) \<and> hd (osm_path m) = osm_status m"
  by (induction rule: osm_reach.induct) (simp add: osm_new_def, blast dest: osm_step_path)

text \<open>C17: under every interleaving the order follows a legal path of at most four moves.\<close>

lemma order_path_legal:
  assumes "osm_reach m"
  shows "legal_path (osm_path m) \<and> hd (osm_path m) = osm_status m
     \<and> length (osm_path m) \<le> 5 \<and> (\<forall>s \<in> set (tl (osm_path m)). \<not> is_terminal s)"
  using osm_reach_path [OF assms] legal_path_length [of "osm_path m"]
    legal_path_terminal [of "osm_path m"] by auto

lemma order_path_legal_witness:
  "\<exists>m. osm_reach m \<and> osm_path m = [OPEN, PENDING] \<and> legal_path (osm_path m)"
proof -
  let ?m = "osm_new\<lparr>osm_pending := (osm_pending osm_new)(0 := Some (osm_status osm_new, OPEN))\<rparr>"
  let ?m' = "?m\<lparr>osm_status := OPEN, osm_pending := (osm_pending ?m)(0 := None), osm_path := OPEN # osm_path ?m\<rparr>"
  have "osm_step osm_new ?m" by (rule t_load) (simp add: osm_new_def)
  moreover have "osm_step ?m ?m'"
    by (rule t_done [where loaded = PENDING and st = OPEN]) (simp_all add: osm_new_def cas_transition_def)
  ultimately have "osm_reach ?m'" using osm_next [OF osm_next [OF osm_init]] by blast
  moreover have "osm_path ?m' = [OPEN, PENDING]" by (simp add: osm_new_def)
  ultimately show ?thesis using order_path_legal [of ?m'] by blast
qed

end
