(* ===== verification/QF_Order_Pool.thy ===== *)
theory QF_Order_Pool
  imports QF_Order_State
begin

text \<open>
  The pre-allocated order pool of \<open>cpp/oms/order_pool.hpp\<close>. A pointer into the pool array is the
  index of its slot, so that the aliasing between the pool and the order table of the OMS stays
  visible; the free list is a stack with its top at the head of the list. \<open>PoolSize\<close> is the
  argument of \<open>pool_new\<close>.

  \<open>slot_pool\<close> is the contract the OMS relies on: what acquire and release do to the set of free
  slots, and that the slots a client holds and the free ones stay a partition.
\<close>

record pooled_order =
  po_order :: order
  po_sm :: order_status

definition pooled_order_init :: pooled_order where
  "pooled_order_init = \<lparr>po_order = order_init, po_sm = PENDING\<rparr>"

record pool =
  pl_slots :: "nat \<Rightarrow> pooled_order"
  pl_free :: "nat list"

definition pool_new :: "nat \<Rightarrow> pool" where
  \<comment> \<open>the constructor pushes the addresses in array order: the last slot is on top\<close>
  "pool_new pool_size = \<lparr>pl_slots = (\<lambda>_. pooled_order_init), pl_free = rev [0..<pool_size]\<rparr>"

definition pool_acquire :: "pool \<Rightarrow> nat option \<times> pool" where
  "pool_acquire p =
     (case pl_free p of
        [] \<Rightarrow> (None, p)
      | i # rest \<Rightarrow> (Some i, p\<lparr>pl_free := rest, pl_slots := (pl_slots p)(i := pooled_order_init)\<rparr>))"

definition pool_release :: "nat option \<Rightarrow> pool \<Rightarrow> pool" where
  \<comment> \<open>\<open>None\<close> is the null pointer\<close>
  "pool_release ptr p = (case ptr of None \<Rightarrow> p | Some i \<Rightarrow> p\<lparr>pl_free := i # pl_free p\<rparr>)"

definition pool_available :: "pool \<Rightarrow> nat" where
  "pool_available p = length (pl_free p)"

section \<open>The contract\<close>

definition splits :: "nat set \<Rightarrow> nat set \<Rightarrow> nat set \<Rightarrow> bool" where
  "splits whole held free \<longleftrightarrow> held \<inter> free = {} \<and> held \<union> free = whole"

lemma splits_take: "splits whole held free \<Longrightarrow> i \<in> free \<Longrightarrow> splits whole (insert i held) (free - {i})"
  by (auto simp: splits_def)

lemma splits_give: "splits whole held free \<Longrightarrow> i \<in> held \<Longrightarrow> splits whole (held - {i}) (insert i free)"
  by (auto simp: splits_def)

locale slot_pool =
  fixes acq :: "'p \<Rightarrow> nat option \<times> 'p"
    and rel :: "nat option \<Rightarrow> 'p \<Rightarrow> 'p"
    and free :: "'p \<Rightarrow> nat set"
    and ok :: "'p \<Rightarrow> bool"
  assumes acq_None: "acq p = (None, p') \<Longrightarrow> free p = {} \<and> p' = p"
    and acq_Some: "ok p \<Longrightarrow> acq p = (Some i, p') \<Longrightarrow> i \<in> free p \<and> free p' = free p - {i} \<and> ok p'"
    and rel_Some: "ok p \<Longrightarrow> i \<notin> free p \<Longrightarrow> free (rel (Some i) p) = insert i (free p) \<and> ok (rel (Some i) p)"
begin

lemma acquire_splits:
  assumes "ok p" and "splits whole held (free p)" and "acq p = (Some i, p')"
  shows "ok p' \<and> i \<notin> held \<and> i \<in> whole \<and> splits whole (insert i held) (free p')"
  using acq_Some [OF assms(1,3)] splits_take [OF assms(2)] assms(2) by (auto simp: splits_def)

lemma release_splits:
  assumes "ok p" and "splits whole held (free p)" and "i \<in> held"
  shows "ok (rel (Some i) p) \<and> splits whole (held - {i}) (free (rel (Some i) p))"
proof -
  have "i \<notin> free p" using assms(2,3) by (auto simp: splits_def)
  with rel_Some [OF assms(1) this] splits_give [OF assms(2,3)] show ?thesis by simp
qed

lemma acquire_fails_iff:
  assumes "ok p" and "splits whole held (free p)" and "acq p = (r, p')"
  shows "r = None \<longleftrightarrow> held = whole"
proof (cases r)
  case None
  with acq_None assms show ?thesis by (auto simp: splits_def)
next
  case (Some i)
  with acquire_splits [OF assms(1,2)] assms(3) show ?thesis by auto
qed

end

definition pool_ok :: "pool \<Rightarrow> bool" where
  "pool_ok p \<longleftrightarrow> distinct (pl_free p)"

definition pool_free :: "pool \<Rightarrow> nat set" where
  "pool_free p = set (pl_free p)"

interpretation opool: slot_pool pool_acquire pool_release pool_free pool_ok
  by unfold_locales
    (auto simp: pool_acquire_def pool_release_def pool_free_def pool_ok_def split: list.splits)

lemma pool_new_ok [inv_intros]: "pool_ok (pool_new n)" "pool_free (pool_new n) = {..<n}"
  by (auto simp: pool_ok_def pool_free_def pool_new_def)

lemma pool_ok_slots [simp]:
  "pool_ok (p\<lparr>pl_slots := f\<rparr>) = pool_ok p" "pool_free (p\<lparr>pl_slots := f\<rparr>) = pool_free p"
  by (simp_all add: pool_ok_def pool_free_def)

lemma pool_available_card: "pool_ok p \<Longrightarrow> pool_available p = card (pool_free p)"
  by (simp add: pool_ok_def pool_available_def pool_free_def distinct_card)

lemma pool_acquire_zeroed: "pool_acquire p = (Some i, p') \<Longrightarrow> pl_slots p' i = pooled_order_init"
  by (auto simp: pool_acquire_def split: list.splits)

lemma pool_acquire_others: "pool_acquire p = (Some i, p') \<Longrightarrow> j \<noteq> i \<Longrightarrow> pl_slots p' j = pl_slots p j"
  by (auto simp: pool_acquire_def split: list.splits)

lemma pool_release_slots [simp]: "pl_slots (pool_release ptr p) = pl_slots p"
  by (auto simp: pool_release_def split: option.splits)

end
