(* ===== verification/QF_Fill_Dedup.thy ===== *)
theory QF_Fill_Dedup
  imports QF_Prelude
begin

text \<open>
  The duplicate-fill guard of \<open>cpp/oms/fill_deduplicator.hpp\<close>. \<open>try_mark\<close> has two critical sections,
  a check under the shared lock and an insert under the exclusive lock, with a gap between them;
  \<open>dd_step\<close> interleaves any number of callers at that grain. The set holds the accepted ids.
\<close>

record dedup =
  dd_processed :: "string set"
  dd_duplicates :: nat

definition dedup_new :: dedup where
  "dedup_new = \<lparr>dd_processed = {}, dd_duplicates = 0\<rparr>"

definition mark_fast :: "string \<Rightarrow> dedup \<Rightarrow> bool \<times> dedup" where
  \<comment> \<open>\<open>False\<close>: seen, the call returns; \<open>True\<close>: go on to the exclusive section\<close>
  "mark_fast tid d =
     (if tid \<in> dd_processed d then (False, d\<lparr>dd_duplicates := dd_duplicates d + 1\<rparr>) else (True, d))"

definition mark_slow :: "string \<Rightarrow> dedup \<Rightarrow> bool \<times> dedup" where
  "mark_slow tid d =
     (if tid \<in> dd_processed d then (False, d\<lparr>dd_duplicates := dd_duplicates d + 1\<rparr>)
      else (True, d\<lparr>dd_processed := insert tid (dd_processed d)\<rparr>))"

definition try_mark :: "string \<Rightarrow> dedup \<Rightarrow> bool \<times> dedup" where
  "try_mark tid d = (let (go, d1) = mark_fast tid d in if go then mark_slow tid d1 else (False, d1))"

definition dedup_reset :: "dedup \<Rightarrow> dedup" where
  "dedup_reset d = d\<lparr>dd_processed := {}, dd_duplicates := 0\<rparr>"

definition unique_fills :: "dedup \<Rightarrow> nat" where
  "unique_fills d = card (dd_processed d)"

definition duplicate_count :: "dedup \<Rightarrow> nat" where
  "duplicate_count d = dd_duplicates d"

lemma try_mark_eq:
  "try_mark tid d =
     (if tid \<in> dd_processed d then (False, d\<lparr>dd_duplicates := dd_duplicates d + 1\<rparr>)
      else (True, d\<lparr>dd_processed := insert tid (dd_processed d)\<rparr>))"
  by (simp add: try_mark_def mark_fast_def mark_slow_def)

lemma try_mark_marks: "try_mark tid d = (b, d') \<Longrightarrow> tid \<in> dd_processed d'"
  by (auto simp: try_mark_eq split: if_splits)

lemma try_mark_mono: "try_mark tid d = (b, d') \<Longrightarrow> dd_processed d \<subseteq> dd_processed d'"
  by (auto simp: try_mark_eq split: if_splits)

section \<open>Sequences of calls\<close>

fun mark_all :: "string list \<Rightarrow> dedup \<Rightarrow> bool list \<times> dedup" where
  "mark_all [] d = ([], d)"
| "mark_all (t # ts) d = (let (b, d1) = try_mark t d; (bs, d2) = mark_all ts d1 in (b # bs, d2))"

lemma mark_all_step:
  "finite (dd_processed d) \<Longrightarrow> mark_all ts d = (bs, d') \<Longrightarrow>
     length bs = length ts
     \<and> (\<forall>i < length ts. bs ! i \<longleftrightarrow> ts ! i \<notin> dd_processed d \<and> ts ! i \<notin> set (take i ts))
     \<and> finite (dd_processed d') \<and> dd_processed d' = dd_processed d \<union> set ts
     \<and> unique_fills d' + duplicate_count d' = unique_fills d + duplicate_count d + length ts"
proof (induction ts arbitrary: d bs d')
  case (Cons t ts)
  obtain b d1 where 1: "try_mark t d = (b, d1)" by fastforce
  obtain bs1 where 2: "mark_all ts d1 = (bs1, d')" and bs: "bs = b # bs1"
    using Cons.prems(2) 1 by (auto simp: Let_def split: prod.splits)
  have d1: "finite (dd_processed d1)" "dd_processed d1 = insert t (dd_processed d)"
    "b \<longleftrightarrow> t \<notin> dd_processed d"
    "unique_fills d1 + duplicate_count d1 = unique_fills d + duplicate_count d + 1"
    using 1 Cons.prems(1)
    by (auto simp: try_mark_eq unique_fills_def duplicate_count_def insert_absorb split: if_splits)
  note IH = Cons.IH [OF d1(1) 2]
  have "(bs ! i \<longleftrightarrow> (t # ts) ! i \<notin> dd_processed d \<and> (t # ts) ! i \<notin> set (take i (t # ts)))"
    if "i < length (t # ts)" for i
    using that IH d1 bs by (cases i) auto
  with IH d1 bs show ?case by auto
qed (simp add: unique_fills_def)

text \<open>
  Of a sequence of calls the accepted ones are exactly the first occurrences, and the two
  counters add up to the number of calls.
\<close>

lemma dedup_first_occurrences:
  assumes "mark_all ts dedup_new = (bs, d)"
  shows "(\<forall>i < length ts. bs ! i \<longleftrightarrow> ts ! i \<notin> set (take i ts))
     \<and> unique_fills d + duplicate_count d = length ts \<and> unique_fills d = card (set ts)"
proof -
  have "finite (dd_processed dedup_new)" by (simp add: dedup_new_def)
  note m = mark_all_step [OF this assms]
  then have "unique_fills d = card (set ts)" by (simp add: unique_fills_def dedup_new_def)
  moreover have "unique_fills dedup_new + duplicate_count dedup_new = 0"
    by (simp add: dedup_new_def unique_fills_def duplicate_count_def)
  ultimately show ?thesis using m by (simp add: dedup_new_def)
qed

lemma dedup_first_occurrences_witness:
  "unique_fills (snd (mark_all [''T1'', ''T2'', ''T1''] dedup_new)) = 2"
proof -
  obtain bs d where m: "mark_all [''T1'', ''T2'', ''T1''] dedup_new = (bs, d)" by fastforce
  have "card (set [''T1'', ''T2'', ''T1'']) = 2" by (simp add: card_insert_if)
  with dedup_first_occurrences [OF m] m show ?thesis by simp
qed

section \<open>Concurrent callers\<close>

record ddsys =
  ds_dedup :: dedup
  ds_waiting :: "string list"
  ds_accepted :: "string list"

inductive dd_step :: "ddsys \<Rightarrow> ddsys \<Rightarrow> bool" where
  d_seen: "mark_fast tid (ds_dedup s) = (False, d) \<Longrightarrow> dd_step s (s\<lparr>ds_dedup := d\<rparr>)"
| d_wait: "mark_fast tid (ds_dedup s) = (True, d) \<Longrightarrow>
    dd_step s (s\<lparr>ds_dedup := d, ds_waiting := tid # ds_waiting s\<rparr>)"
| d_lost: "tid \<in> set (ds_waiting s) \<Longrightarrow> mark_slow tid (ds_dedup s) = (False, d) \<Longrightarrow>
    dd_step s (s\<lparr>ds_dedup := d, ds_waiting := remove1 tid (ds_waiting s)\<rparr>)"
| d_won: "tid \<in> set (ds_waiting s) \<Longrightarrow> mark_slow tid (ds_dedup s) = (True, d) \<Longrightarrow>
    dd_step s (s\<lparr>ds_dedup := d, ds_waiting := remove1 tid (ds_waiting s),
      ds_accepted := tid # ds_accepted s\<rparr>)"

inductive dd_reach :: "ddsys \<Rightarrow> bool" where
  dd_init: "dd_reach \<lparr>ds_dedup = dedup_new, ds_waiting = [], ds_accepted = []\<rparr>"
| dd_next: "dd_reach s \<Longrightarrow> dd_step s s' \<Longrightarrow> dd_reach s'"

definition dd_inv :: "ddsys \<Rightarrow> bool" where
  "dd_inv s \<longleftrightarrow> distinct (ds_accepted s) \<and> set (ds_accepted s) = dd_processed (ds_dedup s)"

lemma mark_cases:
  "mark_fast tid d = (True, d') \<longleftrightarrow> tid \<notin> dd_processed d \<and> d' = d"
  "mark_fast tid d = (False, d') \<longleftrightarrow>
     tid \<in> dd_processed d \<and> d' = d\<lparr>dd_duplicates := dd_duplicates d + 1\<rparr>"
  "mark_slow tid d = (True, d') \<longleftrightarrow>
     tid \<notin> dd_processed d \<and> d' = d\<lparr>dd_processed := insert tid (dd_processed d)\<rparr>"
  "mark_slow tid d = (False, d') \<longleftrightarrow>
     tid \<in> dd_processed d \<and> d' = d\<lparr>dd_duplicates := dd_duplicates d + 1\<rparr>"
  by (auto simp: mark_fast_def mark_slow_def)

lemma dd_step_inv: "dd_step s s' \<Longrightarrow> dd_inv s \<Longrightarrow> dd_inv s'"
  by (erule dd_step.cases) (simp_all add: dd_inv_def mark_cases)

text \<open>C15: no interleaving accepts a trade id twice.\<close>

lemma dedup_accepts_once:
  assumes "dd_reach s"
  shows "distinct (ds_accepted s) \<and> set (ds_accepted s) = dd_processed (ds_dedup s)"
proof -
  have "dd_inv s"
    using assms by (induction rule: dd_reach.induct) (simp add: dd_inv_def dedup_new_def, rule dd_step_inv)
  then show ?thesis by (simp add: dd_inv_def)
qed

lemma dedup_accepts_once_witness:
  "\<exists>s. dd_reach s \<and> ds_accepted s = [''T1''] \<and> distinct (ds_accepted s)"
proof -
  let ?s0 = "\<lparr>ds_dedup = dedup_new, ds_waiting = [], ds_accepted = []\<rparr>"
  let ?s1 = "?s0\<lparr>ds_dedup := dedup_new, ds_waiting := ''T1'' # ds_waiting ?s0\<rparr>"
  let ?d = "dedup_new\<lparr>dd_processed := insert ''T1'' (dd_processed dedup_new)\<rparr>"
  let ?s2 = "?s1\<lparr>ds_dedup := ?d, ds_waiting := remove1 ''T1'' (ds_waiting ?s1),
      ds_accepted := ''T1'' # ds_accepted ?s1\<rparr>"
  have "dd_step ?s0 ?s1" by (rule d_wait) (simp add: mark_cases dedup_new_def)
  moreover have "dd_step ?s1 ?s2" by (rule d_won) (simp_all add: mark_cases dedup_new_def)
  ultimately have "dd_reach ?s2" using dd_next [OF dd_next [OF dd_init]] by blast
  with dedup_accepts_once [of ?s2] show ?thesis by (intro exI [of _ ?s2]) simp
qed

end
