(* ===== verification/QF_Spsc.thy ===== *)
theory QF_Spsc
  imports QF_Prelude
begin

text \<open>
  The single-producer single-consumer ring of \<open>cpp/common/spsc_queue.hpp\<close>.

  \<^item> \<open>spsc\<close> is the object: the two positions and the slot array, whose length is the template
    parameter \<open>Capacity\<close> (a power of two, \<open>2 ^ k\<close>). The operations are the member functions.
  \<^item> \<open>fifo_queue\<close> is the contract the engine relies on; the ring is interpreted as an instance with
    room for \<open>Capacity - 1\<close> items, and runs of operations refine runs on a plain list.
  \<^item> \<open>conc\<close> splits \<open>push\<close> and \<open>try_pop\<close> into their atomic accesses, one rule each, and interleaves
    the two threads. The rules are sequentially consistent; the release store of a position and
    the acquire load by the other thread are what makes the slot contents visible in this order.
\<close>

section \<open>The ring and its operations\<close>

record 'a spsc =
  sq_write :: u64
  sq_read :: u64
  sq_data :: "'a list"

definition spsc_new :: "nat \<Rightarrow> 'a \<Rightarrow> 'a spsc" where
  "spsc_new cap d = \<lparr>sq_write = 0, sq_read = 0, sq_data = replicate cap d\<rparr>"

definition spsc_capacity :: "'a spsc \<Rightarrow> nat" where
  "spsc_capacity q = length (sq_data q)"

definition spsc_mask :: "'a spsc \<Rightarrow> u64" where
  "spsc_mask q = of_nat (spsc_capacity q) - 1"

definition spsc_push :: "'a \<Rightarrow> 'a spsc \<Rightarrow> bool \<times> 'a spsc" where
  "spsc_push item q =
     (let w = sq_write q;
          next_w = (w + 1) AND spsc_mask q
      in if next_w = sq_read q then (False, q)
         else (True, q\<lparr>sq_data := (sq_data q)[unat w := item], sq_write := next_w\<rparr>))"

definition spsc_pop :: "'a spsc \<Rightarrow> 'a option \<times> 'a spsc" where
  "spsc_pop q =
     (let r = sq_read q
      in if r = sq_write q then (None, q)
         else (Some (sq_data q ! unat r), q\<lparr>sq_read := (r + 1) AND spsc_mask q\<rparr>))"

definition spsc_try_pop :: "'a \<Rightarrow> 'a spsc \<Rightarrow> bool \<times> 'a \<times> 'a spsc" where
  \<comment> \<open>the reference parameter \<open>out\<close> is passed in and returned\<close>
  "spsc_try_pop out q =
     (let r = sq_read q
      in if r = sq_write q then (False, out, q)
         else (True, sq_data q ! unat r, q\<lparr>sq_read := (r + 1) AND spsc_mask q\<rparr>))"

definition spsc_empty :: "'a spsc \<Rightarrow> bool" where
  "spsc_empty q \<longleftrightarrow> sq_read q = sq_write q"

definition spsc_size :: "'a spsc \<Rightarrow> u64" where
  "spsc_size q = (sq_write q - sq_read q) AND spsc_mask q"

section \<open>Abstraction to a list\<close>

definition ring_count :: "nat \<Rightarrow> nat \<Rightarrow> nat \<Rightarrow> nat" where
  "ring_count c w r = (if r \<le> w then w - r else w + c - r)"

definition spsc_items :: "'a spsc \<Rightarrow> 'a list" where
  "spsc_items q =
     map (\<lambda>i. sq_data q ! ((unat (sq_read q) + i) mod spsc_capacity q))
       [0..<ring_count (spsc_capacity q) (unat (sq_write q)) (unat (sq_read q))]"

definition spsc_inv :: "nat \<Rightarrow> 'a spsc \<Rightarrow> bool" where
  "spsc_inv k q \<longleftrightarrow> k < 64 \<and> spsc_capacity q = 2 ^ k
     \<and> unat (sq_write q) < 2 ^ k \<and> unat (sq_read q) < 2 ^ k"

lemma ring_count_less: "w < c \<Longrightarrow> r < c \<Longrightarrow> ring_count c w r < c"
  by (auto simp: ring_count_def)

lemma ring_count_0: "w < c \<Longrightarrow> r < c \<Longrightarrow> ring_count c w r = 0 \<longleftrightarrow> w = r"
  by (auto simp: ring_count_def)

lemma suc_mod_cases: "(w::nat) < c \<Longrightarrow> Suc w mod c = (if Suc w = c then 0 else Suc w)"
  by auto

lemma ring_count_full: "w < c \<Longrightarrow> r < c \<Longrightarrow> Suc w mod c = r \<longleftrightarrow> Suc (ring_count c w r) = c"
  by (auto simp: ring_count_def suc_mod_cases)

lemma ring_count_write:
  "w < c \<Longrightarrow> r < c \<Longrightarrow> Suc w mod c \<noteq> r \<Longrightarrow> ring_count c (Suc w mod c) r = Suc (ring_count c w r)"
  by (auto simp: ring_count_def suc_mod_cases)

lemma ring_count_read:
  "w < c \<Longrightarrow> r < c \<Longrightarrow> w \<noteq> r \<Longrightarrow> Suc (ring_count c w (Suc r mod c)) = ring_count c w r"
  by (auto simp: ring_count_def suc_mod_cases)

lemma ring_index_write:
  "w < c \<Longrightarrow> r < c \<Longrightarrow> (r + ring_count c w r) mod c = w"
  by (auto simp: ring_count_def)

lemma ring_index_neq:
  assumes w: "w < c" and r: "r < c" and i: "i < ring_count c w r"
  shows "(r + i) mod c \<noteq> w"
proof (cases "r + i < c")
  case True
  then show ?thesis using i by (simp add: ring_count_def split: if_splits)
next
  case False
  moreover from i w r have "r + i < c + c" and "r + i < w + c"
    by (simp_all add: ring_count_def split: if_splits)
  ultimately have "(r + i) mod c = r + i - c" by (simp add: mod_if)
  with False \<open>r + i < w + c\<close> show ?thesis by simp
qed

lemma unat_next:
  assumes "spsc_inv k q"
  shows "unat ((x + 1) AND spsc_mask q) = Suc (unat x) mod 2 ^ k"
proof -
  have k: "k < LENGTH(64)" and m: "spsc_mask q = 2 ^ k - 1"
    using assms by (simp_all add: spsc_inv_def spsc_mask_def)
  show ?thesis
    using unat_plus_and_mask [OF k, of x 1] by (simp add: m)
qed

lemma next_eq_iff:
  assumes "spsc_inv k q" and "unat y < 2 ^ k"
  shows "(x + 1) AND spsc_mask q = y \<longleftrightarrow> Suc (unat x) mod 2 ^ k = unat y"
  using assms unat_next [OF assms(1), of x] by (metis word_unat_eq_iff)

lemma length_spsc_items:
  "length (spsc_items q) = ring_count (spsc_capacity q) (unat (sq_write q)) (unat (sq_read q))"
  by (simp add: spsc_items_def)

lemma spsc_inv_new [inv_intros]: "k < 64 \<Longrightarrow> spsc_inv k (spsc_new (2 ^ k) d)"
  by (simp add: spsc_inv_def spsc_new_def spsc_capacity_def)

lemma spsc_items_new [simp]: "spsc_items (spsc_new cap d) = []"
  by (simp add: spsc_items_def spsc_new_def ring_count_def)

subsection \<open>The two halves of each operation\<close>

text \<open>
  Writing the free slot keeps the contents; publishing it by the position store appends it;
  storing the read position drops the head. The atomic steps below reuse these.
\<close>

lemma items_write_slot:
  assumes "spsc_inv k q"
  shows "spsc_items (q\<lparr>sq_data := (sq_data q)[unat (sq_write q) := x]\<rparr>) = spsc_items q"
proof -
  let ?r = "unat (sq_read q)" and ?w = "unat (sq_write q)"
  have "(?r + i) mod 2 ^ k \<noteq> ?w" if "i < ring_count (2 ^ k) ?w ?r" for i
    using assms ring_index_neq [OF _ _ that] by (simp add: spsc_inv_def)
  then have "(sq_data q)[?w := x] ! ((?r + i) mod 2 ^ k) = sq_data q ! ((?r + i) mod 2 ^ k)"
    if "i < ring_count (2 ^ k) ?w ?r" for i
    using that by (metis nth_list_update_neq)
  then show ?thesis
    using assms by (simp add: spsc_items_def spsc_inv_def spsc_capacity_def)
qed

lemma items_publish:
  assumes inv: "spsc_inv k q" and room: "(sq_write q + 1) AND spsc_mask q \<noteq> sq_read q"
  shows "spsc_items (q\<lparr>sq_write := (sq_write q + 1) AND spsc_mask q\<rparr>)
     = spsc_items q @ [sq_data q ! unat (sq_write q)]"
proof -
  have b: "unat (sq_write q) < 2 ^ k" "unat (sq_read q) < 2 ^ k" "spsc_capacity q = 2 ^ k"
    using inv by (simp_all add: spsc_inv_def)
  have "Suc (unat (sq_write q)) mod 2 ^ k \<noteq> unat (sq_read q)"
    using room next_eq_iff [OF inv b(2)] by blast
  then show ?thesis
    using b ring_index_write [OF b(1,2)]
    by (simp add: spsc_items_def spsc_capacity_def unat_next [OF inv] ring_count_write)
qed

lemma items_release:
  assumes inv: "spsc_inv k q" and ne: "sq_read q \<noteq> sq_write q"
  shows "spsc_items q = sq_data q ! unat (sq_read q)
     # spsc_items (q\<lparr>sq_read := (sq_read q + 1) AND spsc_mask q\<rparr>)"
proof -
  let ?r = "unat (sq_read q)" and ?w = "unat (sq_write q)" and ?c = "2 ^ k :: nat"
  have b: "?w < ?c" "?r < ?c" "spsc_capacity q = ?c" "?w \<noteq> ?r"
    using inv ne by (simp_all add: spsc_inv_def word_unat_eq_iff)
  have n: "ring_count ?c ?w ?r = Suc (ring_count ?c ?w (Suc ?r mod ?c))"
    using ring_count_read [OF b(1,2,4)] by simp
  have "(?r + Suc i) mod ?c = (Suc ?r mod ?c + i) mod ?c" for i
    by (simp add: mod_simps)
  then show ?thesis
    using b n by (simp add: spsc_items_def spsc_capacity_def unat_next [OF inv] map_upt_Suc
        del: upt_Suc)
qed

lemma items_empty_iff: "spsc_inv k q \<Longrightarrow> spsc_items q = [] \<longleftrightarrow> sq_read q = sq_write q"
  by (auto simp: spsc_inv_def spsc_items_def ring_count_0 word_unat_eq_iff)

lemma items_full_iff:
  assumes "spsc_inv k q"
  shows "(sq_write q + 1) AND spsc_mask q = sq_read q \<longleftrightarrow> length (spsc_items q) = 2 ^ k - 1"
proof -
  have b: "unat (sq_write q) < 2 ^ k" "unat (sq_read q) < 2 ^ k" "spsc_capacity q = 2 ^ k"
    using assms by (simp_all add: spsc_inv_def)
  show ?thesis
    using ring_count_full [OF b(1,2)] next_eq_iff [OF assms b(2)] b
    by (simp add: length_spsc_items) linarith
qed

lemma length_items_bound: "spsc_inv k q \<Longrightarrow> length (spsc_items q) < 2 ^ k"
  by (simp add: spsc_inv_def length_spsc_items ring_count_less)

lemma spsc_inv_updates [inv_intros]:
  assumes "spsc_inv k q"
  shows "spsc_inv k (q\<lparr>sq_data := (sq_data q)[i := x]\<rparr>)"
    and "spsc_inv k (q\<lparr>sq_write := (sq_write q + 1) AND spsc_mask q\<rparr>)"
    and "spsc_inv k (q\<lparr>sq_read := (sq_read q + 1) AND spsc_mask q\<rparr>)"
  using assms unat_next [OF assms] by (simp_all add: spsc_inv_def spsc_capacity_def)

lemma spsc_mask_data [simp]: "spsc_mask (q\<lparr>sq_data := (sq_data q)[i := x]\<rparr>) = spsc_mask q"
  by (simp add: spsc_mask_def spsc_capacity_def)

subsection \<open>The operations on the abstraction\<close>

lemma spsc_push_room:
  assumes inv: "spsc_inv k q" and room: "length (spsc_items q) < 2 ^ k - 1"
  shows "\<exists>q'. spsc_push x q = (True, q') \<and> spsc_inv k q' \<and> spsc_items q' = spsc_items q @ [x]"
proof -
  let ?q1 = "q\<lparr>sq_data := (sq_data q)[unat (sq_write q) := x]\<rparr>"
  have ne: "(sq_write q + 1) AND spsc_mask q \<noteq> sq_read q"
    using room items_full_iff [OF inv] by simp
  have inv1: "spsc_inv k ?q1" using inv by (rule inv_intros)
  have "unat (sq_write q) < length (sq_data q)"
    using inv by (simp add: spsc_inv_def spsc_capacity_def)
  then have "spsc_items (?q1\<lparr>sq_write := (sq_write ?q1 + 1) AND spsc_mask ?q1\<rparr>) = spsc_items q @ [x]"
    using items_publish [OF inv1] ne items_write_slot [OF inv] by simp
  moreover have "spsc_inv k (?q1\<lparr>sq_write := (sq_write ?q1 + 1) AND spsc_mask ?q1\<rparr>)"
    using inv1 by (rule inv_intros)
  ultimately show ?thesis
    using ne by (simp add: spsc_push_def Let_def)
qed

lemma spsc_push_full:
  assumes "spsc_inv k q" and "2 ^ k - 1 \<le> length (spsc_items q)"
  shows "spsc_push x q = (False, q)"
proof -
  have "length (spsc_items q) = 2 ^ k - 1"
    using assms length_items_bound [OF assms(1)] by simp
  then show ?thesis
    using items_full_iff [OF assms(1)] by (simp add: spsc_push_def Let_def)
qed

lemma spsc_pop_nil: "spsc_inv k q \<Longrightarrow> spsc_items q = [] \<Longrightarrow> spsc_pop q = (None, q)"
  by (simp add: items_empty_iff spsc_pop_def Let_def)

lemma spsc_pop_cons:
  assumes inv: "spsc_inv k q" and cons: "spsc_items q = x # xs"
  shows "\<exists>q'. spsc_pop q = (Some x, q') \<and> spsc_inv k q' \<and> spsc_items q' = xs"
proof -
  have ne: "sq_read q \<noteq> sq_write q"
    using cons items_empty_iff [OF inv] by auto
  show ?thesis
    using items_release [OF inv ne] cons ne spsc_inv_updates(3) [OF inv]
    by (simp add: spsc_pop_def Let_def)
qed

lemma spsc_try_pop_pop:
  "spsc_try_pop out q = (case spsc_pop q of (None, q') \<Rightarrow> (False, out, q') | (Some x, q') \<Rightarrow> (True, x, q'))"
  by (simp add: spsc_try_pop_def spsc_pop_def Let_def)

section \<open>The queue contract and its clients\<close>

datatype 'a qop = Enq 'a | Deq

datatype 'a qres = Pushed bool | Popped "'a option"

fun run_queue :: "('a \<Rightarrow> 'q \<Rightarrow> bool \<times> 'q) \<Rightarrow> ('q \<Rightarrow> 'a option \<times> 'q) \<Rightarrow> 'a qop list \<Rightarrow> 'q
    \<Rightarrow> 'a qres list \<times> 'q" where
  "run_queue enq deq [] q = ([], q)"
| "run_queue enq deq (Enq x # ops) q =
     (let (b, q1) = enq x q; (rs, q2) = run_queue enq deq ops q1 in (Pushed b # rs, q2))"
| "run_queue enq deq (Deq # ops) q =
     (let (r, q1) = deq q; (rs, q2) = run_queue enq deq ops q1 in (Popped r # rs, q2))"

text \<open>The consumer loops pop until the queue is empty; \<open>n\<close> bounds the number of rounds.\<close>

fun drain :: "('q \<Rightarrow> 'a option \<times> 'q) \<Rightarrow> nat \<Rightarrow> 'q \<Rightarrow> 'a list \<times> 'q" where
  "drain deq 0 q = ([], q)"
| "drain deq (Suc n) q =
     (case deq q of
        (None, q1) \<Rightarrow> ([], q1)
      | (Some x, q1) \<Rightarrow> (let (xs, q2) = drain deq n q1 in (x # xs, q2)))"

text \<open>The specification: a list with room for \<open>room\<close> items.\<close>

definition list_enq :: "nat \<Rightarrow> 'a \<Rightarrow> 'a list \<Rightarrow> bool \<times> 'a list" where
  "list_enq room x xs = (if length xs < room then (True, xs @ [x]) else (False, xs))"

fun list_deq :: "'a list \<Rightarrow> 'a option \<times> 'a list" where
  "list_deq [] = (None, [])"
| "list_deq (x # xs) = (Some x, xs)"

locale fifo_queue =
  fixes enq :: "'a \<Rightarrow> 'q \<Rightarrow> bool \<times> 'q"
    and deq :: "'q \<Rightarrow> 'a option \<times> 'q"
    and items :: "'q \<Rightarrow> 'a list"
    and room :: nat
    and ok :: "'q \<Rightarrow> bool"
  assumes enq_room: "ok q \<Longrightarrow> length (items q) < room \<Longrightarrow>
      \<exists>q'. enq x q = (True, q') \<and> ok q' \<and> items q' = items q @ [x]"
    and enq_full: "ok q \<Longrightarrow> room \<le> length (items q) \<Longrightarrow> enq x q = (False, q)"
    and deq_nil: "ok q \<Longrightarrow> items q = [] \<Longrightarrow> deq q = (None, q)"
    and deq_cons: "ok q \<Longrightarrow> items q = x # xs \<Longrightarrow>
      \<exists>q'. deq q = (Some x, q') \<and> ok q' \<and> items q' = xs"
begin

lemma enq_refines:
  assumes "ok q"
  shows "\<exists>b q'. enq x q = (b, q') \<and> ok q' \<and> list_enq room x (items q) = (b, items q')"
proof (cases "length (items q) < room")
  case True
  with enq_room [OF assms True, of x] show ?thesis by (auto simp: list_enq_def)
next
  case False
  with enq_full [OF assms, of x] assms show ?thesis by (auto simp: list_enq_def)
qed

lemma deq_refines:
  assumes "ok q"
  shows "\<exists>r q'. deq q = (r, q') \<and> ok q' \<and> list_deq (items q) = (r, items q')"
proof (cases "items q")
  case Nil
  with deq_nil [OF assms Nil] assms show ?thesis by auto
next
  case (Cons x xs)
  with deq_cons [OF assms Cons] show ?thesis by auto
qed

lemma run_refines:
  "ok q \<Longrightarrow> \<exists>rs q'. run_queue enq deq ops q = (rs, q') \<and> ok q'
     \<and> run_queue (list_enq room) list_deq ops (items q) = (rs, items q')"
proof (induction ops arbitrary: q)
  case (Cons op ops)
  show ?case
  proof (cases op)
    case (Enq x)
    obtain b q1 where 1: "enq x q = (b, q1)" "ok q1" "list_enq room x (items q) = (b, items q1)"
      using enq_refines [OF Cons.prems] by blast
    with Cons.IH [OF 1(2)] Enq show ?thesis by (auto simp: Let_def)
  next
    case Deq
    obtain r q1 where 1: "deq q = (r, q1)" "ok q1" "list_deq (items q) = (r, items q1)"
      using deq_refines [OF Cons.prems] by blast
    with Cons.IH [OF 1(2)] Deq show ?thesis by (auto simp: Let_def)
  qed
qed simp

lemma drain_all:
  "ok q \<Longrightarrow> length (items q) \<le> n \<Longrightarrow> \<exists>q'. drain deq n q = (items q, q') \<and> ok q' \<and> items q' = []"
proof (induction n arbitrary: q)
  case (Suc n)
  show ?case
  proof (cases "items q")
    case Nil
    with deq_nil [OF Suc.prems(1) Nil] Suc.prems show ?thesis by simp
  next
    case (Cons x xs)
    obtain q1 where 1: "deq q = (Some x, q1)" "ok q1" "items q1 = xs"
      using deq_cons [OF Suc.prems(1) Cons] by blast
    with Suc.IH [OF 1(2)] Suc.prems Cons show ?thesis by (auto simp: Let_def)
  qed
qed auto

end

interpretation ring: fifo_queue spsc_push spsc_pop spsc_items "2 ^ k - 1" "spsc_inv k" for k
  by unfold_locales (auto simp: spsc_push_room spsc_push_full spsc_pop_nil spsc_pop_cons)

text \<open>Runs of the ring refine runs of the bounded list.\<close>

lemma spsc_run_refines:
  assumes "k < 64"
  shows "fst (run_queue spsc_push spsc_pop ops (spsc_new (2 ^ k) d))
     = fst (run_queue (list_enq (2 ^ k - 1)) list_deq ops [])"
  using ring.run_refines [OF spsc_inv_new [OF assms, of d], of ops] by auto

lemma spsc_run_refines_witness:
  "fst (run_queue spsc_push spsc_pop [Enq (7::nat), Enq 8, Deq, Deq] (spsc_new (2 ^ 1) 0))
     = [Pushed True, Pushed False, Popped (Some 7), Popped None]"
  using spsc_run_refines [of 1 "[Enq (7::nat), Enq 8, Deq, Deq]" 0] by (simp add: list_enq_def)

lemma spsc_size_items:
  assumes inv: "spsc_inv k q"
  shows "unat (spsc_size q) = length (spsc_items q)"
proof -
  let ?r = "unat (sq_read q)" and ?w = "unat (sq_write q)"
  have k: "k < LENGTH(64)" and m: "spsc_mask q = 2 ^ k - 1"
    and b: "?w < 2 ^ k" "?r < 2 ^ k" "spsc_capacity q = 2 ^ k"
    using inv by (simp_all add: spsc_inv_def spsc_mask_def)
  have "unat (spsc_size q) = unat (sq_write q - sq_read q) mod 2 ^ k"
    using k by (simp add: spsc_size_def m unat_and_mask)
  also have "\<dots> = ring_count (2 ^ k) ?w ?r"
  proof (cases "?r \<le> ?w")
    case True
    with b show ?thesis
      by (simp add: unat_sub word_le_nat_alt ring_count_def)
  next
    case False
    have d: "(2::nat) ^ k dvd 2 ^ 64" using k by (intro le_imp_power_dvd) simp
    then obtain m where m: "(2::nat) ^ 64 = 2 ^ k * m" by (rule dvdE)
    with False b have "unat (sq_write q - sq_read q) = 2 ^ k * m + ?w - ?r"
      by (simp add: unat_sub_if_size word_le_nat_alt word_size)
    moreover have "0 < m" using m by (cases m) simp_all
    then have "2 ^ k * m + ?w - ?r = (?w + 2 ^ k - ?r) + 2 ^ k * (m - 1)"
      using b by (cases m) simp_all
    ultimately have "unat (sq_write q - sq_read q) mod 2 ^ k = (?w + 2 ^ k - ?r) mod 2 ^ k"
      by (metis mod_mult_self2)
    also have "\<dots> = ?w + 2 ^ k - ?r"
      by (intro mod_less) (use False b in linarith)
    finally show ?thesis using False by (simp add: ring_count_def)
  qed
  finally show ?thesis by (simp add: length_spsc_items b)
qed

section \<open>Producer and consumer interleaved\<close>

text \<open>
  The producer thread inside \<open>push\<close>: it has loaded its own position (\<open>PLoaded\<close>), has seen room
  (\<open>PChecked\<close>), has written the slot (\<open>PWritten\<close>); the position store ends the call. The
  consumer thread inside \<open>try_pop\<close> likewise. \<open>sent\<close> and \<open>rcvd\<close> record the items of the pushes
  and pops that have returned \<open>true\<close>.
\<close>

datatype 'a producer = PIdle | PLoaded 'a u64 | PChecked 'a u64 | PWritten 'a u64

datatype 'a consumer = CIdle | CLoaded u64 | CChecked u64 | CRead u64 'a

record 'a conc =
  cq :: "'a spsc"
  prod_pc :: "'a producer"
  cons_pc :: "'a consumer"
  sent :: "'a list"
  rcvd :: "'a list"

definition conc_new :: "nat \<Rightarrow> 'a \<Rightarrow> 'a conc" where
  "conc_new cap d = \<lparr>cq = spsc_new cap d, prod_pc = PIdle, cons_pc = CIdle, sent = [], rcvd = []\<rparr>"

inductive conc_step :: "'a conc \<Rightarrow> 'a conc \<Rightarrow> bool" where
  p_load: "prod_pc c = PIdle \<Longrightarrow> conc_step c (c\<lparr>prod_pc := PLoaded x (sq_write (cq c))\<rparr>)"
| p_full: "prod_pc c = PLoaded x w \<Longrightarrow> (w + 1) AND spsc_mask (cq c) = sq_read (cq c) \<Longrightarrow>
    conc_step c (c\<lparr>prod_pc := PIdle\<rparr>)"
| p_room: "prod_pc c = PLoaded x w \<Longrightarrow> (w + 1) AND spsc_mask (cq c) \<noteq> sq_read (cq c) \<Longrightarrow>
    conc_step c (c\<lparr>prod_pc := PChecked x w\<rparr>)"
| p_write: "prod_pc c = PChecked x w \<Longrightarrow>
    conc_step c (c\<lparr>cq := (cq c)\<lparr>sq_data := (sq_data (cq c))[unat w := x]\<rparr>, prod_pc := PWritten x w\<rparr>)"
| p_store: "prod_pc c = PWritten x w \<Longrightarrow>
    conc_step c (c\<lparr>cq := (cq c)\<lparr>sq_write := (w + 1) AND spsc_mask (cq c)\<rparr>, prod_pc := PIdle,
      sent := sent c @ [x]\<rparr>)"
| c_load: "cons_pc c = CIdle \<Longrightarrow> conc_step c (c\<lparr>cons_pc := CLoaded (sq_read (cq c))\<rparr>)"
| c_empty: "cons_pc c = CLoaded r \<Longrightarrow> r = sq_write (cq c) \<Longrightarrow> conc_step c (c\<lparr>cons_pc := CIdle\<rparr>)"
| c_some: "cons_pc c = CLoaded r \<Longrightarrow> r \<noteq> sq_write (cq c) \<Longrightarrow>
    conc_step c (c\<lparr>cons_pc := CChecked r\<rparr>)"
| c_read: "cons_pc c = CChecked r \<Longrightarrow>
    conc_step c (c\<lparr>cons_pc := CRead r (sq_data (cq c) ! unat r)\<rparr>)"
| c_store: "cons_pc c = CRead r x \<Longrightarrow>
    conc_step c (c\<lparr>cq := (cq c)\<lparr>sq_read := (r + 1) AND spsc_mask (cq c)\<rparr>, cons_pc := CIdle,
      rcvd := rcvd c @ [x]\<rparr>)"

inductive conc_reach :: "nat \<Rightarrow> 'a \<Rightarrow> 'a conc \<Rightarrow> bool" for cap d where
  conc_init: "conc_reach cap d (conc_new cap d)"
| conc_next: "conc_reach cap d c \<Longrightarrow> conc_step c c' \<Longrightarrow> conc_reach cap d c'"

fun prod_inv :: "'a spsc \<Rightarrow> 'a producer \<Rightarrow> bool" where
  "prod_inv q PIdle \<longleftrightarrow> True"
| "prod_inv q (PLoaded x w) \<longleftrightarrow> w = sq_write q"
| "prod_inv q (PChecked x w) \<longleftrightarrow> w = sq_write q \<and> (w + 1) AND spsc_mask q \<noteq> sq_read q"
| "prod_inv q (PWritten x w) \<longleftrightarrow> w = sq_write q \<and> (w + 1) AND spsc_mask q \<noteq> sq_read q
     \<and> sq_data q ! unat w = x"

fun cons_inv :: "'a spsc \<Rightarrow> 'a consumer \<Rightarrow> bool" where
  "cons_inv q CIdle \<longleftrightarrow> True"
| "cons_inv q (CLoaded r) \<longleftrightarrow> r = sq_read q"
| "cons_inv q (CChecked r) \<longleftrightarrow> r = sq_read q \<and> r \<noteq> sq_write q"
| "cons_inv q (CRead r x) \<longleftrightarrow> r = sq_read q \<and> r \<noteq> sq_write q \<and> x = sq_data q ! unat r"

definition conc_inv :: "nat \<Rightarrow> 'a conc \<Rightarrow> bool" where
  "conc_inv k c \<longleftrightarrow> spsc_inv k (cq c) \<and> sent c = rcvd c @ spsc_items (cq c)
     \<and> prod_inv (cq c) (prod_pc c) \<and> cons_inv (cq c) (cons_pc c)"

lemma conc_inv_new: "k < 64 \<Longrightarrow> conc_inv k (conc_new (2 ^ k) d)"
  by (simp add: conc_inv_def conc_new_def spsc_inv_new)

text \<open>What the other thread's step does to this thread's part of the invariant.\<close>

lemma cons_inv_write_slot:
  assumes "spsc_inv k q" and "cons_inv q pc"
  shows "cons_inv (q\<lparr>sq_data := (sq_data q)[unat (sq_write q) := x]\<rparr>) pc"
  using assms by (cases pc) (auto simp: word_unat_eq_iff)

lemma cons_inv_publish:
  assumes inv: "spsc_inv k q" and room: "(sq_write q + 1) AND spsc_mask q \<noteq> sq_read q"
    and "cons_inv q pc"
  shows "cons_inv (q\<lparr>sq_write := (sq_write q + 1) AND spsc_mask q\<rparr>) pc"
  using assms by (cases pc) auto

lemma prod_inv_release:
  assumes inv: "spsc_inv k q" and ne: "sq_read q \<noteq> sq_write q" and "prod_inv q pc"
  shows "prod_inv (q\<lparr>sq_read := (sq_read q + 1) AND spsc_mask q\<rparr>) pc"
proof -
  have b: "unat (sq_write q) < 2 ^ k" "unat (sq_read q) < 2 ^ k"
    using inv by (simp_all add: spsc_inv_def)
  have "(sq_write q + 1) AND spsc_mask q \<noteq> (sq_read q + 1) AND spsc_mask q"
    using ne b unat_next [OF inv, of "sq_write q"] unat_next [OF inv, of "sq_read q"]
    by (auto simp: word_unat_eq_iff suc_mod_cases split: if_splits)
  moreover have "spsc_mask (q\<lparr>sq_read := r\<rparr>) = spsc_mask q" for r
    by (simp add: spsc_mask_def spsc_capacity_def)
  ultimately show ?thesis
    using assms(3) by (cases pc) simp_all
qed

lemma spsc_mask_pos [simp]:
  "spsc_mask (q\<lparr>sq_write := v\<rparr>) = spsc_mask q" "spsc_mask (q\<lparr>sq_read := v\<rparr>) = spsc_mask q"
  by (simp_all add: spsc_mask_def spsc_capacity_def)

lemma conc_step_inv:
  assumes "conc_step c c'" and "conc_inv k c"
  shows "conc_inv k c'"
  using assms
proof (induction rule: conc_step.induct)
  case (p_write c x w)
  then have inv: "spsc_inv k (cq c)" and w: "w = sq_write (cq c)" by (auto simp: conc_inv_def)
  have "unat (sq_write (cq c)) < length (sq_data (cq c))"
    using inv by (simp add: spsc_inv_def spsc_capacity_def)
  then show ?case
    using p_write inv w items_write_slot [OF inv, of x] cons_inv_write_slot [OF inv, of "cons_pc c" x]
    by (auto simp: conc_inv_def intro: inv_intros)
next
  case (p_store c x w)
  then have inv: "spsc_inv k (cq c)" and w: "w = sq_write (cq c)"
    and room: "(sq_write (cq c) + 1) AND spsc_mask (cq c) \<noteq> sq_read (cq c)"
    and x: "sq_data (cq c) ! unat (sq_write (cq c)) = x" by (auto simp: conc_inv_def)
  show ?case
    using p_store w x items_publish [OF inv room] cons_inv_publish [OF inv room, of "cons_pc c"]
      spsc_inv_updates(2) [OF inv]
    by (auto simp: conc_inv_def)
next
  case (c_store c r x)
  then have inv: "spsc_inv k (cq c)" and r: "r = sq_read (cq c)"
    and ne: "sq_read (cq c) \<noteq> sq_write (cq c)"
    and x: "x = sq_data (cq c) ! unat (sq_read (cq c))" by (auto simp: conc_inv_def)
  show ?case
    using c_store r x items_release [OF inv ne] prod_inv_release [OF inv ne, of "prod_pc c"]
      spsc_inv_updates(3) [OF inv]
    by (auto simp: conc_inv_def)
qed (auto simp: conc_inv_def)

lemma conc_reach_inv: "conc_reach (2 ^ k) d c \<Longrightarrow> k < 64 \<Longrightarrow> conc_inv k c"
  by (induction rule: conc_reach.induct) (auto intro: conc_inv_new conc_step_inv)

inductive_cases full_stepE: "conc_step c (c\<lparr>prod_pc := PIdle\<rparr>)"

text \<open>C13: no item is lost, duplicated or reordered, and the two threads never touch the same slot.\<close>

lemma spsc_concurrent_fifo:
  assumes "k < 64" and "conc_reach (2 ^ k) d c"
  shows "sent c = rcvd c @ spsc_items (cq c) \<and> length (spsc_items (cq c)) < 2 ^ k
     \<and> (\<forall>x w r. prod_pc c = PChecked x w \<and> cons_pc c = CChecked r \<longrightarrow> w \<noteq> r)"
proof -
  have inv: "conc_inv k c" by (rule conc_reach_inv [OF assms(2,1)])
  then show ?thesis
    using length_items_bound [of k "cq c"] by (auto simp: conc_inv_def)
qed

lemma conc_reach_push_one:
  "\<exists>c. conc_reach (2 ^ 1) (0::nat) c \<and> sent c = [5]"
proof -
  let ?q = "spsc_new 2 (0::nat)"
  let ?c0 = "conc_new 2 (0::nat)"
  let ?c1 = "?c0\<lparr>prod_pc := PLoaded 5 (sq_write (cq ?c0))\<rparr>"
  let ?c2 = "?c1\<lparr>prod_pc := PChecked 5 0\<rparr>"
  let ?c3 = "?c2\<lparr>cq := (cq ?c2)\<lparr>sq_data := (sq_data (cq ?c2))[unat (0::u64) := 5]\<rparr>, prod_pc := PWritten 5 0\<rparr>"
  let ?c4 = "?c3\<lparr>cq := (cq ?c3)\<lparr>sq_write := (0 + 1) AND spsc_mask (cq ?c3)\<rparr>, prod_pc := PIdle,
      sent := sent ?c3 @ [5]\<rparr>"
  have "conc_reach 2 0 ?c0" by (rule conc_init)
  moreover have "conc_step ?c0 ?c1" by (rule p_load) (simp add: conc_new_def)
  moreover have "conc_step ?c1 ?c2"
    by (rule p_room [where w = 0]) (simp_all add: conc_new_def spsc_new_def spsc_mask_def spsc_capacity_def)
  moreover have "conc_step ?c2 ?c3" by (rule p_write) simp
  moreover have "conc_step ?c3 ?c4" by (rule p_store) simp
  ultimately have "conc_reach 2 0 ?c4" by (blast intro: conc_next)
  moreover have "sent ?c4 = [5]" by (simp add: conc_new_def)
  ultimately show ?thesis by (intro exI [of _ ?c4]) simp
qed

lemma spsc_concurrent_fifo_witness:
  "\<exists>c. conc_reach (2 ^ 1) (0::nat) c \<and> sent c = [5] \<and> sent c = rcvd c @ spsc_items (cq c)"
  using conc_reach_push_one spsc_concurrent_fifo [of 1 "0::nat"] by (metis one_less_numeral_iff semiring_norm(76))

end
