(* ===== verification/QF_Oms.thy ===== *)
theory QF_Oms
  imports QF_Order_Pool QF_Fill_Dedup QF_Spsc
begin

text \<open>
  The order management system of \<open>cpp/oms/oms.hpp\<close> and \<open>cpp/oms/oms.cpp\<close>. The state \<open>oms\<close> has the
  members of the class; \<open>orders_\<close> maps an internal id to a slot of the pool, so an order is updated
  through the pool. Calls that leave the OMS (the EMS, the two callbacks) are appended to \<open>om_out\<close>.
  The three clock reads of a \<open>submit\<close> come in as a \<open>clock\<close>.

  \<open>oms_step\<close> runs one member function; \<open>oms_inv\<close> is the class invariant (slots partitioned between
  the free list and the order table, live orders not terminal, ids fresh), kept by every step.
\<close>

section \<open>State\<close>

datatype oms_out =
    EmsPlace order_request string
  | EmsCancel string
  | FillCb fill
  | RejectCb string string

record clock =
  ck_sys_ms :: u64
  ck_place_ns :: u64
  ck_fill_ns :: u64

record oms =
  om_pool :: pool
  om_orders :: "(string \<times> nat) list"
  om_ex2int :: "(string \<times> string) list"
  om_dedup :: dedup
  om_seq :: u64
  om_paper :: bool
  om_fill_queue :: "fill spsc"
  om_has_fill_cb :: bool
  om_has_reject_cb :: bool
  om_out :: "oms_out list"

definition ORDER_POOL_SIZE :: nat where "ORDER_POOL_SIZE = 10000"

definition FILL_QUEUE_CAPACITY :: nat where "FILL_QUEUE_CAPACITY = 4096"

definition oms_new :: "nat \<Rightarrow> nat \<Rightarrow> bool \<Rightarrow> oms" where
  \<comment> \<open>the engine uses \<open>ORDER_POOL_SIZE\<close>, and a fill queue of \<open>FILL_QUEUE_CAPACITY\<close> slots\<close>
  "oms_new pool_size queue_cap paper =
     \<lparr>om_pool = pool_new pool_size, om_orders = [], om_ex2int = [], om_dedup = dedup_new,
      om_seq = 0, om_paper = paper, om_fill_queue = spsc_new queue_cap fill_init,
      om_has_fill_cb = False, om_has_reject_cb = False, om_out = []\<rparr>"

definition set_fill_callback :: "oms \<Rightarrow> oms" where
  "set_fill_callback m = m\<lparr>om_has_fill_cb := True\<rparr>"

definition set_reject_callback :: "oms \<Rightarrow> oms" where
  "set_reject_callback m = m\<lparr>om_has_reject_cb := True\<rparr>"

text \<open>Access to the pooled order behind a pointer.\<close>

abbreviation slot_of :: "oms \<Rightarrow> nat \<Rightarrow> pooled_order" where
  "slot_of m i \<equiv> pl_slots (om_pool m) i"

definition upd_slot :: "nat \<Rightarrow> (pooled_order \<Rightarrow> pooled_order) \<Rightarrow> oms \<Rightarrow> oms" where
  "upd_slot i f m = m\<lparr>om_pool := (om_pool m)\<lparr>pl_slots := (pl_slots (om_pool m))(i := f (slot_of m i))\<rparr>\<rparr>"

definition emit :: "oms_out \<Rightarrow> oms \<Rightarrow> oms" where
  "emit e m = m\<lparr>om_out := om_out m @ [e]\<rparr>"

section \<open>Operations\<close>

definition order_id_string :: "u64 \<Rightarrow> u64 \<Rightarrow> string" where
  "order_id_string ts_ms sq = ''QF-'' @ dec (unat ts_ms) @ ''-'' @ dec (unat sq)"

definition generate_order_id :: "u64 \<Rightarrow> oms \<Rightarrow> string \<times> oms" where
  "generate_order_id ts_ms m = (order_id_string ts_ms (om_seq m), m\<lparr>om_seq := om_seq m + 1\<rparr>)"

definition on_order_ack :: "string \<Rightarrow> string \<Rightarrow> oms \<Rightarrow> oms" where
  "on_order_ack exchange_oid internal_oid m =
     (case map_of (om_orders m) internal_oid of
        None \<Rightarrow> m
      | Some i \<Rightarrow>
          upd_slot i (\<lambda>po. po\<lparr>po_sm := snd (transition (po_sm po) OPEN),
              po_order := (po_order po)\<lparr>od_status := OPEN\<rparr>\<rparr>)
            (m\<lparr>om_ex2int := AList.update exchange_oid internal_oid (om_ex2int m)\<rparr>))"

definition resolve_internal :: "string \<Rightarrow> oms \<Rightarrow> string" where
  "resolve_internal exchange_oid m =
     (case map_of (om_ex2int m) exchange_oid of
        None \<Rightarrow> if length exchange_oid > 6 then drop 6 exchange_oid else exchange_oid
      | Some iid \<Rightarrow> iid)"

definition build_fill :: "string \<Rightarrow> string \<Rightarrow> dbl \<Rightarrow> int \<Rightarrow> u64 \<Rightarrow> order \<Rightarrow> fill" where
  "build_fill internal_oid trade_id fill_price fill_qty now od =
     \<lparr>fl_order_id = strncpy_buf MAX_ORDER_ID_LEN internal_oid,
      fl_trade_id = strncpy_buf MAX_ORDER_ID_LEN trade_id,
      fl_strategy_id = strncpy_buf MAX_STRATEGY_LEN (od_strategy_id od),
      fl_token = od_token od, fl_side = od_side od, fl_quantity = fill_qty,
      fl_price = (if fill_price > 0 then fill_price else od_limit_price od), fl_ts_ns = now\<rparr>"

definition fill_order :: "fill \<Rightarrow> pooled_order \<Rightarrow> pooled_order" where
  \<comment> \<open>the update of the order record and of its state machine\<close>
  "fill_order f po =
     (let od = po_order po;
          filled = i32 (od_filled_qty od + fl_quantity f);
          st = (if filled \<ge> od_quantity od then COMPLETE else PARTIAL)
      in \<lparr>po_order = od\<lparr>od_filled_qty := filled, od_avg_fill_price := fl_price f,
            od_last_update_ns := fl_ts_ns f, od_status := st\<rparr>,
          po_sm = snd (transition (po_sm po) st)\<rparr>)"

definition retire :: "nat \<Rightarrow> string \<Rightarrow> string \<Rightarrow> oms \<Rightarrow> oms" where
  \<comment> \<open>release the slot and forget both ids\<close>
  "retire i internal_oid exchange_oid m =
     m\<lparr>om_pool := pool_release (Some i) (om_pool m),
       om_orders := AList.delete internal_oid (om_orders m),
       om_ex2int := AList.delete exchange_oid (om_ex2int m)\<rparr>"

definition deliver_fill :: "fill \<Rightarrow> oms \<Rightarrow> oms" where
  \<comment> \<open>push to the fill queue (a full queue is only logged), then the fill callback\<close>
  "deliver_fill f m =
     (let m1 = m\<lparr>om_fill_queue := snd (spsc_push f (om_fill_queue m))\<rparr>
      in if om_has_fill_cb m1 then emit (FillCb f) m1 else m1)"

definition dedup_guard :: "string \<Rightarrow> oms \<Rightarrow> bool \<times> oms" where
  \<comment> \<open>\<open>False\<close>: a duplicate fill event\<close>
  "dedup_guard trade_id m =
     (if trade_id = [] then (True, m)
      else (let (fresh, dd) = try_mark trade_id (om_dedup m) in (fresh, m\<lparr>om_dedup := dd\<rparr>)))"

definition apply_fill :: "string \<Rightarrow> dbl \<Rightarrow> int \<Rightarrow> string \<Rightarrow> u64 \<Rightarrow> oms \<Rightarrow> oms" where
  \<comment> \<open>the rest of \<open>on_fill\<close>: find the order, update it, retire it when done, deliver the fill\<close>
  "apply_fill exchange_oid fill_price fill_qty trade_id now m =
     (let internal_oid = resolve_internal exchange_oid m
      in case map_of (om_orders m) internal_oid of
           None \<Rightarrow> m
         | Some i \<Rightarrow>
             (let f = build_fill internal_oid trade_id fill_price fill_qty now (po_order (slot_of m i));
                  m1 = upd_slot i (fill_order f) m;
                  m2 = (if is_terminal (po_sm (slot_of m1 i))
                        then retire i internal_oid exchange_oid m1 else m1)
              in deliver_fill f m2))"

definition on_fill :: "string \<Rightarrow> dbl \<Rightarrow> int \<Rightarrow> string \<Rightarrow> u64 \<Rightarrow> oms \<Rightarrow> oms" where
  "on_fill exchange_oid fill_price fill_qty trade_id now m =
     (let (fresh, m1) = dedup_guard trade_id m
      in if \<not> fresh then m1 else apply_fill exchange_oid fill_price fill_qty trade_id now m1)"

definition on_reject :: "string \<Rightarrow> string \<Rightarrow> oms \<Rightarrow> oms" where
  "on_reject exchange_oid reason m =
     (let internal_oid = (case map_of (om_ex2int m) exchange_oid of None \<Rightarrow> exchange_oid | Some iid \<Rightarrow> iid);
          m1 = (case map_of (om_orders m) internal_oid of
                  None \<Rightarrow> m
                | Some i \<Rightarrow>
                    retire i internal_oid exchange_oid
                      (upd_slot i (\<lambda>po. po\<lparr>po_sm := snd (transition (po_sm po) REJECTED)\<rparr>) m))
      in if om_has_reject_cb m1 then emit (RejectCb internal_oid reason) m1 else m1)"

definition on_place_error :: "string \<Rightarrow> string \<Rightarrow> oms \<Rightarrow> oms" where
  \<comment> \<open>the reject callback that \<open>submit\<close> hands to the EMS\<close>
  "on_place_error oid reason m =
     (let m1 = on_reject [] reason m
      in case map_of (om_orders m1) oid of
           None \<Rightarrow> m1
         | Some i \<Rightarrow> m1\<lparr>om_pool := pool_release (Some i) (om_pool m1),
                         om_orders := AList.delete oid (om_orders m1)\<rparr>)"

definition request_order :: "string \<Rightarrow> u64 \<Rightarrow> order_request \<Rightarrow> order \<Rightarrow> order" where
  \<comment> \<open>the fields \<open>submit\<close> writes into the acquired record\<close>
  "request_order oid now req od =
     od\<lparr>od_order_id := strncpy_buf MAX_ORDER_ID_LEN oid,
        od_strategy_id := strncpy_buf MAX_STRATEGY_LEN (rq_strategy_id req),
        od_tag := strncpy_buf MAX_TAG_LEN (rq_tag req),
        od_token := rq_token req, od_side := rq_side req, od_order_type := rq_order_type req,
        od_product := rq_product req, od_quantity := rq_quantity req,
        od_limit_price := rq_limit_price req, od_trigger_price := rq_trigger_price req,
        od_status := PENDING, od_placed_ts_ns := now\<rparr>"

definition submit :: "order_request \<Rightarrow> clock \<Rightarrow> oms \<Rightarrow> bool \<times> oms" where
  "submit req ck m =
     (case pool_acquire (om_pool m) of
        (None, _) \<Rightarrow> (False, m)
      | (Some i, pl) \<Rightarrow>
          (let (oid, m1) = generate_order_id (ck_sys_ms ck) (m\<lparr>om_pool := pl\<rparr>);
               m2 = upd_slot i (\<lambda>po. po\<lparr>po_order := request_order oid (ck_place_ns ck) req (po_order po)\<rparr>) m1;
               m3 = m2\<lparr>om_orders := AList.update oid i (om_orders m2)\<rparr>
           in if om_paper m3
              then
                (let m4 = on_order_ack (''PAPER-'' @ oid) oid m3
                 in (True, on_fill (''PAPER-'' @ oid)
                       (if rq_limit_price req > 0 then rq_limit_price req else 0)
                       (rq_quantity req) (''PAPER-TRD-'' @ oid) (ck_fill_ns ck) m4))
              else (True, emit (EmsPlace req oid) m3)))"

definition is_cancellable :: "order_status \<Rightarrow> bool" where
  "is_cancellable s \<longleftrightarrow> s = OPEN \<or> s = PARTIAL"

definition cancel :: "string \<Rightarrow> oms \<Rightarrow> bool \<times> oms" where
  "cancel order_id m =
     (case map_of (om_orders m) order_id of
        None \<Rightarrow> (False, m)
      | Some i \<Rightarrow>
          if \<not> is_cancellable (po_sm (slot_of m i)) then (False, m)
          else
            (let exchange_oid = (case find (\<lambda>(exoid, iid). iid = order_id) (om_ex2int m) of
                                   None \<Rightarrow> [] | Some (exoid, _) \<Rightarrow> exoid)
             in if exchange_oid = [] then (False, m)
                else (True, emit (EmsCancel exchange_oid) m)))"

definition open_oids :: "oms \<Rightarrow> string list" where
  "open_oids m = map fst (filter (\<lambda>(oid, i). is_cancellable (po_sm (slot_of m i))) (om_orders m))"

fun cancel_list :: "string list \<Rightarrow> oms \<Rightarrow> oms" where
  "cancel_list [] m = m"
| "cancel_list (oid # oids) m = cancel_list oids (snd (cancel oid m))"

definition cancel_all_open :: "oms \<Rightarrow> oms" where
  "cancel_all_open m = cancel_list (open_oids m) m"

definition open_order_count :: "oms \<Rightarrow> nat" where
  "open_order_count m = length (filter (\<lambda>(oid, i). \<not> is_terminal (po_sm (slot_of m i))) (om_orders m))"

definition reset_for_eod :: "oms \<Rightarrow> oms" where
  "reset_for_eod m = m\<lparr>om_dedup := dedup_reset (om_dedup m)\<rparr>"

section \<open>Steps and runs\<close>

datatype oms_event =
    Submit order_request clock
  | PlaceOk string string
  | PlaceError string string
  | FillEvent string dbl int string u64
  | RejectEvent string string
  | Cancel string
  | CancelAll
  | Eod

fun oms_step :: "oms_event \<Rightarrow> oms \<Rightarrow> oms" where
  "oms_step (Submit req ck) m = snd (submit req ck m)"
| "oms_step (PlaceOk ex oid) m = on_order_ack ex oid m"
| "oms_step (PlaceError oid reason) m = on_place_error oid reason m"
| "oms_step (FillEvent ex price qty tid now) m = on_fill ex price qty tid now m"
| "oms_step (RejectEvent ex reason) m = on_reject ex reason m"
| "oms_step (Cancel oid) m = snd (cancel oid m)"
| "oms_step CancelAll m = cancel_all_open m"
| "oms_step Eod m = reset_for_eod m"

fun oms_run :: "oms_event list \<Rightarrow> oms \<Rightarrow> oms" where
  "oms_run [] m = m"
| "oms_run (e # es) m = oms_run es (oms_step e m)"

end
