(* ===== verification/QF_Oms_Props.thy ===== *)
theory QF_Oms_Props
  imports QF_Oms
begin

text \<open>
  The properties of the order management system: the invariant of the order book over every run,
  the conservation of pool slots, the life of an order under its fills, duplicates and fills that
  come early, cancels and rejections, and the paper-trading session.
\<close>

section \<open>Order ids\<close>

lemma order_id_string_inj: "order_id_string t s = order_id_string t' s' \<longleftrightarrow> t = t' \<and> s = s'"
proof
  assume eq: "order_id_string t s = order_id_string t' s'"
  have split: "takeWhile (\<lambda>c. c \<noteq> CHR ''-'') (dec a @ ''-'' @ dec b) = dec a"
    "dropWhile (\<lambda>c. c \<noteq> CHR ''-'') (dec a @ ''-'' @ dec b) = ''-'' @ dec b" for a b
    using dec_chars [of _ a] by (auto simp: takeWhile_append dropWhile_append)
  have "dec (unat t) @ ''-'' @ dec (unat s) = dec (unat t') @ ''-'' @ dec (unat s')"
    using eq by (simp add: order_id_string_def)
  then have "dec (unat t) = dec (unat t')" "dec (unat s) = dec (unat s')"
    using split by (metis, metis append_eq_append_conv same_append_eq)
  then show "t = t' \<and> s = s'" by (simp add: dec_inj word_unat_eq_iff)
qed simp

lemma order_id_string_nonempty [simp]: "order_id_string t s \<noteq> []" "[] \<noteq> order_id_string t s"
  by (simp_all add: order_id_string_def)

section \<open>The invariant\<close>

definition book_entry_ok :: "(nat \<Rightarrow> pooled_order) \<Rightarrow> u64 \<Rightarrow> string \<times> nat \<Rightarrow> bool" where
  "book_entry_ok slots sq e \<longleftrightarrow>
     \<not> is_terminal (po_sm (slots (snd e)))
     \<and> od_order_id (po_order (slots (snd e))) = strncpy_buf MAX_ORDER_ID_LEN (fst e)
     \<and> (\<exists>ts k. fst e = order_id_string ts k \<and> k < sq)"

definition book_inv :: "nat \<Rightarrow> pool \<Rightarrow> (string \<times> nat) list \<Rightarrow> u64 \<Rightarrow> bool" where
  "book_inv n pl orders sq \<longleftrightarrow> pool_ok pl \<and> owned_table orders
     \<and> splits {..<n} (snd ` set orders) (pool_free pl)
     \<and> (\<forall>e \<in> set orders. book_entry_ok (pl_slots pl) sq e)"

definition oms_inv :: "nat \<Rightarrow> nat \<Rightarrow> oms \<Rightarrow> bool" where
  "oms_inv n k m \<longleftrightarrow> book_inv n (om_pool m) (om_orders m) (om_seq m)
     \<and> distinct (map fst (om_ex2int m)) \<and> spsc_inv k (om_fill_queue m)"

lemma book_inv_new: "book_inv n (pool_new n) [] sq"
  by (simp add: book_inv_def owned_table_def splits_def pool_new_ok)

lemma oms_inv_new: "k < 64 \<Longrightarrow> oms_inv n k (oms_new n (2 ^ k) paper)"
  by (simp add: oms_inv_def oms_new_def book_inv_new spsc_inv_new)

lemma book_inv_slot:
  assumes inv: "book_inv n pl orders sq"
    and f: "\<not> is_terminal (po_sm po)" "od_order_id (po_order po) = od_order_id (po_order (pl_slots pl i))"
  shows "book_inv n (pl\<lparr>pl_slots := (pl_slots pl)(i := po)\<rparr>) orders sq"
  using assms by (auto simp: book_inv_def book_entry_ok_def)

lemma book_inv_remove:
  assumes inv: "book_inv n pl orders sq" and oid: "map_of orders oid = Some i"
  shows "book_inv n (pool_release (Some i) (pl\<lparr>pl_slots := (pl_slots pl)(i := po)\<rparr>))
     (AList.delete oid orders) sq"
proof -
  let ?pl = "pl\<lparr>pl_slots := (pl_slots pl)(i := po)\<rparr>"
  have own: "owned_table orders" using inv by (simp add: book_inv_def)
  have i: "i \<in> snd ` set orders" using map_of_in_snd [OF oid] by simp
  have "pool_ok ?pl" "splits {..<n} (snd ` set orders) (pool_free ?pl)"
    using inv by (simp_all add: book_inv_def)
  from opool.release_splits [OF this i]
  have "pool_ok (pool_release (Some i) ?pl)"
    "splits {..<n} (snd ` set (AList.delete oid orders)) (pool_free (pool_release (Some i) ?pl))"
    by (simp_all add: owned_table_delete(2) [OF own oid])
  moreover have "book_entry_ok (pl_slots ?pl) sq e" if "e \<in> set (AList.delete oid orders)" for e
  proof -
    have "snd e \<in> snd ` set (AList.delete oid orders)" using that by simp
    then have "snd e \<noteq> i" using owned_table_delete(2) [OF own oid] by simp
    moreover have "e \<in> set orders" by (rule subsetD [OF set_alist_delete_subset that])
    then have "book_entry_ok (pl_slots pl) sq e" using inv by (simp add: book_inv_def)
    ultimately show ?thesis by (simp add: book_entry_ok_def)
  qed
  ultimately show ?thesis
    using owned_table_delete(1) [OF own oid] by (simp add: book_inv_def)
qed

lemma book_inv_insert:
  assumes inv: "book_inv n pl orders sq" and acq: "pool_acquire pl = (Some i, pl')"
    and sq: "sq + 1 \<noteq> 0"
    and po: "\<not> is_terminal (po_sm po)"
      "od_order_id (po_order po) = strncpy_buf MAX_ORDER_ID_LEN (order_id_string ts sq)"
  shows "book_inv n (pl'\<lparr>pl_slots := (pl_slots pl')(i := po)\<rparr>)
      (AList.update (order_id_string ts sq) i orders) (sq + 1)"
    and "map_of orders (order_id_string ts sq) = None"
proof -
  let ?oid = "order_id_string ts sq"
  have own: "owned_table orders" and ok: "pool_ok pl"
    and sp: "splits {..<n} (snd ` set orders) (pool_free pl)"
    and ent: "\<forall>e \<in> set orders. book_entry_ok (pl_slots pl) sq e"
    using inv by (simp_all add: book_inv_def)
  have less: "sq < sq + 1" using sq by (simp add: word_less_nat_alt unatSuc add.commute)
  have fresh: "?oid \<notin> fst ` set orders"
    using ent by (force simp: book_entry_ok_def order_id_string_inj)
  then show "map_of orders ?oid = None" by (simp add: map_of_eq_None_iff)
  from opool.acquire_splits [OF ok sp acq]
  have a: "pool_ok pl'" "i \<notin> snd ` set orders"
    "splits {..<n} (insert i (snd ` set orders)) (pool_free pl')" by blast+
  have "book_entry_ok ((pl_slots pl')(i := po)) (sq + 1) e" if "e \<in> set orders" for e
  proof -
    have "snd e \<noteq> i" using a(2) that by auto
    moreover have "book_entry_ok (pl_slots pl) sq e" using ent that by blast
    ultimately show ?thesis
      using pool_acquire_others [OF acq, of "snd e"] less
      by (simp add: book_entry_ok_def) (meson less_trans)
  qed
  moreover have "book_entry_ok ((pl_slots pl')(i := po)) (sq + 1) (?oid, i)"
    using po less unfolding book_entry_ok_def by auto
  ultimately show "book_inv n (pl'\<lparr>pl_slots := (pl_slots pl')(i := po)\<rparr>)
      (AList.update ?oid i orders) (sq + 1)"
    using a owned_table_update_fresh [OF own fresh a(2)]
    by (simp add: book_inv_def keys_alist_update_fresh [OF fresh])
qed

subsection \<open>Frame facts of the state updates\<close>

lemma upd_slot_frame [simp]:
  "om_orders (upd_slot i f m) = om_orders m" "om_ex2int (upd_slot i f m) = om_ex2int m"
  "om_dedup (upd_slot i f m) = om_dedup m" "om_seq (upd_slot i f m) = om_seq m"
  "om_paper (upd_slot i f m) = om_paper m" "om_fill_queue (upd_slot i f m) = om_fill_queue m"
  "om_has_fill_cb (upd_slot i f m) = om_has_fill_cb m"
  "om_has_reject_cb (upd_slot i f m) = om_has_reject_cb m" "om_out (upd_slot i f m) = om_out m"
  by (simp_all add: upd_slot_def)

lemma upd_slot_pool:
  "om_pool (upd_slot i f m) = (om_pool m)\<lparr>pl_slots := (pl_slots (om_pool m))(i := f (slot_of m i))\<rparr>"
  by (simp add: upd_slot_def)

lemma upd_slot_slots [simp]:
  "pl_slots (om_pool (upd_slot i f m)) = (pl_slots (om_pool m))(i := f (slot_of m i))"
  "pl_free (om_pool (upd_slot i f m)) = pl_free (om_pool m)"
  by (simp_all add: upd_slot_def)

lemma emit_frame [simp]:
  "om_pool (emit e m) = om_pool m" "om_orders (emit e m) = om_orders m"
  "om_ex2int (emit e m) = om_ex2int m" "om_dedup (emit e m) = om_dedup m"
  "om_seq (emit e m) = om_seq m" "om_paper (emit e m) = om_paper m"
  "om_fill_queue (emit e m) = om_fill_queue m" "om_has_fill_cb (emit e m) = om_has_fill_cb m"
  "om_has_reject_cb (emit e m) = om_has_reject_cb m" "om_out (emit e m) = om_out m @ [e]"
  by (simp_all add: emit_def)

lemma deliver_fill_frame [simp]:
  "om_pool (deliver_fill f m) = om_pool m" "om_orders (deliver_fill f m) = om_orders m"
  "om_ex2int (deliver_fill f m) = om_ex2int m" "om_dedup (deliver_fill f m) = om_dedup m"
  "om_seq (deliver_fill f m) = om_seq m" "om_paper (deliver_fill f m) = om_paper m"
  "om_fill_queue (deliver_fill f m) = snd (spsc_push f (om_fill_queue m))"
  "om_has_fill_cb (deliver_fill f m) = om_has_fill_cb m"
  "om_has_reject_cb (deliver_fill f m) = om_has_reject_cb m"
  "om_out (deliver_fill f m) = om_out m @ (if om_has_fill_cb m then [FillCb f] else [])"
  by (simp_all add: deliver_fill_def Let_def)

lemma retire_frame [simp]:
  "om_pool (retire i oid ex m) = pool_release (Some i) (om_pool m)"
  "om_orders (retire i oid ex m) = AList.delete oid (om_orders m)"
  "om_ex2int (retire i oid ex m) = AList.delete ex (om_ex2int m)"
  "om_dedup (retire i oid ex m) = om_dedup m" "om_seq (retire i oid ex m) = om_seq m"
  "om_paper (retire i oid ex m) = om_paper m" "om_fill_queue (retire i oid ex m) = om_fill_queue m"
  "om_has_fill_cb (retire i oid ex m) = om_has_fill_cb m"
  "om_has_reject_cb (retire i oid ex m) = om_has_reject_cb m" "om_out (retire i oid ex m) = om_out m"
  by (simp_all add: retire_def)

subsection \<open>Every operation keeps the invariant\<close>

lemma oms_inv_cong:
  assumes "oms_inv n k m" and "om_pool m' = om_pool m" and "om_orders m' = om_orders m"
    and "om_seq m' = om_seq m" and "om_ex2int m' = om_ex2int m"
    and "om_fill_queue m' = om_fill_queue m"
  shows "oms_inv n k m'"
  using assms by (simp add: oms_inv_def)

lemma live_entry:
  assumes "oms_inv n k m" and "map_of (om_orders m) oid = Some i"
  shows "\<not> is_terminal (po_sm (slot_of m i))"
    and "od_order_id (po_order (slot_of m i)) = strncpy_buf MAX_ORDER_ID_LEN oid"
  using assms map_of_SomeD [OF assms(2)] by (auto simp: oms_inv_def book_inv_def book_entry_ok_def)

lemma oms_inv_upd_slot:
  assumes "oms_inv n k m" and "\<not> is_terminal (po_sm (f (slot_of m i)))"
    and "od_order_id (po_order (f (slot_of m i))) = od_order_id (po_order (slot_of m i))"
  shows "oms_inv n k (upd_slot i f m)"
  using assms book_inv_slot by (simp add: oms_inv_def upd_slot_pool)

lemma oms_inv_retire:
  assumes "oms_inv n k m" and "map_of (om_orders m) oid = Some i"
  shows "oms_inv n k (retire i oid ex (upd_slot i f m))"
  using assms book_inv_remove [OF _ assms(2)]
  by (auto simp: oms_inv_def upd_slot_pool intro: distinct_delete)

lemma oms_inv_deliver: "oms_inv n k m \<Longrightarrow> oms_inv n k (deliver_fill f m)"
  using ring.enq_refines [of k "om_fill_queue m" f] by (auto simp: oms_inv_def)

lemma ack_not_terminal: "\<not> is_terminal s \<Longrightarrow> \<not> is_terminal (snd (transition s OPEN))"
  by (auto simp: transition_eq is_terminal_def)

lemma oms_inv_ack:
  assumes "oms_inv n k m"
  shows "oms_inv n k (on_order_ack ex oid m)"
proof (cases "map_of (om_orders m) oid")
  case (Some i)
  have "oms_inv n k (m\<lparr>om_ex2int := AList.update ex oid (om_ex2int m)\<rparr>)"
    using assms by (simp add: oms_inv_def distinct_update)
  then show ?thesis
    using Some live_entry(1) [OF assms Some]
    by (auto simp: on_order_ack_def ack_not_terminal intro!: oms_inv_upd_slot)
qed (simp add: on_order_ack_def assms)

lemma fill_order_id [simp]: "od_order_id (po_order (fill_order f po)) = od_order_id (po_order po)"
  by (simp add: fill_order_def Let_def)

text \<open>The guard and the fill, by cases.\<close>

lemma dedup_guard_eq:
  "dedup_guard tid m =
     (if tid = [] then (True, m)
      else if tid \<in> dd_processed (om_dedup m)
        then (False, m\<lparr>om_dedup := (om_dedup m)\<lparr>dd_duplicates := dd_duplicates (om_dedup m) + 1\<rparr>\<rparr>)
      else (True, m\<lparr>om_dedup := (om_dedup m)\<lparr>dd_processed := insert tid (dd_processed (om_dedup m))\<rparr>\<rparr>))"
  by (simp add: dedup_guard_def try_mark_eq)

lemma apply_fill_unknown:
  "map_of (om_orders m) (resolve_internal ex m) = None \<Longrightarrow> apply_fill ex price qty tid now m = m"
  by (simp add: apply_fill_def)

lemma apply_fill_known:
  assumes "map_of (om_orders m) (resolve_internal ex m) = Some i"
    and "f = build_fill (resolve_internal ex m) tid price qty now (po_order (slot_of m i))"
  shows "apply_fill ex price qty tid now m = deliver_fill f
     (if is_terminal (po_sm (fill_order f (slot_of m i)))
      then retire i (resolve_internal ex m) ex (upd_slot i (fill_order f) m)
      else upd_slot i (fill_order f) m)"
  using assms(1) by (simp add: apply_fill_def Let_def assms(2))

lemma oms_inv_guard: "oms_inv n k m \<Longrightarrow> oms_inv n k (snd (dedup_guard tid m))"
  by (auto simp: dedup_guard_eq intro: oms_inv_cong)

lemma oms_inv_apply_fill:
  assumes "oms_inv n k m"
  shows "oms_inv n k (apply_fill ex price qty tid now m)"
proof (cases "map_of (om_orders m) (resolve_internal ex m)")
  case None
  with assms show ?thesis by (simp add: apply_fill_unknown)
next
  case (Some i)
  define f where "f = build_fill (resolve_internal ex m) tid price qty now (po_order (slot_of m i))"
  have "oms_inv n k (if is_terminal (po_sm (fill_order f (slot_of m i)))
      then retire i (resolve_internal ex m) ex (upd_slot i (fill_order f) m)
      else upd_slot i (fill_order f) m)"
    using oms_inv_retire [OF assms Some] oms_inv_upd_slot [OF assms, of "fill_order f" i] by simp
  then show ?thesis
    by (simp only: apply_fill_known [OF Some f_def]) (rule oms_inv_deliver)
qed

lemma oms_inv_fill: "oms_inv n k m \<Longrightarrow> oms_inv n k (on_fill ex price qty tid now m)"
  using oms_inv_guard [of n k m tid]
  by (auto simp: on_fill_def split_beta oms_inv_apply_fill)

lemma oms_inv_reject:
  assumes "oms_inv n k m"
  shows "oms_inv n k (on_reject ex reason m)"
proof -
  define oid where "oid = (case map_of (om_ex2int m) ex of None \<Rightarrow> ex | Some iid \<Rightarrow> iid)"
  have "oms_inv n k (case map_of (om_orders m) oid of None \<Rightarrow> m | Some i \<Rightarrow>
      retire i oid ex (upd_slot i (\<lambda>po. po\<lparr>po_sm := snd (transition (po_sm po) REJECTED)\<rparr>) m))"
    using assms by (auto split: option.splits intro: oms_inv_retire)
  then show ?thesis
    by (auto simp: on_reject_def Let_def oid_def [symmetric] intro: oms_inv_cong)
qed

lemma upd_slot_id: "upd_slot i (\<lambda>po. po) m = m"
  by (simp add: upd_slot_def)

lemma oms_inv_place_error:
  assumes "oms_inv n k m"
  shows "oms_inv n k (on_place_error oid reason m)"
proof -
  let ?m1 = "on_reject [] reason m"
  have inv: "oms_inv n k ?m1" using assms by (rule oms_inv_reject)
  show ?thesis
  proof (cases "map_of (om_orders ?m1) oid")
    case None
    then show ?thesis using inv by (simp add: on_place_error_def Let_def)
  next
    case (Some i)
    have "oms_inv n k (?m1\<lparr>om_pool := pool_release (Some i) (om_pool ?m1),
        om_orders := AList.delete oid (om_orders ?m1)\<rparr>)"
      using inv book_inv_remove [OF _ Some, of n "om_pool ?m1" "om_seq ?m1" "slot_of ?m1 i"]
      by (simp add: oms_inv_def)
    with Some show ?thesis by (simp add: on_place_error_def Let_def)
  qed
qed

lemma cancel_cases:
  obtains "cancel oid m = (False, m)"
  | i exoid where "map_of (om_orders m) oid = Some i" "is_cancellable (po_sm (slot_of m i))"
      "(exoid, oid) \<in> set (om_ex2int m)" "exoid \<noteq> []"
      "cancel oid m = (True, emit (EmsCancel exoid) m)"
proof (cases "cancel oid m = (False, m)")
  case False
  then obtain i exoid iid where "map_of (om_orders m) oid = Some i" "is_cancellable (po_sm (slot_of m i))"
    "find (\<lambda>(exoid, iid). iid = oid) (om_ex2int m) = Some (exoid, iid)" "exoid \<noteq> []"
    "cancel oid m = (True, emit (EmsCancel exoid) m)"
    unfolding cancel_def by (auto simp: Let_def split: option.splits if_splits prod.splits)
  moreover from this(3) have "(exoid, oid) \<in> set (om_ex2int m)"
    by (auto simp: find_Some_iff) (metis nth_mem)
  ultimately show ?thesis using that(2) by blast
qed

lemma oms_inv_cancel: "oms_inv n k m \<Longrightarrow> oms_inv n k (snd (cancel oid m))"
  by (rule cancel_cases [of oid m]) (auto intro: oms_inv_cong)

lemma oms_inv_cancel_list: "oms_inv n k m \<Longrightarrow> oms_inv n k (cancel_list oids m)"
  by (induction oids arbitrary: m) (auto intro: oms_inv_cancel)

lemma request_order_id [simp]:
  "od_order_id (request_order oid now req od) = strncpy_buf MAX_ORDER_ID_LEN oid"
  by (simp add: request_order_def)

text \<open>The state right after the order record is filled in and entered in the table.\<close>

definition entered :: "order_request \<Rightarrow> clock \<Rightarrow> nat \<Rightarrow> pool \<Rightarrow> oms \<Rightarrow> oms" where
  "entered req ck i pl m =
     (let oid = order_id_string (ck_sys_ms ck) (om_seq m);
          m1 = upd_slot i (\<lambda>po. po\<lparr>po_order := request_order oid (ck_place_ns ck) req (po_order po)\<rparr>)
                 (m\<lparr>om_pool := pl, om_seq := om_seq m + 1\<rparr>)
      in m1\<lparr>om_orders := AList.update oid i (om_orders m1)\<rparr>)"

lemma submit_None: "pool_acquire (om_pool m) = (None, pl) \<Longrightarrow> submit req ck m = (False, m)"
  by (simp add: submit_def)

lemma submit_Some:
  assumes "pool_acquire (om_pool m) = (Some i, pl)"
    and "oid = order_id_string (ck_sys_ms ck) (om_seq m)"
  shows "submit req ck m = (True,
     (if om_paper m
      then on_fill (''PAPER-'' @ oid) (if rq_limit_price req > 0 then rq_limit_price req else 0)
             (rq_quantity req) (''PAPER-TRD-'' @ oid) (ck_fill_ns ck)
             (on_order_ack (''PAPER-'' @ oid) oid (entered req ck i pl m))
      else emit (EmsPlace req oid) (entered req ck i pl m)))"
  using assms by (simp add: submit_def generate_order_id_def entered_def Let_def)

lemma oms_inv_entered:
  assumes inv: "oms_inv n k m" and acq: "pool_acquire (om_pool m) = (Some i, pl)"
    and sq: "om_seq m + 1 \<noteq> 0"
  shows "oms_inv n k (entered req ck i pl m)"
proof -
  have b: "book_inv n (om_pool m) (om_orders m) (om_seq m)" using inv by (simp add: oms_inv_def)
  have "\<not> is_terminal (po_sm pooled_order_init)"
    by (simp add: pooled_order_init_def is_terminal_def)
  with book_inv_insert(1) [OF b acq sq, of
      "pooled_order_init\<lparr>po_order := request_order (order_id_string (ck_sys_ms ck) (om_seq m))
         (ck_place_ns ck) req order_init\<rparr>" "ck_sys_ms ck"]
  show ?thesis
    using inv pool_acquire_zeroed [OF acq]
    by (simp add: oms_inv_def entered_def Let_def upd_slot_def pooled_order_init_def)
qed

lemma oms_inv_submit:
  assumes "oms_inv n k m" and "om_seq m + 1 \<noteq> 0"
  shows "oms_inv n k (snd (submit req ck m))"
proof (cases "pool_acquire (om_pool m)")
  case (Pair r pl)
  show ?thesis
  proof (cases r)
    case None
    with Pair assms(1) show ?thesis by (simp add: submit_None)
  next
    case (Some i)
    with Pair have acq: "pool_acquire (om_pool m) = (Some i, pl)" by simp
    have "oms_inv n k (entered req ck i pl m)" by (rule oms_inv_entered [OF assms(1) acq assms(2)])
    then show ?thesis
      by (auto simp: submit_Some [OF acq refl] oms_inv_fill oms_inv_ack intro: oms_inv_cong)
  qed
qed

lemma oms_inv_step:
  assumes "oms_inv n k m" and "om_seq m + 1 \<noteq> 0"
  shows "oms_inv n k (oms_step e m)"
  using assms
  by (cases e)
    (auto simp: oms_inv_submit oms_inv_ack oms_inv_place_error oms_inv_fill oms_inv_reject
      oms_inv_cancel oms_inv_cancel_list cancel_all_open_def reset_for_eod_def intro: oms_inv_cong)

section \<open>Runs\<close>

lemma on_fill_seq [simp]: "om_seq (on_fill ex price qty tid now m) = om_seq m"
  by (auto simp: on_fill_def split_beta dedup_guard_eq apply_fill_def Let_def split: option.splits)

lemma on_order_ack_seq [simp]: "om_seq (on_order_ack ex oid m) = om_seq m"
  by (auto simp: on_order_ack_def split: option.splits)

lemma on_reject_seq [simp]: "om_seq (on_reject ex reason m) = om_seq m"
  by (auto simp: on_reject_def Let_def split: option.splits)

lemma cancel_seq [simp]: "om_seq (snd (cancel oid m)) = om_seq m"
  by (rule cancel_cases [of oid m]) simp_all

lemma cancel_list_seq [simp]: "om_seq (cancel_list oids m) = om_seq m"
  by (induction oids arbitrary: m) simp_all

lemma entered_seq [simp]: "om_seq (entered req ck i pl m) = om_seq m + 1"
  by (simp add: entered_def Let_def)

lemma oms_step_seq: "om_seq (oms_step e m) = om_seq m \<or> om_seq (oms_step e m) = om_seq m + 1"
proof (cases e)
  case (Submit req ck)
  obtain r pl where acq: "pool_acquire (om_pool m) = (r, pl)" by fastforce
  then show ?thesis
    using Submit by (cases r) (simp_all add: submit_None submit_Some)
qed (auto simp: on_place_error_def Let_def cancel_all_open_def reset_for_eod_def split: option.splits)

lemma unat_plus_one: "unat x + 1 < 2 ^ 64 \<Longrightarrow> x + 1 \<noteq> 0 \<and> unat (x + 1) = unat x + 1"
  for x :: u64
proof -
  assume "unat x + 1 < 2 ^ 64"
  then have "unat (x + 1) = unat x + 1" by (simp add: unat_word_ariths)
  then show "x + 1 \<noteq> 0 \<and> unat (x + 1) = unat x + 1" by auto
qed

lemma oms_inv_run:
  "oms_inv n k m \<Longrightarrow> unat (om_seq m) + length es < 2 ^ 64 \<Longrightarrow> oms_inv n k (oms_run es m)"
proof (induction es arbitrary: m)
  case (Cons e es)
  have "unat (om_seq m) + 1 < 2 ^ 64" using Cons.prems(2) by simp
  note one = unat_plus_one [OF this]
  then have "oms_inv n k (oms_step e m)" using Cons.prems(1) oms_inv_step by blast
  moreover have "unat (om_seq (oms_step e m)) + length es < 2 ^ 64"
    using oms_step_seq [of e m] one Cons.prems(2) by auto
  ultimately show ?case using Cons.IH by simp
qed simp

lemma length_orders_card: "oms_inv n k m \<Longrightarrow> length (om_orders m) = card (snd ` set (om_orders m))"
  unfolding oms_inv_def book_inv_def owned_table_def
  by (metis distinct_card length_map list.set_map)

lemma slots_conserved:
  assumes inv: "oms_inv n k m"
  shows "pool_available (om_pool m) + length (om_orders m) = n"
proof -
  have sp: "splits {..<n} (snd ` set (om_orders m)) (pool_free (om_pool m))"
    and ok: "pool_ok (om_pool m)"
    using inv by (simp_all add: oms_inv_def book_inv_def)
  have "card (snd ` set (om_orders m) \<union> pool_free (om_pool m))
      = card (snd ` set (om_orders m)) + card (pool_free (om_pool m))"
    using sp by (intro card_Un_disjoint) (auto simp: splits_def pool_free_def)
  then show ?thesis
    using sp length_orders_card [OF inv] pool_available_card [OF ok] by (simp add: splits_def)
qed

lemma open_count_all:
  assumes inv: "oms_inv n k m"
  shows "open_order_count m = length (om_orders m)"
proof -
  have "filter (\<lambda>(oid, i). \<not> is_terminal (po_sm (slot_of m i))) (om_orders m) = om_orders m"
    using inv by (intro filter_True) (auto simp: oms_inv_def book_inv_def book_entry_ok_def)
  then show ?thesis by (simp add: open_order_count_def)
qed

lemma submit_accepts_iff:
  assumes inv: "oms_inv n k m"
  shows "fst (submit req ck m) \<longleftrightarrow> length (om_orders m) < n"
proof -
  obtain r pl where acq: "pool_acquire (om_pool m) = (r, pl)" by fastforce
  have "r = None \<longleftrightarrow> pool_available (om_pool m) = 0"
    using acq by (auto simp: pool_acquire_def pool_available_def split: list.splits)
  then show ?thesis
    using acq slots_conserved [OF inv] by (cases r) (auto simp: submit_None submit_Some)
qed

text \<open>
  C1: over every run of requests, acknowledgements, fills, rejections, cancels and resets: each pool
  slot is free or owned by exactly one live order, none is lost; \<open>open_order_count\<close> counts the whole
  table; the next submission is accepted exactly when a slot is free.
\<close>

lemma oms_conserves_slots:
  assumes "k < 64" and "length es < 2 ^ 64"
    and "m = oms_run es (oms_new n (2 ^ k) paper)"
  shows "pool_available (om_pool m) + length (om_orders m) = n
     \<and> distinct (map snd (om_orders m)) \<and> distinct (map fst (om_orders m))
     \<and> set (map snd (om_orders m)) \<inter> set (pl_free (om_pool m)) = {}
     \<and> open_order_count m = length (om_orders m)
     \<and> (fst (submit req ck m) \<longleftrightarrow> length (om_orders m) < n)"
proof -
  have "unat (om_seq (oms_new n (2 ^ k) paper)) + length es < 2 ^ 64"
    using assms(2) by (simp add: oms_new_def)
  then have inv: "oms_inv n k m"
    using oms_inv_run [OF oms_inv_new [OF assms(1)]] assms(3) by simp
  then have "owned_table (om_orders m)" "snd ` set (om_orders m) \<inter> pool_free (om_pool m) = {}"
    by (simp_all add: oms_inv_def book_inv_def splits_def)
  with slots_conserved [OF inv] open_count_all [OF inv] submit_accepts_iff [OF inv] show ?thesis
    by (simp add: owned_table_def pool_free_def)
qed

section \<open>The paper session\<close>

definition paper_oid :: "clock \<Rightarrow> u64 \<Rightarrow> string" where
  "paper_oid ck sq = order_id_string (ck_sys_ms ck) sq"

definition paper_fill :: "order_request \<Rightarrow> clock \<Rightarrow> u64 \<Rightarrow> fill" where
  "paper_fill req ck sq =
     \<lparr>fl_order_id = strncpy_buf MAX_ORDER_ID_LEN (paper_oid ck sq),
      fl_trade_id = strncpy_buf MAX_ORDER_ID_LEN (''PAPER-TRD-'' @ paper_oid ck sq),
      fl_strategy_id = strncpy_buf MAX_STRATEGY_LEN (rq_strategy_id req),
      fl_token = rq_token req, fl_side = rq_side req, fl_quantity = rq_quantity req,
      fl_price = rq_limit_price req, fl_ts_ns = ck_fill_ns ck\<rparr>"

fun paper_fills :: "u64 \<Rightarrow> (order_request \<times> clock) list \<Rightarrow> fill list" where
  "paper_fills sq [] = []"
| "paper_fills sq ((req, ck) # rest) = paper_fill req ck sq # paper_fills (sq + 1) rest"

lemma paper_tid_inj: "''PAPER-TRD-'' @ paper_oid ck sq = ''PAPER-TRD-'' @ paper_oid ck' sq' \<Longrightarrow> sq = sq'"
  by (simp add: paper_oid_def order_id_string_inj)

lemma delete_update_fresh: "k \<notin> fst ` set al \<Longrightarrow> AList.delete k (AList.update k v al) = al"
  by (simp add: keys_alist_update_fresh AList.delete_eq filter_id_conv) force

text \<open>One paper order: acknowledged, filled in full, its slot returned, one fill delivered.\<close>

lemma paper_submit:
  assumes inv: "oms_inv n k m" and paper: "om_paper m" and sq: "om_seq m + 1 \<noteq> 0"
    and room: "length (om_orders m) < n" and qty: "in_i32 (rq_quantity req)"
    and tid: "''PAPER-TRD-'' @ paper_oid ck (om_seq m) \<notin> dd_processed (om_dedup m)"
    and m': "submit req ck m = (r, m')"
  shows "r \<and> om_orders m' = om_orders m \<and> om_seq m' = om_seq m + 1 \<and> om_paper m'
     \<and> dd_processed (om_dedup m') = insert (''PAPER-TRD-'' @ paper_oid ck (om_seq m)) (dd_processed (om_dedup m))
     \<and> om_fill_queue m' = snd (spsc_push (paper_fill req ck (om_seq m)) (om_fill_queue m))
     \<and> om_has_fill_cb m' = om_has_fill_cb m
     \<and> om_out m' = om_out m @ (if om_has_fill_cb m then [FillCb (paper_fill req ck (om_seq m))] else [])"
proof -
  define oid where "oid = paper_oid ck (om_seq m)"
  define ex where "ex = ''PAPER-'' @ oid"
  define td where "td = ''PAPER-TRD-'' @ oid"
  have td_ne: "td \<noteq> []" by (simp add: td_def)
  have oid': "oid = order_id_string (ck_sys_ms ck) (om_seq m)" by (simp add: oid_def paper_oid_def)
  obtain i pl where acq: "pool_acquire (om_pool m) = (Some i, pl)"
    using submit_accepts_iff [OF inv, of req ck] room
    by (cases "pool_acquire (om_pool m)"; cases "fst (pool_acquire (om_pool m))")
      (auto simp: submit_None)
  have b: "book_inv n (om_pool m) (om_orders m) (om_seq m)" using inv by (simp add: oms_inv_def)
  have fresh: "oid \<notin> fst ` set (om_orders m)"
    using book_inv_insert(2) [OF b acq sq, of pooled_order_init "ck_sys_ms ck"] b
    by (force simp: oid' book_inv_def book_entry_ok_def order_id_string_inj)
  let ?m1 = "entered req ck i pl m"
  let ?m2 = "on_order_ack ex oid ?m1"
  have m1: "om_orders ?m1 = om_orders m @ [(oid, i)]" "om_ex2int ?m1 = om_ex2int m"
    "om_dedup ?m1 = om_dedup m" "om_paper ?m1" "om_fill_queue ?m1 = om_fill_queue m"
    "om_has_fill_cb ?m1 = om_has_fill_cb m" "om_out ?m1 = om_out m"
    "slot_of ?m1 i = \<lparr>po_order = request_order oid (ck_place_ns ck) req order_init, po_sm = PENDING\<rparr>"
    using fresh paper pool_acquire_zeroed [OF acq]
    by (simp_all add: entered_def Let_def oid' [symmetric] keys_alist_update_fresh pooled_order_init_def)
  have look1: "map_of (om_orders ?m1) oid = Some i"
    using fresh by (simp add: m1 map_of_append map_of_eq_None_iff map_add_Some_iff)
  have m2: "?m2 = upd_slot i (\<lambda>po. po\<lparr>po_sm := snd (transition (po_sm po) OPEN),
              po_order := (po_order po)\<lparr>od_status := OPEN\<rparr>\<rparr>)
            (?m1\<lparr>om_ex2int := AList.update ex oid (om_ex2int ?m1)\<rparr>)"
    by (simp add: on_order_ack_def look1)
  have tid': "td \<notin> dd_processed (om_dedup ?m2)"
    using tid [folded oid_def, folded td_def] by (simp add: m2 m1)
  define m3 where "m3 = snd (dedup_guard td ?m2)"
  have g: "dedup_guard td ?m2 = (True, m3)"
    using tid' td_ne by (simp add: m3_def dedup_guard_eq)
  have m3: "om_orders m3 = om_orders ?m1" "om_pool m3 = om_pool ?m2"
    "om_ex2int m3 = AList.update ex oid (om_ex2int m)"
    "om_has_fill_cb m3 = om_has_fill_cb m" "om_out m3 = om_out m" "om_fill_queue m3 = om_fill_queue m"
    "om_paper m3" "om_seq m3 = om_seq m + 1"
    "dd_processed (om_dedup m3) = insert td (dd_processed (om_dedup m))"
    using tid' td_ne by (simp_all add: m3_def dedup_guard_eq) (simp_all add: m2 m1)
  have slot3: "slot_of m3 i = \<lparr>po_order = (request_order oid (ck_place_ns ck) req order_init)\<lparr>od_status := OPEN\<rparr>,
      po_sm = OPEN\<rparr>"
    by (simp add: m3 m2 m1 transition_eq)
  have res: "resolve_internal ex m3 = oid"
    by (simp add: resolve_internal_def m3 update_conv')
  have look3: "map_of (om_orders m3) (resolve_internal ex m3) = Some i"
    by (simp add: m3 res look1)
  define price where "price = (if rq_limit_price req > 0 then rq_limit_price req else 0)"
  have f: "paper_fill req ck (om_seq m) = build_fill (resolve_internal ex m3)
      td price (rq_quantity req) (ck_fill_ns ck) (po_order (slot_of m3 i))"
    by (simp add: paper_fill_def build_fill_def res slot3 request_order_def oid_def td_def price_def order_init_def)
  have fin: "po_sm (fill_order (paper_fill req ck (om_seq m)) (slot_of m3 i)) = COMPLETE"
    using qty by (simp add: fill_order_def slot3 paper_fill_def request_order_def order_init_def
        Let_def i32_id transition_eq)
  have "submit req ck m = (True, apply_fill ex price (rq_quantity req)
      td (ck_fill_ns ck) m3)"
    using paper by (simp add: submit_Some [OF acq oid', folded ex_def td_def] on_fill_def g price_def)
  also have "apply_fill ex price (rq_quantity req) td (ck_fill_ns ck) m3
     = deliver_fill (paper_fill req ck (om_seq m))
         (retire i oid ex (upd_slot i (fill_order (paper_fill req ck (om_seq m))) m3))"
    using fin by (simp add: apply_fill_known [OF look3 f] res is_terminal_def)
  finally have eq: "m' = deliver_fill (paper_fill req ck (om_seq m))
         (retire i oid ex (upd_slot i (fill_order (paper_fill req ck (om_seq m))) m3))" and r
    using m' by simp_all
  have "AList.delete oid (om_orders m @ [(oid, i)]) = om_orders m"
    using delete_update_fresh [OF fresh, of i] by (simp add: keys_alist_update_fresh [OF fresh])
  then show ?thesis using \<open>r\<close> by (simp add: eq m3 m1 oid_def td_def)
qed

definition paper_ready :: "nat \<Rightarrow> nat \<Rightarrow> oms \<Rightarrow> bool" where
  "paper_ready n k m \<longleftrightarrow> oms_inv n k m \<and> om_paper m \<and> om_has_fill_cb m \<and> om_orders m = []
     \<and> (\<forall>t \<in> dd_processed (om_dedup m). \<exists>ck sq. t = ''PAPER-TRD-'' @ paper_oid ck sq \<and> sq < om_seq m)"

definition submits :: "(order_request \<times> clock) list \<Rightarrow> oms_event list" where
  "submits rcs = map (\<lambda>(req, ck). Submit req ck) rcs"

lemma paper_step:
  assumes rdy: "paper_ready n k m" and n: "0 < n" and sq: "unat (om_seq m) + 1 < 2 ^ 64"
    and qty: "in_i32 (rq_quantity req)" and room: "length (spsc_items (om_fill_queue m)) < 2 ^ k - 1"
    and m': "m' = snd (submit req ck m)"
  shows "paper_ready n k m' \<and> om_seq m' = om_seq m + 1
     \<and> spsc_items (om_fill_queue m') = spsc_items (om_fill_queue m) @ [paper_fill req ck (om_seq m)]
     \<and> om_out m' = om_out m @ [FillCb (paper_fill req ck (om_seq m))]"
proof -
  have inv: "oms_inv n k m" and p: "om_paper m" and o: "length (om_orders m) < n" and cb: "om_has_fill_cb m"
    using rdy n by (auto simp: paper_ready_def)
  note one = unat_plus_one [OF sq]
  have less: "om_seq m < om_seq m + 1" using one by (simp add: word_less_nat_alt)
  have tid: "''PAPER-TRD-'' @ paper_oid ck (om_seq m) \<notin> dd_processed (om_dedup m)"
  proof
    assume "''PAPER-TRD-'' @ paper_oid ck (om_seq m) \<in> dd_processed (om_dedup m)"
    then obtain ck' sq' where
      "''PAPER-TRD-'' @ paper_oid ck (om_seq m) = ''PAPER-TRD-'' @ paper_oid ck' sq'" "sq' < om_seq m"
      using rdy unfolding paper_ready_def by blast
    with paper_tid_inj show False by blast
  qed
  have sub: "submit req ck m = (fst (submit req ck m), m')" by (simp add: m')
  note s = paper_submit [OF inv p conjunct1 [OF one] o qty tid sub]
  have "spsc_inv k (om_fill_queue m)" using inv by (simp add: oms_inv_def)
  from spsc_push_room [OF this room] s
  have "spsc_items (om_fill_queue m') = spsc_items (om_fill_queue m) @ [paper_fill req ck (om_seq m)]"
    by (metis snd_conv)
  moreover have "oms_inv n k m'" using oms_inv_submit [OF inv conjunct1 [OF one]] by (simp add: m')
  moreover have "\<exists>ck' sq'. t = ''PAPER-TRD-'' @ paper_oid ck' sq' \<and> sq' < om_seq m + 1"
    if "t \<in> dd_processed (om_dedup m')" for t
  proof (cases "t \<in> dd_processed (om_dedup m)")
    case True
    then obtain ck' sq' where "t = ''PAPER-TRD-'' @ paper_oid ck' sq'" "sq' < om_seq m"
      using rdy unfolding paper_ready_def by blast
    moreover from \<open>sq' < om_seq m\<close> less have "sq' < om_seq m + 1" by (rule less_trans)
    ultimately show ?thesis by blast
  next
    case False
    with that s have "t = ''PAPER-TRD-'' @ paper_oid ck (om_seq m)" by simp
    with less show ?thesis by blast
  qed
  ultimately show ?thesis using s rdy cb by (simp add: paper_ready_def)
qed

lemma paper_run:
  "paper_ready n k m \<Longrightarrow> 0 < n \<Longrightarrow> unat (om_seq m) + length rcs < 2 ^ 64 \<Longrightarrow>
   list_all (\<lambda>(req, ck). in_i32 (rq_quantity req)) rcs \<Longrightarrow>
   length (spsc_items (om_fill_queue m)) + length rcs \<le> 2 ^ k - 1 \<Longrightarrow>
   m' = oms_run (submits rcs) m \<Longrightarrow>
   paper_ready n k m'
     \<and> spsc_items (om_fill_queue m') = spsc_items (om_fill_queue m) @ paper_fills (om_seq m) rcs
     \<and> om_out m' = om_out m @ map FillCb (paper_fills (om_seq m) rcs)"
proof (induction rcs arbitrary: m)
  case (Cons rc rcs)
  obtain req ck where rc: "rc = (req, ck)" by fastforce
  have sq: "unat (om_seq m) + 1 < 2 ^ 64" using Cons.prems(3) by simp
  have "length (spsc_items (om_fill_queue m)) < 2 ^ k - 1" using Cons.prems(5) by simp
  note step = paper_step [OF Cons.prems(1,2) sq _ this refl, of req ck]
  have qty: "in_i32 (rq_quantity req)" using Cons.prems(4) rc by simp
  note st = step [OF qty]
  from Cons.IH [of "snd (submit req ck m)"] st unat_plus_one [OF sq] Cons.prems
  show ?case by (simp add: rc submits_def)
qed (simp add: submits_def)

text \<open>
  C8: a paper-trading session. Any sequence of requests that fits the fill queue is accepted and
  filled at once: no order stays open, every slot is free again, and the queue and the callback get
  one fill per request, in order, with the request's quantity and limit price.
\<close>

lemma paper_session:
  assumes "k < 64" and "0 < n" and "length rcs \<le> 2 ^ k - 1"
    and "list_all (\<lambda>(req, ck). in_i32 (rq_quantity req)) rcs"
    and "m = oms_run (submits rcs) (set_fill_callback (oms_new n (2 ^ k) True))"
  shows "om_orders m = [] \<and> pool_available (om_pool m) = n
     \<and> spsc_items (om_fill_queue m) = paper_fills 0 rcs
     \<and> om_out m = map FillCb (paper_fills 0 rcs)"
proof -
  let ?m = "set_fill_callback (oms_new n (2 ^ k) True)"
  have inv: "oms_inv n k ?m"
    using oms_inv_new [OF assms(1), of n True] by (rule oms_inv_cong) (simp_all add: set_fill_callback_def)
  then have rdy: "paper_ready n k ?m"
    by (simp add: paper_ready_def set_fill_callback_def oms_new_def dedup_new_def)
  have "(2::nat) ^ k \<le> 2 ^ 63" using assms(1) by (intro power_increasing) auto
  then have len: "length rcs < 2 ^ 64" using assms(3) by simp
  have "om_seq ?m = 0" "spsc_items (om_fill_queue ?m) = []" "om_out ?m = []"
    by (simp_all add: set_fill_callback_def oms_new_def)
  with paper_run [OF rdy assms(2) _ assms(4) _ assms(5)] len assms(3)
  have "paper_ready n k m \<and> spsc_items (om_fill_queue m) = paper_fills 0 rcs
      \<and> om_out m = map FillCb (paper_fills 0 rcs)" by simp
  with slots_conserved [of n k m] show ?thesis by (auto simp: paper_ready_def)
qed

section \<open>The life of a live order\<close>

definition working :: "string \<Rightarrow> string \<Rightarrow> nat \<Rightarrow> int \<Rightarrow> oms \<Rightarrow> bool" where
  \<comment> \<open>order \<open>oid\<close>, known to the exchange as \<open>ex\<close>, sits in slot \<open>i\<close> with \<open>filled\<close> units done\<close>
  "working ex oid i filled m \<longleftrightarrow> map_of (om_ex2int m) ex = Some oid \<and> map_of (om_orders m) oid = Some i
     \<and> is_cancellable (po_sm (slot_of m i)) \<and> od_filled_qty (po_order (slot_of m i)) = filled"

definition fill_terms :: "order \<Rightarrow> string \<times> u64 \<times> side \<times> dbl \<times> int" where
  \<comment> \<open>the fields of an order that its fills report, and its quantity\<close>
  "fill_terms od = (od_strategy_id od, od_token od, od_side od, od_limit_price od, od_quantity od)"

lemma build_fill_cong: "fill_terms od = fill_terms od' \<Longrightarrow>
   build_fill oid tid p q now od = build_fill oid tid p q now od'"
  by (simp add: fill_terms_def build_fill_def)

lemma fill_order_terms [simp]: "fill_terms (po_order (fill_order f po)) = fill_terms (po_order po)"
  by (simp add: fill_order_def fill_terms_def Let_def)

lemma on_fill_fresh:
  "tid \<noteq> [] \<Longrightarrow> tid \<notin> dd_processed (om_dedup m) \<Longrightarrow> on_fill ex p q tid now m =
     apply_fill ex p q tid now
       (m\<lparr>om_dedup := (om_dedup m)\<lparr>dd_processed := insert tid (dd_processed (om_dedup m))\<rparr>\<rparr>)"
  by (simp add: on_fill_def dedup_guard_eq)

text \<open>One fill of a working order.\<close>

lemma fill_working:
  assumes w: "working ex oid i filled m" and tid: "tid \<noteq> []" "tid \<notin> dd_processed (om_dedup m)"
    and b: "in_i32 (filled + q)" and own: "owned_table (om_orders m)" "distinct (map fst (om_ex2int m))"
    and m': "m' = on_fill ex p q tid now m"
  shows "om_out m' = om_out m @ (if om_has_fill_cb m
            then [FillCb (build_fill oid tid p q now (po_order (slot_of m i)))] else [])"
    and "om_has_fill_cb m' = om_has_fill_cb m"
    and "dd_processed (om_dedup m') = insert tid (dd_processed (om_dedup m))"
    and "fill_terms (po_order (slot_of m' i)) = fill_terms (po_order (slot_of m i))"
    and "od_filled_qty (po_order (slot_of m' i)) = filled + q"
    and "filled + q < od_quantity (po_order (slot_of m i)) \<Longrightarrow> working ex oid i (filled + q) m'"
    and "od_quantity (po_order (slot_of m i)) \<le> filled + q \<Longrightarrow>
           map_of (om_orders m') oid = None \<and> map_of (om_ex2int m') ex = None
           \<and> i \<in> pool_free (om_pool m') \<and> po_sm (slot_of m' i) = COMPLETE"
    and "owned_table (om_orders m')" and "distinct (map fst (om_ex2int m'))"
proof -
  define m1 where
    "m1 = m\<lparr>om_dedup := (om_dedup m)\<lparr>dd_processed := insert tid (dd_processed (om_dedup m))\<rparr>\<rparr>"
  have res: "resolve_internal ex m1 = oid" and look: "map_of (om_orders m1) oid = Some i"
    using w by (simp_all add: working_def resolve_internal_def m1_def)
  define f where "f = build_fill oid tid p q now (po_order (slot_of m i))"
  define Q where "Q = od_quantity (po_order (slot_of m i))"
  have slot: "slot_of m1 i = slot_of m i" by (simp add: m1_def)
  have look': "map_of (om_orders m1) (resolve_internal ex m1) = Some i" by (simp only: res look)
  have f': "f = build_fill (resolve_internal ex m1) tid p q now (po_order (slot_of m1 i))"
    by (simp only: res slot f_def)
  have eq: "m' = deliver_fill f (if is_terminal (po_sm (fill_order f (slot_of m1 i)))
      then retire i oid ex (upd_slot i (fill_order f) m1) else upd_slot i (fill_order f) m1)"
    unfolding m' on_fill_fresh [OF tid] m1_def [symmetric]
    using apply_fill_known [OF look' f'] by (simp only: res)
  have fq: "fl_quantity f = q" by (simp add: f_def build_fill_def)
  have sm: "po_sm (slot_of m i) = OPEN \<or> po_sm (slot_of m i) = PARTIAL"
    and F: "od_filled_qty (po_order (slot_of m i)) = filled"
    using w by (auto simp: working_def is_cancellable_def)
  have sm': "po_sm (fill_order f (slot_of m i)) = (if Q \<le> filled + q then COMPLETE else PARTIAL)"
    and F': "od_filled_qty (po_order (fill_order f (slot_of m i))) = filled + q"
    using sm b by (auto simp: fill_order_def Let_def transition_eq fq F i32_id Q_def)
  have s': "slot_of m' i = fill_order f (slot_of m i)"
    by (simp add: eq slot)
  show "om_out m' = om_out m @ (if om_has_fill_cb m
            then [FillCb (build_fill oid tid p q now (po_order (slot_of m i)))] else [])"
    "om_has_fill_cb m' = om_has_fill_cb m"
    "dd_processed (om_dedup m') = insert tid (dd_processed (om_dedup m))"
    by (simp_all add: eq m1_def f_def)
  show "fill_terms (po_order (slot_of m' i)) = fill_terms (po_order (slot_of m i))"
    "od_filled_qty (po_order (slot_of m' i)) = filled + q"
    by (simp_all add: s' F')
  show "working ex oid i (filled + q) m'" if "filled + q < od_quantity (po_order (slot_of m i))"
    using that w sm' F' s' by (simp add: eq slot working_def Q_def is_cancellable_def is_terminal_def m1_def)
  show "map_of (om_orders m') oid = None \<and> map_of (om_ex2int m') ex = None
      \<and> i \<in> pool_free (om_pool m') \<and> po_sm (slot_of m' i) = COMPLETE"
    if "od_quantity (po_order (slot_of m i)) \<le> filled + q"
    using that sm' s'
    by (simp add: eq slot Q_def is_terminal_def delete_conv' pool_release_def pool_free_def)
  show "owned_table (om_orders m')" "distinct (map fst (om_ex2int m'))"
    using own owned_table_delete(1) [OF own(1), of oid i] look
    by (auto simp: eq m1_def distinct_delete)
qed

fun fills_run :: "string \<Rightarrow> (dbl \<times> int \<times> string \<times> u64) list \<Rightarrow> oms \<Rightarrow> oms" where
  "fills_run ex [] m = m"
| "fills_run ex ((p, q, tid, now) # fs) m = fills_run ex fs (on_fill ex p q tid now m)"

fun fill_qtys :: "(dbl \<times> int \<times> string \<times> u64) list \<Rightarrow> int list" where
  "fill_qtys [] = []"
| "fill_qtys ((p, q, tid, now) # fs) = q # fill_qtys fs"

fun fill_tids :: "(dbl \<times> int \<times> string \<times> u64) list \<Rightarrow> string list" where
  "fill_tids [] = []"
| "fill_tids ((p, q, tid, now) # fs) = tid # fill_tids fs"

text \<open>
  C7: a live order that is filled in pieces (new trade ids, positive quantities, only the last one may
  reach the order's quantity): every piece is reported with its own price and quantity under the
  order's terms, the filled quantity is their sum, and the order leaves the book and frees its slot
  exactly when the sum reaches its quantity.
\<close>

lemma live_fills:
  assumes "working ex oid i filled m" and "owned_table (om_orders m)" "distinct (map fst (om_ex2int m))"
    and "om_has_fill_cb m" and "fs \<noteq> []"
    and "distinct (fill_tids fs)" and "set (fill_tids fs) \<inter> insert [] (dd_processed (om_dedup m)) = {}"
    and "list_all (\<lambda>q. 0 < q) (fill_qtys fs)"
    and "0 \<le> filled" and "filled + sum_list (fill_qtys fs) < 2147483648"
    and "filled + sum_list (butlast (fill_qtys fs)) < od_quantity (po_order (slot_of m i))"
    and "m' = fills_run ex fs m"
  shows "om_out m' = om_out m
       @ map (\<lambda>(p, q, tid, now). FillCb (build_fill oid tid p q now (po_order (slot_of m i)))) fs
     \<and> od_filled_qty (po_order (slot_of m' i)) = filled + sum_list (fill_qtys fs)
     \<and> (if od_quantity (po_order (slot_of m i)) \<le> filled + sum_list (fill_qtys fs)
        then map_of (om_orders m') oid = None \<and> i \<in> pool_free (om_pool m')
          \<and> po_sm (slot_of m' i) = COMPLETE
        else working ex oid i (filled + sum_list (fill_qtys fs)) m')"
  using assms
proof (induction fs arbitrary: m filled)
  case (Cons x fs)
  obtain p q tid now where x: "x = (p, q, tid, now)" by (metis prod_cases4)
  let ?m = "on_fill ex p q tid now m"
  have nn: "0 \<le> sum_list (fill_qtys fs)"
    using Cons.prems(8) x by (intro sum_list_nonneg) (auto simp: list_all_iff)
  have b: "in_i32 (filled + q)"
    using Cons.prems(8,9,10) x nn by (simp add: in_i32_def)
  have tid: "tid \<noteq> []" "tid \<notin> dd_processed (om_dedup m)" using Cons.prems(7) x by auto
  note st = fill_working [OF Cons.prems(1) tid b Cons.prems(2,3) refl, of p now]
  have Q: "od_quantity (po_order (slot_of ?m i)) = od_quantity (po_order (slot_of m i))"
    using st(4) by (simp add: fill_terms_def)
  show ?case
  proof (cases "fs = []")
    case True
    with st x Cons.prems(4,12) show ?thesis by (simp split: if_splits)
  next
    case False
    then have "butlast (fill_qtys (x # fs)) = q # butlast (fill_qtys fs)"
      using x by (cases fs) auto
    with Cons.prems(11) have bl: "filled + q + sum_list (butlast (fill_qtys fs)) < od_quantity (po_order (slot_of m i))"
      by simp
    moreover have "0 \<le> sum_list (butlast (fill_qtys fs))"
      using Cons.prems(8) x by (intro sum_list_nonneg) (auto simp: list_all_iff dest!: in_set_butlastD intro: less_imp_le)
    ultimately have w: "working ex oid i (filled + q) ?m" using st(6) by linarith
    have "set (fill_tids fs) \<inter> insert [] (dd_processed (om_dedup ?m)) = {}"
      using Cons.prems(6,7) x st(3) by auto
    note dd = this
    have rest: "om_has_fill_cb ?m" "distinct (fill_tids fs)" "list_all (\<lambda>q. 0 < q) (fill_qtys fs)"
      "0 \<le> filled + q" "filled + q + sum_list (fill_qtys fs) < 2147483648"
      "filled + q + sum_list (butlast (fill_qtys fs)) < od_quantity (po_order (slot_of ?m i))"
      "m' = fills_run ex fs ?m"
      using st(2) Cons.prems(4,6,8-10,12) x Q bl by simp_all
    have "om_out m' = om_out ?m
         @ map (\<lambda>(p, q, tid, now). FillCb (build_fill oid tid p q now (po_order (slot_of ?m i)))) fs
       \<and> od_filled_qty (po_order (slot_of m' i)) = filled + q + sum_list (fill_qtys fs)
       \<and> (if od_quantity (po_order (slot_of ?m i)) \<le> filled + q + sum_list (fill_qtys fs)
          then map_of (om_orders m') oid = None \<and> i \<in> pool_free (om_pool m')
            \<and> po_sm (slot_of m' i) = COMPLETE
          else working ex oid i (filled + q + sum_list (fill_qtys fs)) m')"
      by (rule Cons.IH [OF w st(8,9) rest(1) False rest(2) dd rest(3-7)])
    moreover have "build_fill oid t pp qq n (po_order (slot_of ?m i)) = build_fill oid t pp qq n (po_order (slot_of m i))"
      for t pp qq n using st(4) by (rule build_fill_cong)
    ultimately show ?thesis using st(1) Cons.prems(4) x Q by (simp add: add.assoc [symmetric])
  qed
qed simp

section \<open>Examples\<close>

definition a_clock :: clock where
  "a_clock = \<lparr>ck_sys_ms = 5, ck_place_ns = 10, ck_fill_ns = 20\<rparr>"

definition a_request :: "int \<Rightarrow> dbl \<Rightarrow> order_request" where
  "a_request q p = (order_request_init 7)\<lparr>rq_quantity := q, rq_limit_price := p\<rparr>"

lemma oms_conserves_slots_witness:
  "let m = oms_run [Submit (a_request 5 100) a_clock, PlaceOk ''EX1'' ''QF-5-0'',
       FillEvent ''EX1'' 100 2 ''T1'' 9] (oms_new 3 (2 ^ 4) False)
   in pool_available (om_pool m) + length (om_orders m) = 3"
  using oms_conserves_slots [of 4 "[Submit (a_request 5 100) a_clock, PlaceOk ''EX1'' ''QF-5-0'',
       FillEvent ''EX1'' 100 2 ''T1'' 9]" "oms_run [Submit (a_request 5 100) a_clock, PlaceOk ''EX1'' ''QF-5-0'',
       FillEvent ''EX1'' 100 2 ''T1'' 9] (oms_new 3 (2 ^ 4) False)" 3 False]
  unfolding Let_def by (simp del: oms_run.simps oms_step.simps)

lemma paper_session_witness:
  "om_out (oms_run (submits [(a_request 5 100, a_clock), (a_request 3 90, a_clock)])
       (set_fill_callback (oms_new 10 (2 ^ 4) True)))
     = map FillCb (paper_fills 0 [(a_request 5 100, a_clock), (a_request 3 90, a_clock)])"
  using paper_session [of 4 10 "[(a_request 5 100, a_clock), (a_request 3 90, a_clock)]"
      "oms_run (submits [(a_request 5 100, a_clock), (a_request 3 90, a_clock)])
       (set_fill_callback (oms_new 10 (2 ^ 4) True))"]
  by (simp add: a_request_def in_i32_def del: paper_fills.simps)

text \<open>An OMS with one acknowledged order of five units in slot 0.\<close>

definition live_oms :: oms where
  "live_oms = \<lparr>om_pool = \<lparr>pl_slots = (\<lambda>_. \<lparr>po_order = order_init\<lparr>od_order_id := ''QF-5-0'', od_token := 7,
       od_quantity := 5, od_limit_price := 100, od_status := OPEN\<rparr>, po_sm = OPEN\<rparr>), pl_free = []\<rparr>,
     om_orders = [(''QF-5-0'', 0)], om_ex2int = [(''EX1'', ''QF-5-0'')], om_dedup = dedup_new, om_seq = 1,
     om_paper = False, om_fill_queue = spsc_new 16 fill_init, om_has_fill_cb = True,
     om_has_reject_cb = True, om_out = []\<rparr>"

lemma live_fills_witness:
  "let m' = fills_run ''EX1'' [(99, 2, ''T1'', 11), (98, 3, ''T2'', 12)] live_oms
   in map_of (om_orders m') ''QF-5-0'' = None \<and> po_sm (slot_of m' 0) = COMPLETE"
proof -
  let ?fs = "[(99, 2, ''T1'', 11), (98, 3, ''T2'', 12)] :: (dbl \<times> int \<times> string \<times> u64) list"
  have w: "working ''EX1'' ''QF-5-0'' 0 0 live_oms" "owned_table (om_orders live_oms)"
    "distinct (map fst (om_ex2int live_oms))" "om_has_fill_cb live_oms"
    "od_quantity (po_order (slot_of live_oms 0)) = 5" "dd_processed (om_dedup live_oms) = {}"
    by (simp_all add: working_def live_oms_def owned_table_def is_cancellable_def order_init_def dedup_new_def)
  have "?fs \<noteq> []" "distinct (fill_tids ?fs)" "set (fill_tids ?fs) \<inter> insert [] (dd_processed (om_dedup live_oms)) = {}"
    "list_all (\<lambda>q. 0 < q) (fill_qtys ?fs)" "0 \<le> (0 :: int)" "0 + sum_list (fill_qtys ?fs) < 2147483648"
    "0 + sum_list (butlast (fill_qtys ?fs)) < od_quantity (po_order (slot_of live_oms 0))"
    by (simp_all add: w)
  from live_fills [OF w(1-4) this refl] show ?thesis
    by (simp add: w(5) Let_def del: fills_run.simps)
qed

end
