(* ===== verification/QF_Oms_Edges.thy ===== *)
theory QF_Oms_Edges
  imports QF_Oms_Props
begin

text \<open>
  The edges of the order management system: replayed, early and premature fills, repeated
  acknowledgements, failed placements, and what a cancel does.
\<close>

section \<open>Replayed fills\<close>

lemma on_fill_replay:
  assumes "tid \<noteq> []" and "tid \<in> dd_processed (om_dedup m)"
  shows "on_fill ex p q tid now m
     = m\<lparr>om_dedup := (om_dedup m)\<lparr>dd_duplicates := dd_duplicates (om_dedup m) + 1\<rparr>\<rparr>"
  using assms by (simp add: on_fill_def dedup_guard_eq)

lemma apply_fill_dedup [simp]: "om_dedup (apply_fill ex p q tid now m) = om_dedup m"
  by (auto simp: apply_fill_def Let_def split: option.splits)

lemma on_fill_processed:
  "dd_processed (om_dedup (on_fill ex p q tid now m)) =
     (if tid = [] then dd_processed (om_dedup m) else insert tid (dd_processed (om_dedup m)))"
  by (auto simp: on_fill_def split_beta dedup_guard_eq)

lemma on_order_ack_dedup [simp]: "om_dedup (on_order_ack ex oid m) = om_dedup m"
  by (auto simp: on_order_ack_def split: option.splits)

lemma on_reject_dedup [simp]: "om_dedup (on_reject ex reason m) = om_dedup m"
  by (auto simp: on_reject_def Let_def split: option.splits)

lemma cancel_dedup [simp]: "om_dedup (snd (cancel oid m)) = om_dedup m"
  by (rule cancel_cases [of oid m]) simp_all

lemma cancel_list_dedup [simp]: "om_dedup (cancel_list oids m) = om_dedup m"
  by (induction oids arbitrary: m) simp_all

lemma entered_dedup [simp]: "om_dedup (entered req ck i pl m) = om_dedup m"
  by (simp add: entered_def Let_def)

lemma oms_step_processed:
  assumes "e \<noteq> Eod"
  shows "dd_processed (om_dedup m) \<subseteq> dd_processed (om_dedup (oms_step e m))"
proof (cases e)
  case (Submit req ck)
  obtain r pl where acq: "pool_acquire (om_pool m) = (r, pl)" by fastforce
  then show ?thesis
    using Submit by (cases r) (auto simp: submit_None submit_Some on_fill_processed)
qed (use assms in \<open>auto simp: on_place_error_def Let_def cancel_all_open_def on_fill_processed
    split: option.splits\<close>)

lemma oms_run_processed:
  "Eod \<notin> set es \<Longrightarrow> dd_processed (om_dedup m) \<subseteq> dd_processed (om_dedup (oms_run es m))"
proof (induction es arbitrary: m)
  case (Cons e es)
  then have "dd_processed (om_dedup m) \<subseteq> dd_processed (om_dedup (oms_step e m))"
    by (intro oms_step_processed) auto
  also have "\<dots> \<subseteq> dd_processed (om_dedup (oms_run es (oms_step e m)))"
    using Cons by simp
  finally show ?case by simp
qed simp

text \<open>
  A fill event whose trade id was seen before, at any earlier point of the session, changes
  nothing but the duplicate counter, whatever its order, price and quantity say.
\<close>

lemma fill_replay_ignored:
  assumes "tid \<noteq> []" and "Eod \<notin> set es"
    and "m' = oms_run es (on_fill ex p q tid now m)"
  shows "on_fill ex' p' q' tid now' m'
     = m'\<lparr>om_dedup := (om_dedup m')\<lparr>dd_duplicates := dd_duplicates (om_dedup m') + 1\<rparr>\<rparr>"
proof -
  have "tid \<in> dd_processed (om_dedup (on_fill ex p q tid now m))"
    using assms(1) by (simp add: on_fill_processed)
  then have "tid \<in> dd_processed (om_dedup m')"
    unfolding assms(3) by (rule subsetD [OF oms_run_processed [OF assms(2)]])
  with assms(1) show ?thesis by (rule on_fill_replay)
qed

section \<open>A fill before its acknowledgement\<close>

text \<open>
  A fill whose exchange id is not known yet is dropped, but its trade id stays marked. When the
  acknowledgement arrives and the exchange sends the fill again, it is discarded as a duplicate:
  nothing is delivered and the order's filled quantity does not move.
\<close>

lemma early_fill_lost:
  assumes "tid \<noteq> []" and "map_of (om_orders m) (resolve_internal ex m) = None"
    and "m' = on_fill ex p q tid now' (on_order_ack ex oid (on_fill ex p q tid now m))"
  shows "om_out m' = om_out m \<and> om_fill_queue m' = om_fill_queue m \<and> om_orders m' = om_orders m
     \<and> od_filled_qty (po_order (slot_of m' i)) = od_filled_qty (po_order (slot_of m i))"
proof -
  let ?m1 = "snd (dedup_guard tid m)"
  have g: "om_out ?m1 = om_out m" "om_fill_queue ?m1 = om_fill_queue m" "om_orders ?m1 = om_orders m"
    "om_pool ?m1 = om_pool m" "om_ex2int ?m1 = om_ex2int m" "tid \<in> dd_processed (om_dedup ?m1)"
    using assms(1) by (auto simp: dedup_guard_eq)
  have "map_of (om_orders ?m1) (resolve_internal ex ?m1) = None"
    using assms(2) by (simp add: resolve_internal_def g)
  then have 1: "on_fill ex p q tid now m = ?m1"
    by (auto simp: on_fill_def split_beta apply_fill_unknown)
  have 2: "tid \<in> dd_processed (om_dedup (on_order_ack ex oid ?m1))" using g by simp
  show ?thesis
    unfolding assms(3) 1 on_fill_replay [OF assms(1) 2]
    by (auto simp: on_order_ack_def g split: option.splits)
qed

section \<open>A fill on an order that was not acknowledged\<close>

text \<open>
  When the id fallback of \<open>on_fill\<close> finds an order that is still \<open>PENDING\<close>, a complete fill sets
  its status to \<open>COMPLETE\<close> but the state machine refuses the move: the order stays in the table and
  keeps its slot.
\<close>

lemma pending_fill_leaks:
  assumes "map_of (om_ex2int m) ex = None" and "6 < length ex" and "map_of (om_orders m) (drop 6 ex) = Some i"
    and "po_sm (slot_of m i) = PENDING" and "in_i32 (od_filled_qty (po_order (slot_of m i)) + q)"
    and "od_quantity (po_order (slot_of m i)) \<le> od_filled_qty (po_order (slot_of m i)) + q"
    and "m' = on_fill ex p q [] now m"
  shows "od_status (po_order (slot_of m' i)) = COMPLETE \<and> po_sm (slot_of m' i) = PENDING
     \<and> om_orders m' = om_orders m \<and> pool_available (om_pool m') = pool_available (om_pool m)"
proof -
  have res: "resolve_internal ex m = drop 6 ex" using assms(1,2) by (simp add: resolve_internal_def)
  have look: "map_of (om_orders m) (resolve_internal ex m) = Some i" using assms(3) res by simp
  define f where "f = build_fill (resolve_internal ex m) [] p q now (po_order (slot_of m i))"
  have f: "po_sm (fill_order f (slot_of m i)) = PENDING"
    "od_status (po_order (fill_order f (slot_of m i))) = COMPLETE"
    using assms(4-6)
    by (simp_all add: fill_order_def Let_def transition_eq f_def build_fill_def i32_id)
  have "m' = deliver_fill f (upd_slot i (fill_order f) m)"
    using apply_fill_known [OF look f_def] f
    by (simp add: assms(7) on_fill_def dedup_guard_eq is_terminal_def)
  with f show ?thesis by (simp add: pool_available_def)
qed

section \<open>Acknowledgements\<close>

lemma ack_effect:
  assumes "map_of (om_orders m) oid = Some i" and "m' = on_order_ack ex oid m"
  shows "map_of (om_ex2int m') ex = Some oid \<and> od_status (po_order (slot_of m' i)) = OPEN
     \<and> po_sm (slot_of m' i) = (if is_legal (po_sm (slot_of m i)) OPEN then OPEN else po_sm (slot_of m i))"
  using assms by (simp add: on_order_ack_def update_conv' transition_eq)

text \<open>A repeated acknowledgement resets the status field of a partly filled order, not its machine.\<close>

lemma ack_status_diverges:
  assumes "map_of (om_orders m) oid = Some i" and "po_sm (slot_of m i) = PARTIAL"
    and "m' = on_order_ack ex oid m"
  shows "od_status (po_order (slot_of m' i)) = OPEN \<and> po_sm (slot_of m' i) = PARTIAL"
  using ack_effect [OF assms(1,3)] assms(2) by simp

section \<open>Failed placements\<close>

text \<open>
  The EMS error path gives the slot back and forgets the order, but the reject callback is told
  an empty order id and the state machine of the order never enters \<open>REJECTED\<close>.
\<close>

lemma place_error_anonymous:
  assumes inv: "oms_inv n k m" and "map_of (om_ex2int m) [] = None"
    and oid: "map_of (om_orders m) oid = Some i" and cb: "om_has_reject_cb m"
    and m': "m' = on_place_error oid reason m"
  shows "om_out m' = om_out m @ [RejectCb [] reason] \<and> map_of (om_orders m') oid = None
     \<and> i \<in> pool_free (om_pool m') \<and> po_sm (slot_of m' i) = po_sm (slot_of m i)
     \<and> po_sm (slot_of m' i) \<noteq> REJECTED"
proof -
  have "[] \<notin> fst ` set (om_orders m)"
    using inv by (force simp: oms_inv_def book_inv_def book_entry_ok_def)
  then have "map_of (om_orders m) [] = None" by (simp add: map_of_eq_None_iff)
  then have 1: "on_reject [] reason m = emit (RejectCb [] reason) m"
    using assms(2) cb by (simp add: on_reject_def Let_def)
  have "po_sm (slot_of m i) \<noteq> REJECTED"
    using live_entry(1) [OF inv oid] by (auto simp: is_terminal_def)
  then show ?thesis
    using oid by (simp add: m' on_place_error_def 1 delete_conv' pool_release_def pool_free_def)
qed

section \<open>Cancels\<close>

text \<open>
  The call \<open>cancel\<close> answers \<open>true\<close> exactly for an open or partly filled order with a known exchange id;
  it then sends one cancel for that order, and it never changes an order itself.
\<close>

lemma cancel_spec:
  assumes "\<forall>ex oid'. map_of (om_ex2int m) ex = Some oid' \<longrightarrow> ex \<noteq> []"
    and "distinct (map fst (om_ex2int m))"
  shows "(fst (cancel oid m) \<longleftrightarrow>
       (\<exists>i. map_of (om_orders m) oid = Some i \<and> is_cancellable (po_sm (slot_of m i)))
       \<and> (\<exists>ex. map_of (om_ex2int m) ex = Some oid))
     \<and> (fst (cancel oid m) \<longrightarrow>
       (\<exists>ex. map_of (om_ex2int m) ex = Some oid \<and> snd (cancel oid m) = emit (EmsCancel ex) m))
     \<and> (\<not> fst (cancel oid m) \<longrightarrow> snd (cancel oid m) = m)"
proof -
  have mem: "(ex, oid') \<in> set (om_ex2int m) \<longleftrightarrow> map_of (om_ex2int m) ex = Some oid'" for ex oid'
    using assms(2) by simp
  have f: "(case find (\<lambda>(exoid, iid). iid = oid) (om_ex2int m) of None \<Rightarrow> [] | Some (exoid, _) \<Rightarrow> exoid) \<noteq> []"
    if "map_of (om_ex2int m) ex = Some oid" for ex
  proof -
    have "(ex, oid) \<in> set (om_ex2int m)" using that mem by simp
    then have "find (\<lambda>(exoid, iid). iid = oid) (om_ex2int m) \<noteq> None"
      by (auto simp: find_None_iff)
    then obtain ex' iid where e: "find (\<lambda>(exoid, iid). iid = oid) (om_ex2int m) = Some (ex', iid)" by auto
    then have "(ex', iid) \<in> set (om_ex2int m)" by (auto simp: find_Some_iff) (metis nth_mem)
    with e assms(1) mem show ?thesis by auto
  qed
  show ?thesis
  proof (cases rule: cancel_cases [of oid m])
    case 1
    then have "\<not> ((\<exists>i. map_of (om_orders m) oid = Some i \<and> is_cancellable (po_sm (slot_of m i)))
       \<and> (\<exists>ex. map_of (om_ex2int m) ex = Some oid))"
      using f by (auto simp: cancel_def Let_def split: if_splits)
    with 1 show ?thesis by simp
  next
    case (2 i exoid)
    with mem show ?thesis by auto
  qed
qed

lemma cancel_list_frame:
  "om_orders (cancel_list oids m) = om_orders m \<and> om_pool (cancel_list oids m) = om_pool m
   \<and> om_ex2int (cancel_list oids m) = om_ex2int m"
proof (induction oids arbitrary: m)
  case (Cons oid oids)
  then show ?case by (cases rule: cancel_cases [of oid m]) auto
qed simp

text \<open>\<open>cancel_all_open\<close> only sends requests; every order it cancels stays open in the book.\<close>

lemma cancel_all_keeps_book:
  "om_orders (cancel_all_open m) = om_orders m \<and> om_pool (cancel_all_open m) = om_pool m
   \<and> open_order_count (cancel_all_open m) = open_order_count m"
  using cancel_list_frame [of "open_oids m" m] by (simp add: cancel_all_open_def open_order_count_def)

subsection \<open>No order is ever marked cancelled\<close>

definition none_cancelled :: "oms \<Rightarrow> bool" where
  "none_cancelled m \<longleftrightarrow> (\<forall>i. po_sm (slot_of m i) \<noteq> CANCELLED)"

lemma none_cancelled_upd:
  "none_cancelled m \<Longrightarrow> po_sm (f (slot_of m i)) \<noteq> CANCELLED \<Longrightarrow> none_cancelled (upd_slot i f m)"
  by (simp add: none_cancelled_def)

lemma none_cancelled_cong: "none_cancelled m \<Longrightarrow> om_pool m' = om_pool m \<Longrightarrow> none_cancelled m'"
  by (simp add: none_cancelled_def)

lemma none_cancelled_retire: "none_cancelled m \<Longrightarrow> none_cancelled (retire i oid ex m)"
  by (simp add: none_cancelled_def)

lemma transition_not_cancelled:
  "s \<noteq> CANCELLED \<Longrightarrow> st \<noteq> CANCELLED \<Longrightarrow> snd (transition s st) \<noteq> CANCELLED"
  by (simp add: transition_eq)

lemma fill_order_not_cancelled:
  "po_sm po \<noteq> CANCELLED \<Longrightarrow> po_sm (fill_order f po) \<noteq> CANCELLED"
  by (auto simp: fill_order_def Let_def transition_not_cancelled)

lemma none_cancelled_ack: "none_cancelled m \<Longrightarrow> none_cancelled (on_order_ack ex oid m)"
  by (auto simp: on_order_ack_def transition_not_cancelled none_cancelled_def split: option.splits)

lemma none_cancelled_apply_fill:
  assumes "none_cancelled m"
  shows "none_cancelled (apply_fill ex p q tid now m)"
proof (cases "map_of (om_orders m) (resolve_internal ex m)")
  case None
  with assms show ?thesis by (simp add: apply_fill_unknown)
next
  case (Some i)
  have "po_sm (fill_order f (slot_of m i)) \<noteq> CANCELLED" for f
    using assms by (simp add: none_cancelled_def fill_order_not_cancelled)
  then show ?thesis
    unfolding apply_fill_known [OF Some refl]
    using assms by (simp add: none_cancelled_def)
qed

lemma none_cancelled_fill:
  assumes "none_cancelled m"
  shows "none_cancelled (on_fill ex p q tid now m)"
proof -
  have "none_cancelled (snd (dedup_guard tid m))"
    using assms by (auto simp: dedup_guard_eq none_cancelled_def)
  then show ?thesis by (auto simp: on_fill_def split_beta none_cancelled_apply_fill)
qed

lemma none_cancelled_reject: "none_cancelled m \<Longrightarrow> none_cancelled (on_reject ex reason m)"
  by (auto simp: on_reject_def Let_def none_cancelled_def transition_not_cancelled split: option.splits)

lemma none_cancelled_entered:
  assumes "none_cancelled m" and "pool_acquire (om_pool m) = (Some i, pl)"
  shows "none_cancelled (entered req ck i pl m)"
proof -
  have "po_sm (pl_slots pl j) \<noteq> CANCELLED" for j
    using assms pool_acquire_zeroed [OF assms(2)] pool_acquire_others [OF assms(2), of j]
    by (cases "j = i") (auto simp: none_cancelled_def pooled_order_init_def)
  then show ?thesis by (simp add: entered_def Let_def none_cancelled_def)
qed

lemma none_cancelled_step:
  assumes "none_cancelled m"
  shows "none_cancelled (oms_step e m)"
proof (cases e)
  case (Submit req ck)
  obtain r pl where acq: "pool_acquire (om_pool m) = (r, pl)" by fastforce
  show ?thesis
  proof (cases r)
    case None
    with acq assms Submit show ?thesis by (simp add: submit_None)
  next
    case (Some i)
    with acq have "pool_acquire (om_pool m) = (Some i, pl)" by simp
    note ent = none_cancelled_entered [OF assms this]
    have emit: "none_cancelled (emit x m')" if "none_cancelled m'" for x m'
      using that by (simp add: none_cancelled_def)
    from submit_Some [OF \<open>pool_acquire (om_pool m) = (Some i, pl)\<close> refl] ent Submit show ?thesis
      by (auto simp: none_cancelled_fill none_cancelled_ack emit)
  qed
next
  case (PlaceError oid reason)
  with none_cancelled_reject [OF assms] show ?thesis
    by (auto simp: on_place_error_def Let_def none_cancelled_def split: option.splits)
next
  case (Cancel oid)
  then show ?thesis
    by (cases rule: cancel_cases [of oid m]) (auto intro: none_cancelled_cong [OF assms])
next
  case CancelAll
  then show ?thesis
    using cancel_all_keeps_book [of m] by (auto intro: none_cancelled_cong [OF assms])
qed (use assms in \<open>auto simp: none_cancelled_ack none_cancelled_fill none_cancelled_reject
    reset_for_eod_def intro: none_cancelled_cong\<close>)

text \<open>In no run of the OMS does the state machine of any order reach \<open>CANCELLED\<close>.\<close>

lemma never_cancelled: "po_sm (slot_of (oms_run es (oms_new n cap paper)) i) \<noteq> CANCELLED"
proof -
  have "none_cancelled m \<Longrightarrow> none_cancelled (oms_run es m)" for m
    by (induction es arbitrary: m) (auto intro: none_cancelled_step)
  moreover have "none_cancelled (oms_new n cap paper)"
    by (simp add: none_cancelled_def oms_new_def pool_new_def pooled_order_init_def)
  ultimately show ?thesis by (simp add: none_cancelled_def)
qed

section \<open>Examples\<close>

lemma fill_replay_ignored_witness:
  "let m = on_fill ''EX1'' 99 2 ''T1'' 11 live_oms
   in on_fill ''EX1'' 50 3 ''T1'' 12 m
        = m\<lparr>om_dedup := (om_dedup m)\<lparr>dd_duplicates := dd_duplicates (om_dedup m) + 1\<rparr>\<rparr>"
  using fill_replay_ignored [of "''T1''" "[]" "on_fill ''EX1'' 99 2 ''T1'' 11 live_oms" "''EX1''" 99 2 11 live_oms
      "''EX1''" 50 3 12] by simp

lemma early_fill_lost_witness:
  "let m' = on_fill ''EX9'' 99 5 ''T1'' 12 (on_order_ack ''EX9'' ''QF-5-0'' (on_fill ''EX9'' 99 5 ''T1'' 11 live_oms))
   in om_out m' = [] \<and> od_filled_qty (po_order (slot_of m' 0)) = 0"
  using early_fill_lost [of "''T1''" live_oms "''EX9''"
      "on_fill ''EX9'' 99 5 ''T1'' 12 (on_order_ack ''EX9'' ''QF-5-0'' (on_fill ''EX9'' 99 5 ''T1'' 11 live_oms))"
      99 5 12 "''QF-5-0''" 11 0]
  by (simp add: live_oms_def resolve_internal_def order_init_def)

definition pending_oms :: oms where
  \<comment> \<open>an order that is entered but not acknowledged\<close>
  "pending_oms = live_oms\<lparr>om_ex2int := [], om_pool := (om_pool live_oms)\<lparr>pl_slots :=
     (\<lambda>_. \<lparr>po_order = order_init\<lparr>od_order_id := ''QF-5-0'', od_quantity := 5\<rparr>, po_sm = PENDING\<rparr>)\<rparr>\<rparr>"

lemma pending_fill_leaks_witness:
  "let m' = on_fill ''UPSTX-QF-5-0'' 99 5 [] 11 pending_oms
   in od_status (po_order (slot_of m' 0)) = COMPLETE \<and> om_orders m' = [(''QF-5-0'', 0)]"
proof -
  have h: "map_of (om_ex2int pending_oms) ''UPSTX-QF-5-0'' = None" "6 < length ''UPSTX-QF-5-0''"
    "map_of (om_orders pending_oms) (drop 6 ''UPSTX-QF-5-0'') = Some 0"
    "po_sm (slot_of pending_oms 0) = PENDING" "in_i32 (od_filled_qty (po_order (slot_of pending_oms 0)) + 5)"
    "od_quantity (po_order (slot_of pending_oms 0)) \<le> od_filled_qty (po_order (slot_of pending_oms 0)) + 5"
    by (simp_all add: pending_oms_def live_oms_def order_init_def in_i32_def)
  have o: "om_orders pending_oms = [(''QF-5-0'', 0)]" by (simp add: pending_oms_def live_oms_def)
  show ?thesis
    using pending_fill_leaks [OF h refl, of 99 11] unfolding Let_def o by blast
qed

lemma ack_status_diverges_example:
  "od_status (po_order (slot_of (on_order_ack ''EX1'' ''QF-5-0'' (on_fill ''EX1'' 99 2 ''T1'' 11 live_oms)) 0)) = OPEN"
proof -
  let ?m = "on_fill ''EX1'' 99 2 ''T1'' 11 live_oms"
  have "map_of (om_orders ?m) ''QF-5-0'' = Some 0" "po_sm (slot_of ?m 0) = PARTIAL"
    by (simp_all add: on_fill_def dedup_guard_eq live_oms_def dedup_new_def apply_fill_def Let_def
        resolve_internal_def build_fill_def fill_order_def order_init_def i32_def transition_eq is_terminal_def)
  from ack_status_diverges [OF this refl] show ?thesis by simp
qed

definition entered_oms :: oms where
  \<comment> \<open>the first order of a session, sent to the exchange and not answered yet\<close>
  "entered_oms = live_oms\<lparr>om_orders := [(order_id_string 5 0, 0)], om_ex2int := [],
     om_pool := (om_pool live_oms)\<lparr>pl_slots := (\<lambda>_. \<lparr>po_order =
       order_init\<lparr>od_order_id := strncpy_buf MAX_ORDER_ID_LEN (order_id_string 5 0)\<rparr>, po_sm = PENDING\<rparr>)\<rparr>\<rparr>"

lemma entered_oms_inv: "oms_inv 1 4 entered_oms"
proof -
  have "spsc_inv 4 (spsc_new (2 ^ 4) fill_init)" by (rule spsc_inv_new) simp
  moreover have "\<exists>ts k. order_id_string 5 0 = order_id_string ts k \<and> k < (1 :: u64)"
    by (intro exI [of _ 5] exI [of _ 0]) simp
  ultimately show ?thesis
    by (simp add: oms_inv_def book_inv_def entered_oms_def live_oms_def pool_ok_def pool_free_def
        owned_table_def splits_def book_entry_ok_def is_terminal_def lessThan_Suc)
qed

lemma place_error_anonymous_witness:
  "om_out (on_place_error (order_id_string 5 0) ''HTTP 500'' entered_oms) = [RejectCb [] ''HTTP 500'']"
proof -
  have "map_of (om_ex2int entered_oms) [] = None" "om_has_reject_cb entered_oms" "om_out entered_oms = []"
    "map_of (om_orders entered_oms) (order_id_string 5 0) = Some 0"
    by (simp_all add: entered_oms_def live_oms_def)
  with place_error_anonymous [OF entered_oms_inv this(1) this(4) this(2) refl, of "''HTTP 500''"]
  show ?thesis by simp
qed

lemma cancel_spec_witness:
  "fst (cancel ''QF-5-0'' live_oms) \<and> snd (cancel ''QF-5-0'' live_oms) = emit (EmsCancel ''EX1'') live_oms"
proof -
  have l: "om_ex2int live_oms = [(''EX1'', ''QF-5-0'')]" "om_orders live_oms = [(''QF-5-0'', 0)]"
    "po_sm (slot_of live_oms 0) = OPEN" by (simp_all add: live_oms_def)
  have h: "\<forall>ex oid'. map_of (om_ex2int live_oms) ex = Some oid' \<longrightarrow> ex \<noteq> []"
    "distinct (map fst (om_ex2int live_oms))" by (simp_all add: l)
  have e: "map_of (om_ex2int live_oms) ex = Some ''QF-5-0'' \<longleftrightarrow> ex = ''EX1''" for ex by (simp add: l)
  have "\<exists>i. map_of (om_orders live_oms) ''QF-5-0'' = Some i \<and> is_cancellable (po_sm (slot_of live_oms i))"
    by (simp add: l is_cancellable_def)
  with cancel_spec [OF h, of "''QF-5-0''"] show ?thesis unfolding e by blast
qed

end
