(* ===== verification/QF_Token_Bucket.thy ===== *)
theory QF_Token_Bucket
  imports QF_Prelude
begin

text \<open>
  The token bucket of \<open>cpp/risk/token_bucket.hpp\<close>. The steady clock is an argument of every
  operation; the callers hold \<open>rl_mtx_\<close>, so a call is one step. A locale states what a caller
  relies on, a credit that pays for every grant, and proves the bound on grants from it.
\<close>

section \<open>Operations\<close>

record bucket =
  tb_max_rate :: int
  tb_burst :: int
  tb_tokens :: dbl
  tb_last_refill_ns :: u64

definition tb_burst_of :: "int \<Rightarrow> int \<Rightarrow> int" where
  "tb_burst_of max_rate burst = (if burst < 0 then i32 (max_rate * 2) else burst)"

definition tb_new :: "int \<Rightarrow> int \<Rightarrow> u64 \<Rightarrow> bucket" where
  "tb_new max_rate burst now =
     \<lparr>tb_max_rate = max_rate, tb_burst = tb_burst_of max_rate burst,
      tb_tokens = of_int (tb_burst_of max_rate burst), tb_last_refill_ns = now\<rparr>"

definition tb_try_consume :: "u64 \<Rightarrow> bucket \<Rightarrow> bool \<times> bucket" where
  "tb_try_consume now b =
     (let elapsed = real (unat (now - tb_last_refill_ns b)) / 1000000000;
          new_tokens = tb_tokens b + elapsed * of_int (tb_max_rate b);
          new_tokens = min new_tokens (of_int (tb_burst b));
          b = b\<lparr>tb_last_refill_ns := now, tb_tokens := new_tokens\<rparr>
      in if tb_tokens b \<ge> 1 then (True, b\<lparr>tb_tokens := tb_tokens b - 1\<rparr>) else (False, b))"

definition tb_reset :: "u64 \<Rightarrow> bucket \<Rightarrow> bucket" where
  "tb_reset now b = b\<lparr>tb_tokens := of_int (tb_burst b), tb_last_refill_ns := now\<rparr>"

section \<open>What a caller relies on\<close>

fun grants :: "(u64 \<Rightarrow> 'b \<Rightarrow> bool \<times> 'b) \<Rightarrow> u64 list \<Rightarrow> 'b \<Rightarrow> bool list \<times> 'b" where
  "grants consume [] b = ([], b)"
| "grants consume (t # ts) b =
     (let (g, b') = consume t b; (gs, b'') = grants consume ts b' in (g # gs, b''))"

text \<open>
  A limiter has a credit, a rate per nanosecond that no call changes and the time of its last call.
  A call at a later time lets the credit grow by the rate at most, and takes one if it grants.
\<close>

locale limiter =
  fixes consume :: "u64 \<Rightarrow> 'b \<Rightarrow> bool \<times> 'b"
    and credit :: "'b \<Rightarrow> real" and rate :: "'b \<Rightarrow> real" and last_ns :: "'b \<Rightarrow> u64" and ok :: "'b \<Rightarrow> bool"
  assumes ok_consume: "ok b \<Longrightarrow> last_ns b \<le> now \<Longrightarrow> ok (snd (consume now b))"
    and last_consume: "last_ns (snd (consume now b)) = now"
    and rate_consume: "rate (snd (consume now b)) = rate b"
    and pays: "ok b \<Longrightarrow> last_ns b \<le> now \<Longrightarrow>
      of_bool (fst (consume now b)) + credit (snd (consume now b))
        \<le> credit b + rate b * (real (unat now) - real (unat (last_ns b)))"
    and credit_nonneg: "ok b \<Longrightarrow> 0 \<le> credit b"
begin

lemma grants_bounded:
  "ok b \<Longrightarrow> sorted (last_ns b # ts) \<Longrightarrow> grants consume ts b = (gs, b') \<Longrightarrow>
     ok b' \<and> real (count_list gs True)
       \<le> credit b + rate b * (real (unat (last (last_ns b # ts))) - real (unat (last_ns b)))"
proof -
  have "ok b \<Longrightarrow> sorted (last_ns b # ts) \<Longrightarrow> grants consume ts b = (gs, b') \<Longrightarrow>
     ok b' \<and> last_ns b' = last (last_ns b # ts) \<and> real (count_list gs True) + credit b'
       \<le> credit b + rate b * (real (unat (last (last_ns b # ts))) - real (unat (last_ns b)))"
  proof (induction ts arbitrary: b gs)
    case (Cons t ts)
    obtain g b1 where c: "consume t b = (g, b1)" by fastforce
    obtain gs' where gs: "grants consume ts b1 = (gs', b')" "gs = g # gs'"
      using Cons.prems(3) c by (auto simp: Let_def split: prod.splits)
    have t: "last_ns b \<le> t" using Cons.prems(2) by simp
    have b1: "ok b1" "last_ns b1 = t" "rate b1 = rate b"
      using ok_consume [OF Cons.prems(1) t] last_consume [of t b] rate_consume [of t b] c by simp_all
    have "sorted (last_ns b1 # ts)" using Cons.prems(2) b1(2) by simp
    from Cons.IH [OF b1(1) this gs(1)] pays [OF Cons.prems(1) t] c b1 gs(2) show ?case
      by (auto simp: algebra_simps split: if_splits)
  qed auto
  then show "ok b \<Longrightarrow> sorted (last_ns b # ts) \<Longrightarrow> grants consume ts b = (gs, b') \<Longrightarrow>
     ok b' \<and> real (count_list gs True)
       \<le> credit b + rate b * (real (unat (last (last_ns b # ts))) - real (unat (last_ns b)))"
    using credit_nonneg [of b'] by force
qed

end

section \<open>The bucket keeps the contract\<close>

definition tb_ok :: "bucket \<Rightarrow> bool" where
  "tb_ok b \<longleftrightarrow> 0 \<le> tb_max_rate b \<and> 0 \<le> tb_tokens b \<and> tb_tokens b \<le> of_int (tb_burst b)"

definition tb_rate :: "bucket \<Rightarrow> real" where
  "tb_rate b = of_int (tb_max_rate b) / 1000000000"

definition refilled :: "u64 \<Rightarrow> bucket \<Rightarrow> dbl" where
  "refilled now b = min (tb_tokens b + real (unat (now - tb_last_refill_ns b)) / 1000000000
     * of_int (tb_max_rate b)) (of_int (tb_burst b))"

lemma tb_consume_eq:
  "tb_try_consume now b =
     (1 \<le> refilled now b, b\<lparr>tb_last_refill_ns := now,
        tb_tokens := refilled now b - of_bool (1 \<le> refilled now b)\<rparr>)"
  by (simp add: tb_try_consume_def refilled_def Let_def)

lemma tb_new_ok: "0 \<le> max_rate \<Longrightarrow> 0 \<le> tb_burst_of max_rate burst \<Longrightarrow> tb_ok (tb_new max_rate burst now)"
  by (simp add: tb_ok_def tb_new_def)

lemma refilled_nonneg: "tb_ok b \<Longrightarrow> 0 \<le> refilled now b"
  unfolding refilled_def tb_ok_def
  by (simp del: of_nat_unat)

lemma tb_consume_ok:
  assumes "tb_ok b"
  shows "tb_ok (snd (tb_try_consume now b))"
proof -
  have "refilled now b \<le> of_int (tb_burst b)" by (simp add: refilled_def)
  then show ?thesis
    using assms refilled_nonneg [OF assms, of now] by (auto simp: tb_consume_eq tb_ok_def)
qed

lemma tb_consume_fields [simp]:
  "tb_max_rate (snd (tb_try_consume now b)) = tb_max_rate b"
  "tb_burst (snd (tb_try_consume now b)) = tb_burst b"
  "tb_last_refill_ns (snd (tb_try_consume now b)) = now"
  by (simp_all add: tb_consume_eq)

lemma tb_consume_pays:
  assumes "tb_last_refill_ns b \<le> now"
  shows "of_bool (fst (tb_try_consume now b)) + tb_tokens (snd (tb_try_consume now b))
     \<le> tb_tokens b + tb_rate b * (real (unat now) - real (unat (tb_last_refill_ns b)))"
proof -
  have "real (unat (now - tb_last_refill_ns b)) = real (unat now) - real (unat (tb_last_refill_ns b))"
    using assms by (simp add: unat_sub word_le_nat_alt of_nat_diff)
  then have "refilled now b \<le> tb_tokens b + tb_rate b * (real (unat now) - real (unat (tb_last_refill_ns b)))"
  proof -
    assume d: "real (unat (now - tb_last_refill_ns b)) = real (unat now) - real (unat (tb_last_refill_ns b))"
    have "refilled now b \<le> tb_tokens b + real (unat (now - tb_last_refill_ns b)) / 1000000000 * of_int (tb_max_rate b)"
      unfolding refilled_def by (rule min.cobounded1)
    then show ?thesis unfolding d tb_rate_def by (simp add: mult.commute)
  qed
  then show ?thesis by (simp add: tb_consume_eq)
qed

interpretation tb: limiter tb_try_consume tb_tokens tb_rate tb_last_refill_ns tb_ok
  by unfold_locales
    (simp_all only: tb_consume_ok tb_consume_fields tb_rate_def tb_consume_pays [unfolded tb_rate_def],
     simp add: tb_ok_def)

text \<open>
  Over any window of calls at nondecreasing times, the grants number at most the tokens at its
  start, at most the burst, plus the rate times the length of the window.
\<close>

lemma tb_rate_bound:
  assumes "tb_ok b" and "sorted (tb_last_refill_ns b # ts)"
  shows "real (count_list (fst (grants tb_try_consume ts b)) True)
     \<le> of_int (tb_burst b) + of_int (tb_max_rate b)
         * (real (unat (last (tb_last_refill_ns b # ts))) - real (unat (tb_last_refill_ns b))) / 1000000000"
proof -
  obtain gs b' where gs: "grants tb_try_consume ts b = (gs, b')" by fastforce
  from tb.grants_bounded [OF assms gs] assms(1) gs show ?thesis
    by (simp add: tb_ok_def tb_rate_def)
qed

lemma tb_rate_bound_witness:
  "real (count_list (fst (grants tb_try_consume [0, 0, 0, 1000000000] (tb_new 1 (- 1) 0))) True)
     \<le> of_int (tb_burst (tb_new 1 (- 1) 0)) + of_int (tb_max_rate (tb_new 1 (- 1) 0))
         * (real (unat (last (tb_last_refill_ns (tb_new 1 (- 1) 0) # [0, 0, 0, 1000000000])))
            - real (unat (tb_last_refill_ns (tb_new 1 (- 1) 0)))) / 1000000000"
proof (rule tb_rate_bound)
  show "tb_ok (tb_new 1 (- 1) 0)"
    by (intro tb_new_ok) (simp_all add: tb_burst_of_def i32_def)
  show "sorted (tb_last_refill_ns (tb_new 1 (- 1) 0) # [0, 0, 0, 1000000000])"
    by (simp add: tb_new_def)
qed

text \<open>A call at least \<open>1 / max_rate\<close> seconds after the last one is granted, whatever happened before.\<close>

lemma tb_grants_after:
  assumes "tb_ok b" and "1 \<le> tb_burst b" and "tb_last_refill_ns b \<le> now"
    and "1000000000 \<le> real_of_int (tb_max_rate b) * real (unat now - unat (tb_last_refill_ns b))"
  shows "fst (tb_try_consume now b)"
  using assms by (simp add: tb_consume_eq refilled_def tb_ok_def unat_sub word_le_nat_alt field_simps)

end
