(* ===== verification/QF_Risk.thy ===== *)
theory QF_Risk
  imports QF_Types QF_Token_Bucket
begin

text \<open>
  The pre-trade risk gate of \<open>cpp/risk/pre_trade_risk.hpp\<close> and \<open>.cpp\<close>: market hours, the kill
  switches, the rate limiters per strategy, the price cache and the ordered checks of \<open>check\<close>. The
  wall clock (a \<open>time_t\<close>, seconds since the epoch) and the steady clock are arguments. \<open>configure\<close>
  and \<open>check\<close> hold \<open>rl_mtx_\<close>, so each is one step of \<open>risk_step\<close>.
\<close>

section \<open>Market hours\<close>

definition gm_hour :: "int \<Rightarrow> int" where
  "gm_hour tt = tt mod 86400 div 3600"

definition gm_min :: "int \<Rightarrow> int" where
  "gm_min tt = tt mod 3600 div 60"

definition gm_wday :: "int \<Rightarrow> int" where
  \<comment> \<open>the epoch was a Thursday; 0 is Sunday\<close>
  "gm_wday tt = (tt div 86400 + 4) mod 7"

definition is_open :: "int \<Rightarrow> bool" where
  "is_open tt =
     (let h = (gm_hour tt + 5) mod 24;
          m = (gm_min tt + 30) mod 60;
          (h, m) = (if m \<ge> 60 then ((h + 1) mod 24, m - 60) else (h, m));
          hhmm = h * 100 + m;
          wday = gm_wday tt
      in if wday = 0 \<or> wday = 6 then False else hhmm \<ge> 915 \<and> hhmm < 1530)"

section \<open>State\<close>

record risk_engine =
  re_global_kill_switch :: bool
  re_halted_strategies :: "string set"
  re_rate_limiters :: "(string \<times> bucket) list"
  re_price_cache :: "(u64 \<times> dbl) list"

definition risk_new :: risk_engine where
  "risk_new = \<lparr>re_global_kill_switch = False, re_halted_strategies = {}, re_rate_limiters = [],
     re_price_cache = []\<rparr>"

section \<open>Operations\<close>

fun emplace_limiters :: "strategy_config list \<Rightarrow> u64 \<Rightarrow> (string \<times> bucket) list \<Rightarrow> (string \<times> bucket) list" where
  "emplace_limiters [] now rls = rls"
| "emplace_limiters (scfg # scfgs) now rls = emplace_limiters scfgs now
     (if map_of rls (sc_id scfg) = None
      then AList.update (sc_id scfg) (tb_new (rl_max_orders_per_second (sc_risk scfg)) (-1) now) rls
      else rls)"

definition configure :: "engine_config \<Rightarrow> u64 \<Rightarrow> risk_engine \<Rightarrow> risk_engine" where
  "configure cfg now re =
     re\<lparr>re_rate_limiters := emplace_limiters (ec_strategies cfg) now (re_rate_limiters re)\<rparr>"

definition engage_global_kill_switch :: "risk_engine \<Rightarrow> risk_engine" where
  "engage_global_kill_switch re = re\<lparr>re_global_kill_switch := True\<rparr>"

definition disengage_global_kill_switch :: "risk_engine \<Rightarrow> risk_engine" where
  "disengage_global_kill_switch re = re\<lparr>re_global_kill_switch := False\<rparr>"

definition is_global_killed :: "risk_engine \<Rightarrow> bool" where
  "is_global_killed re = re_global_kill_switch re"

definition is_strategy_halted :: "string \<Rightarrow> risk_engine \<Rightarrow> bool" where
  "is_strategy_halted sid re \<longleftrightarrow> sid \<in> re_halted_strategies re"

definition update_price :: "u64 \<Rightarrow> dbl \<Rightarrow> risk_engine \<Rightarrow> risk_engine" where
  "update_price tok price re = re\<lparr>re_price_cache := AList.update tok price (re_price_cache re)\<rparr>"

definition current_price :: "u64 \<Rightarrow> risk_engine \<Rightarrow> dbl" where
  "current_price tok re = (case map_of (re_price_cache re) tok of None \<Rightarrow> 0 | Some p \<Rightarrow> p)"

definition rate_check :: "string \<Rightarrow> u64 \<Rightarrow> risk_engine \<Rightarrow> bool \<times> risk_engine" where
  "rate_check sid now re =
     (case map_of (re_rate_limiters re) sid of
        None \<Rightarrow> (True, re)
      | Some b \<Rightarrow> (let (granted, b') = tb_try_consume now b
          in (granted, re\<lparr>re_rate_limiters := AList.update sid b' (re_rate_limiters re)\<rparr>)))"

definition signed_delta :: "order_request \<Rightarrow> int" where
  "signed_delta req = (if rq_side req = BUY then rq_quantity req else i32 (- rq_quantity req))"

definition limit_checks :: "order_request \<Rightarrow> strategy_config \<Rightarrow> snapshot \<Rightarrow> dbl \<Rightarrow> risk_decision" where
  "limit_checks req scfg portfolio ltp =
     (let sid = rq_strategy_id req;
          new_qty = i32 (ps_quantity (snapshot_get_position portfolio (rq_token req)) + signed_delta req)
      in if ltp > 0 \<and> of_int (rq_quantity req) * ltp > rl_max_single_order_value (sc_risk scfg)
         then REJECT_POSITION_LIMIT
         else if ltp > 0 \<and> of_int (abs32 new_qty) * ltp > rl_max_position_value (sc_risk scfg)
         then REJECT_POSITION_LIMIT
         else if ltp > 0 \<and> strategy_used_capital portfolio sid + of_int (rq_quantity req) * ltp
             > rl_max_capital_allocation (sc_risk scfg)
         then REJECT_CAPITAL
         else if rq_order_type req = LIMIT \<and> ltp > 0 \<and> rq_limit_price req > 0
             \<and> \<bar>rq_limit_price req - ltp\<bar> / ltp > 5 / 100
         then REJECT_PRICE_SANITY
         else if strategy_daily_pnl portfolio sid < - rl_max_daily_loss (sc_risk scfg)
         then REJECT_DAILY_LOSS
         else PASS)"

definition check :: "order_request \<Rightarrow> strategy_config \<Rightarrow> snapshot \<Rightarrow> int \<Rightarrow> u64 \<Rightarrow> risk_engine
    \<Rightarrow> risk_decision \<times> risk_engine" where
  "check req scfg portfolio tt now re =
     (if re_global_kill_switch re then (REJECT_KILL_SWITCH, re)
      else if is_strategy_halted (rq_strategy_id req) re then (REJECT_KILL_SWITCH, re)
      else if \<not> is_open tt then (REJECT_MARKET_CLOSED, re)
      else let (granted, re) = rate_check (rq_strategy_id req) now re
        in if \<not> granted then (REJECT_RATE_LIMIT, re)
           else (limit_checks req scfg portfolio (current_price (rq_token req) re), re))"

definition check_greeks :: "snapshot \<Rightarrow> strategy_config \<Rightarrow> risk_decision" where
  "check_greeks portfolio scfg =
     (let mine = (\<lambda>p. strncmp_eq MAX_STRATEGY_LEN (ps_strategy_id p) (sc_id scfg));
          net_delta = sum_positions mine ps_net_delta (sn_positions portfolio) 0;
          net_vega = sum_positions mine ps_net_vega (sn_positions portfolio) 0
      in if \<bar>net_delta\<bar> > rl_max_net_delta (sc_risk scfg) then REJECT_GREEK_LIMIT
         else if \<bar>net_vega\<bar> > rl_max_net_vega (sc_risk scfg) then REJECT_GREEK_LIMIT
         else PASS)"

datatype risk_event =
  Configure engine_config u64
| UpdatePrice u64 dbl
| Check order_request strategy_config snapshot int u64
| Engage
| Disengage

fun risk_step :: "risk_event \<Rightarrow> risk_engine \<Rightarrow> risk_decision option \<times> risk_engine" where
  "risk_step (Configure cfg now) re = (None, configure cfg now re)"
| "risk_step (UpdatePrice tok price) re = (None, update_price tok price re)"
| "risk_step (Check req scfg pf tt now) re =
     (let (d, re') = check req scfg pf tt now re in (Some d, re'))"
| "risk_step Engage re = (None, engage_global_kill_switch re)"
| "risk_step Disengage re = (None, disengage_global_kill_switch re)"

fun risk_run :: "risk_event list \<Rightarrow> risk_engine \<Rightarrow> (risk_event \<times> risk_decision) list" where
  "risk_run [] re = []"
| "risk_run (e # es) re =
     (let (d, re') = risk_step e re
      in (case d of None \<Rightarrow> [] | Some d \<Rightarrow> [(e, d)]) @ risk_run es re')"

end
