(* ===== verification/QF_Risk_Props.thy ===== *)
theory QF_Risk_Props
  imports QF_Risk
begin

text \<open>
  What the risk gate promises: when the market counts as open, which orders pass, that the kill
  switch stops everything, and how many orders of a strategy pass in a stretch of time.
\<close>

section \<open>Market hours\<close>

definition ist_minute :: "int \<Rightarrow> int" where
  \<comment> \<open>minutes since midnight in India, five and a half hours ahead of UTC\<close>
  "ist_minute tt = (tt div 60 + 330) mod 1440"

lemma gm_minute_of_day:
  "gm_hour tt = tt div 60 mod 1440 div 60" "gm_min tt = tt div 60 mod 1440 mod 60"
proof -
  have "tt mod (60 * 1440) = 60 * (tt div 60 mod 1440) + tt mod 60"
    by (rule zmod_zmult2_eq) simp
  then have "tt mod 86400 div 60 = tt div 60 mod 1440" by simp
  then show "gm_hour tt = tt div 60 mod 1440 div 60"
    unfolding gm_hour_def by (simp add: zdiv_zmult2_eq [of 60 _ 60, simplified])
  have "tt mod (60 * 60) = 60 * (tt div 60 mod 60) + tt mod 60"
    by (rule zmod_zmult2_eq) simp
  then have "tt mod 3600 div 60 = tt div 60 mod 60" by simp
  then show "gm_min tt = tt div 60 mod 1440 mod 60"
    unfolding gm_min_def by (simp add: mod_mod_cancel)
qed

lemma mod_if: "0 \<le> x \<Longrightarrow> x < 2 * n \<Longrightarrow> x mod n = (if x < n then x else x - n)" for x n :: int
  by (simp add: mod_pos_pos_trivial) (metis add.commute diff_add_cancel mod_add_self1
      mod_pos_pos_trivial diff_ge_0_iff_ge linorder_not_less mult_2 add_less_cancel_right)

text \<open>
  C37: the gate takes the market for open exactly on UTC weekdays between 9:30 and 10:00, 10:15 and
  15:30, and 16:00 and 16:30 Indian time: the carry of the half hour into the hour is lost, so the
  first quarter of an hour of the session is closed and half an hour after it is open.
\<close>

lemma market_hours_exact:
  "is_open tt \<longleftrightarrow> gm_wday tt \<in> {1..5} \<and>
     ist_minute tt \<in> {9 * 60 + 30..<10 * 60} \<union> {10 * 60 + 15..<15 * 60 + 30} \<union> {16 * 60..<16 * 60 + 30}"
proof -
  define u where "u = tt div 60 mod 1440"
  define h r where "h = u div 60" and "r = u mod 60"
  have u: "u = 60 * h + r" "0 \<le> r" "r < 60" "0 \<le> h" "h < 24"
    by (simp_all add: h_def r_def u_def)
  have day: "gm_wday tt \<in> {0..6}" by (simp add: gm_wday_def)
  have ist: "ist_minute tt = (if u + 330 < 1440 then u + 330 else u + 330 - 1440)"
  proof -
    have "ist_minute tt = (u + 330) mod 1440" by (simp add: ist_minute_def u_def mod_simps)
    also have "\<dots> = (if u + 330 < 1440 then u + 330 else u + 330 - 1440)"
      using u by (intro mod_if) auto
    finally show ?thesis .
  qed
  have hm: "(gm_hour tt + 5) mod 24 = (if h + 5 < 24 then h + 5 else h + 5 - 24)"
    "(gm_min tt + 30) mod 60 = (if r + 30 < 60 then r + 30 else r + 30 - 60)"
    unfolding gm_minute_of_day u_def [symmetric] h_def [symmetric] r_def [symmetric]
    by (rule mod_if; use u in simp)+
  have t: "is_open tt \<longleftrightarrow> gm_wday tt \<noteq> 0 \<and> gm_wday tt \<noteq> 6
      \<and> 915 \<le> (gm_hour tt + 5) mod 24 * 100 + (gm_min tt + 30) mod 60
      \<and> (gm_hour tt + 5) mod 24 * 100 + (gm_min tt + 30) mod 60 < 1530"
    by (simp add: is_open_def Let_def split: prod.split)
  have "(915 \<le> (gm_hour tt + 5) mod 24 * 100 + (gm_min tt + 30) mod 60
      \<and> (gm_hour tt + 5) mod 24 * 100 + (gm_min tt + 30) mod 60 < 1530) \<longleftrightarrow>
      ist_minute tt \<in> {9 * 60 + 30..<10 * 60} \<union> {10 * 60 + 15..<15 * 60 + 30} \<union> {16 * 60..<16 * 60 + 30}"
  proof -
    have "h = 0 \<or> h = 1 \<or> h = 2 \<or> h = 3 \<or> h = 4 \<or> h = 5 \<or> h = 6 \<or> h = 7 \<or> h = 8 \<or> h = 9
      \<or> h = 10 \<or> h = 11 \<or> 12 \<le> h" using u(4) by presburger
    then show ?thesis
      unfolding ist hm using u(1-3,5) by (elim disjE) (auto split: if_splits)
  qed
  moreover have "gm_wday tt \<noteq> 0 \<and> gm_wday tt \<noteq> 6 \<longleftrightarrow> gm_wday tt \<in> {1..5}"
    using day by auto
  ultimately show ?thesis unfolding t by blast
qed

section \<open>Which orders pass\<close>

lemma rate_check_eq:
  "rate_check sid now re = (case map_of (re_rate_limiters re) sid of None \<Rightarrow> (True, re)
     | Some b \<Rightarrow> (fst (tb_try_consume now b), re\<lparr>re_rate_limiters :=
         AList.update sid (snd (tb_try_consume now b)) (re_rate_limiters re)\<rparr>))"
  by (simp add: rate_check_def split_beta split: option.split)

lemma rate_check_frame [simp]:
  "re_global_kill_switch (snd (rate_check sid now re)) = re_global_kill_switch re"
  "re_halted_strategies (snd (rate_check sid now re)) = re_halted_strategies re"
  "re_price_cache (snd (rate_check sid now re)) = re_price_cache re"
  "current_price tok (snd (rate_check sid now re)) = current_price tok re"
  by (simp_all add: rate_check_eq current_price_def split: option.split)

lemma check_eq:
  "check req scfg pf tt now re =
     (if re_global_kill_switch re \<or> is_strategy_halted (rq_strategy_id req) re
      then (REJECT_KILL_SWITCH, re)
      else if \<not> is_open tt then (REJECT_MARKET_CLOSED, re)
      else (if fst (rate_check (rq_strategy_id req) now re)
            then limit_checks req scfg pf (current_price (rq_token req) re) else REJECT_RATE_LIMIT,
            snd (rate_check (rq_strategy_id req) now re)))"
  by (auto simp: check_def Let_def split_beta)

text \<open>
  The exposure an order would leave: its own value, the position it leads to and the capital of the
  strategy, each within the limits of the strategy, at the last price the gate has seen.
\<close>

definition within_limits :: "order_request \<Rightarrow> risk_limits \<Rightarrow> snapshot \<Rightarrow> dbl \<Rightarrow> bool" where
  "within_limits req rl pf ltp \<longleftrightarrow>
     of_int (rq_quantity req) * ltp \<le> rl_max_single_order_value rl
     \<and> of_int \<bar>ps_quantity (snapshot_get_position pf (rq_token req))
          + (if rq_side req = BUY then 1 else - 1) * rq_quantity req\<bar> * ltp \<le> rl_max_position_value rl
     \<and> strategy_used_capital pf (rq_strategy_id req) + of_int (rq_quantity req) * ltp
          \<le> rl_max_capital_allocation rl
     \<and> (rq_order_type req = LIMIT \<and> 0 < rq_limit_price req
          \<longrightarrow> rq_limit_price req \<in> {ltp * (95 / 100)..ltp * (105 / 100)})"

lemma signed_delta_eq:
  "in_i32 (- rq_quantity req) \<Longrightarrow>
     signed_delta req = (if rq_side req = BUY then 1 else - 1) * rq_quantity req"
  by (simp add: signed_delta_def i32_id)

lemma sanity_iff:
  fixes p ltp :: real
  assumes "0 < ltp"
  shows "\<bar>p - ltp\<bar> / ltp \<le> 5 / 100 \<longleftrightarrow> p \<in> {ltp * (95 / 100)..ltp * (105 / 100)}"
  using assms by (simp only: pos_divide_le_eq) (auto simp: abs_if split: if_splits)

lemma limit_checks_pass:
  assumes "in_i32 (rq_quantity req)" and "in_i32 (- rq_quantity req)"
    and "\<bar>ps_quantity (snapshot_get_position pf (rq_token req))
          + (if rq_side req = BUY then 1 else - 1) * rq_quantity req\<bar> < 2147483648"
  shows "limit_checks req scfg pf ltp = PASS \<longleftrightarrow>
     (0 < ltp \<longrightarrow> within_limits req (sc_risk scfg) pf ltp)
     \<and> - rl_max_daily_loss (sc_risk scfg) \<le> strategy_daily_pnl pf (rq_strategy_id req)"
proof -
  define d where "d = (if rq_side req = BUY then 1 else - 1) * rq_quantity req"
  define q where "q = ps_quantity (snapshot_get_position pf (rq_token req))"
  have a: "abs32 (i32 (q + d)) = \<bar>q + d\<bar>"
  proof -
    have "\<bar>q + d\<bar> < 2147483648" using assms(3) by (simp add: d_def q_def)
    then have "in_i32 (q + d)" "in_i32 \<bar>q + d\<bar>" by (auto simp: in_i32_def)
    then show ?thesis by (simp add: abs32_def i32_id)
  qed
  have s: "signed_delta req = d" using signed_delta_eq [OF assms(2)] by (simp add: d_def)
  show ?thesis
  proof (cases "0 < ltp")
    case True
    then show ?thesis
      using sanity_iff [OF True, of "rq_limit_price req"]
      by (auto simp: limit_checks_def Let_def s q_def [symmetric] a within_limits_def
          d_def [symmetric] not_less)
  next
    case False
    then show ?thesis by (simp add: limit_checks_def Let_def not_less)
  qed
qed

text \<open>
  C4: an order passes exactly when nothing is killed, the market counts as open, the strategy's
  limiter grants, the exposure is within limits where a positive price is known, and the daily loss
  is within limits.
\<close>

lemma check_passes_iff:
  assumes "in_i32 (rq_quantity req)" and "in_i32 (- rq_quantity req)"
    and "\<bar>ps_quantity (snapshot_get_position pf (rq_token req))
          + (if rq_side req = BUY then 1 else - 1) * rq_quantity req\<bar> < 2147483648"
  shows "fst (check req scfg pf tt now re) = PASS \<longleftrightarrow>
     \<not> re_global_kill_switch re \<and> rq_strategy_id req \<notin> re_halted_strategies re \<and> is_open tt
     \<and> (\<forall>b. map_of (re_rate_limiters re) (rq_strategy_id req) = Some b \<longrightarrow> 1 \<le> refilled now b)
     \<and> (0 < current_price (rq_token req) re
         \<longrightarrow> within_limits req (sc_risk scfg) pf (current_price (rq_token req) re))
     \<and> - rl_max_daily_loss (sc_risk scfg) \<le> strategy_daily_pnl pf (rq_strategy_id req)"
proof -
  have "fst (rate_check (rq_strategy_id req) now re) \<longleftrightarrow>
      (\<forall>b. map_of (re_rate_limiters re) (rq_strategy_id req) = Some b \<longrightarrow> 1 \<le> refilled now b)"
    by (simp add: rate_check_eq tb_consume_eq split: option.split)
  then show ?thesis
    using limit_checks_pass [OF assms, of scfg "current_price (rq_token req) re"]
    by (simp add: check_eq is_strategy_halted_def)
qed

lemma check_passes_iff_witness:
  "fst (check (order_request_init 7) strategy_config_init snapshot_init 4 0 risk_new) = PASS \<longleftrightarrow>
     is_open 4"
  using check_passes_iff [of "order_request_init 7" snapshot_init strategy_config_init 4 0 risk_new]
  by (simp add: order_request_init_def snapshot_get_position_def snapshot_init_def position_init_def
      in_i32_def risk_new_def current_price_def strategy_daily_pnl_def strategy_config_init_def
      risk_limits_init_def)

text \<open>
  While no price of the instrument is known, or the last one seen is zero, the size of an order is
  not looked at: any two quantities get the same answer.
\<close>

lemma unpriced_quantity_ignored:
  assumes "current_price (rq_token req) re \<le> 0"
  shows "check (req\<lparr>rq_quantity := q\<rparr>) scfg pf tt now re = check req scfg pf tt now re"
  using assms by (simp add: check_eq limit_checks_def Let_def not_less)

text \<open>
  An order that fails a later check has used up a token of its strategy all the same; only the
  kill switches and the market hours come before the limiter.
\<close>

lemma rejected_order_costs_token:
  assumes "fst (check req scfg pf tt now re) \<in> {REJECT_POSITION_LIMIT, REJECT_CAPITAL,
       REJECT_PRICE_SANITY, REJECT_DAILY_LOSS}"
    and "map_of (re_rate_limiters re) (rq_strategy_id req) = Some b"
  shows "map_of (re_rate_limiters (snd (check req scfg pf tt now re))) (rq_strategy_id req)
     = Some (b\<lparr>tb_last_refill_ns := now, tb_tokens := refilled now b - 1\<rparr>)"
  using assms by (auto simp: check_eq rate_check_eq tb_consume_eq update_conv' split: if_splits)

definition priced_engine :: risk_engine where
  \<comment> \<open>one limiter of one order a second, instrument 7 last seen at 30000\<close>
  "priced_engine = \<lparr>re_global_kill_switch = False, re_halted_strategies = {},
     re_rate_limiters = [(''momentum'', tb_new 1 (- 1) 0)], re_price_cache = [(7, 30000)]\<rparr>"

definition momentum_order :: "int \<Rightarrow> order_request" where
  "momentum_order q = (order_request_init 7)\<lparr>rq_strategy_id := ''momentum'', rq_quantity := q\<rparr>"

lemma rejected_order_costs_token_witness:
  "map_of (re_rate_limiters (snd (check (momentum_order 1) strategy_config_init snapshot_init
       363600 1000 priced_engine))) ''momentum''
     = Some (tb_new 1 (- 1) 0\<lparr>tb_last_refill_ns := 1000, tb_tokens := refilled 1000 (tb_new 1 (- 1) 0) - 1\<rparr>)"
proof -
  have r: "1 \<le> refilled 1000 (tb_new 1 (- 1) 0)"
    by (simp add: refilled_def tb_new_def tb_burst_of_def i32_def)
  have id: "rq_strategy_id (momentum_order 1) = ''momentum''" by (simp add: momentum_order_def)
  have o: "is_open 363600" by (simp add: is_open_def gm_hour_def gm_min_def gm_wday_def)
  have "fst (check (momentum_order 1) strategy_config_init snapshot_init 363600 1000 priced_engine)
      = REJECT_POSITION_LIMIT"
    using r o by (simp add: check_eq rate_check_eq tb_consume_eq priced_engine_def momentum_order_def
        order_request_init_def is_strategy_halted_def limit_checks_def current_price_def
        strategy_config_init_def risk_limits_init_def)
  then show ?thesis
    using rejected_order_costs_token [of "momentum_order 1" strategy_config_init snapshot_init 363600
        1000 priced_engine "tb_new 1 (- 1) 0"] id
    by (simp add: priced_engine_def)
qed

text \<open>The identifier of a request fits 31 characters; a longer configured one is never limited.\<close>

lemma long_id_not_limited:
  assumes "\<forall>sid \<in> fst ` set (re_rate_limiters re). 31 < length sid"
    and "rq_strategy_id req = strncpy_buf MAX_STRATEGY_LEN s"
  shows "snd (check req scfg pf tt now re) = re
     \<and> fst (check req scfg pf tt now re) \<noteq> REJECT_RATE_LIMIT"
proof -
  have "length (rq_strategy_id req) \<le> 31"
    using length_strncpy [of MAX_STRATEGY_LEN s] assms(2) by (simp add: MAX_STRATEGY_LEN_def)
  then have "map_of (re_rate_limiters re) (rq_strategy_id req) = None"
    using assms(1) by (force simp: map_of_eq_None_iff)
  then show ?thesis by (auto simp: check_eq rate_check_eq limit_checks_def Let_def)
qed

section \<open>Runs\<close>

lemma risk_run_Cons:
  "risk_run (e # es) re = (case fst (risk_step e re) of None \<Rightarrow> [] | Some d \<Rightarrow> [(e, d)])
     @ risk_run es (snd (risk_step e re))"
  by (simp add: Let_def split_beta)

declare risk_run.simps(2) [simp del]

lemma risk_step_killed:
  assumes "re_global_kill_switch re" and "e \<noteq> Disengage"
  shows "re_global_kill_switch (snd (risk_step e re))"
    and "\<forall>d. fst (risk_step e re) = Some d \<longrightarrow> d = REJECT_KILL_SWITCH"
  using assms by (cases e; simp add: configure_def update_price_def engage_global_kill_switch_def
      check_eq)+

text \<open>
  From the moment the global kill switch is engaged until it is disengaged, every check answers
  \<open>REJECT_KILL_SWITCH\<close>, whatever is configured, priced or checked in between.
\<close>

lemma kill_switch_stops_all:
  assumes "Disengage \<notin> set es"
  shows "\<forall>(e, d) \<in> set (risk_run es (engage_global_kill_switch re)). d = REJECT_KILL_SWITCH"
proof -
  have "\<forall>(e, d) \<in> set (risk_run es re). d = REJECT_KILL_SWITCH" if "re_global_kill_switch re" for re
    using assms that
  proof (induction es arbitrary: re)
    case (Cons e es)
    then have "e \<noteq> Disengage" by auto
    note k = risk_step_killed [OF Cons.prems(2) this]
    have "\<forall>(e, d) \<in> set (risk_run es (snd (risk_step e re))). d = REJECT_KILL_SWITCH"
      using Cons k(1) by simp
    moreover have "fst (risk_step e re) \<in> {None, Some REJECT_KILL_SWITCH}"
      using k(2) by (cases "fst (risk_step e re)") auto
    ultimately show ?case by (auto simp: risk_run_Cons)
  qed simp
  from this [of "engage_global_kill_switch re"] show ?thesis
    by (simp add: engage_global_kill_switch_def)
qed

lemma kill_switch_stops_all_witness:
  "list_all (\<lambda>d. d = REJECT_KILL_SWITCH) (map snd (risk_run [UpdatePrice 7 100,
      Check (order_request_init 7) strategy_config_init snapshot_init 0 0, Engage]
      (engage_global_kill_switch risk_new)))"
proof -
  have "Disengage \<notin> set [UpdatePrice 7 100,
      Check (order_request_init 7) strategy_config_init snapshot_init 0 0, Engage]" by simp
  from kill_switch_stops_all [OF this, of risk_new] show ?thesis
    unfolding list_all_iff by auto
qed

subsection \<open>The rate of a strategy\<close>

fun check_times :: "string \<Rightarrow> risk_event list \<Rightarrow> u64 list" where
  "check_times sid [] = []"
| "check_times sid (Check req scfg pf tt now # es) =
     (if rq_strategy_id req = sid then now # check_times sid es else check_times sid es)"
| "check_times sid (e # es) = check_times sid es"

definition passed :: "string \<Rightarrow> (risk_event \<times> risk_decision) list \<Rightarrow> nat" where
  "passed sid out = length (filter (\<lambda>(e, d). d = PASS \<and> check_times sid [e] \<noteq> []) out)"

text \<open>\<open>spent b n b'\<close>: the limiter went from \<open>b\<close> to \<open>b'\<close> and granted at least \<open>n\<close> times.\<close>

definition spent :: "bucket \<Rightarrow> nat \<Rightarrow> bucket \<Rightarrow> bool" where
  "spent b n b' \<longleftrightarrow> tb_ok b' \<and> tb_max_rate b' = tb_max_rate b \<and> tb_last_refill_ns b \<le> tb_last_refill_ns b'
     \<and> real n + tb_tokens b' \<le> tb_tokens b
         + tb_rate b * (real (unat (tb_last_refill_ns b')) - real (unat (tb_last_refill_ns b)))"

lemma spent_trans: "spent b n b1 \<Longrightarrow> spent b1 m b2 \<Longrightarrow> spent b (n + m) b2"
proof -
  assume a: "spent b n b1" "spent b1 m b2"
  then have "tb_rate b1 = tb_rate b" by (simp add: spent_def tb_rate_def)
  moreover have "tb_rate b * (x2 - x0) = tb_rate b * (x1 - x0) + tb_rate b * (x2 - x1)" for x0 x1 x2
    by (simp add: algebra_simps)
  note this [of "real (unat (tb_last_refill_ns b2))" "real (unat (tb_last_refill_ns b))"
      "real (unat (tb_last_refill_ns b1))"]
  ultimately show ?thesis using a unfolding spent_def by auto
qed

lemma spent_consume:
  assumes "tb_ok b" and "tb_last_refill_ns b \<le> now"
  shows "spent b (of_bool (fst (tb_try_consume now b))) (snd (tb_try_consume now b))"
  using tb_consume_ok [OF assms(1)] tb_consume_pays [OF assms(2)] assms(2) by (simp add: spent_def)

lemma spent_refl: "tb_ok b \<Longrightarrow> spent b 0 b"
  by (simp add: spent_def)

lemma spent_weaken: "spent b n b' \<Longrightarrow> m \<le> n \<Longrightarrow> spent b m b'"
  by (simp add: spent_def)

lemma emplace_keeps: "map_of rls sid = Some b \<Longrightarrow> map_of (emplace_limiters cfgs now rls) sid = Some b"
proof (induction cfgs now rls rule: emplace_limiters.induct)
  case (2 scfg scfgs now rls)
  then show ?case by (cases "sid = sc_id scfg") (simp_all add: update_conv')
qed simp

lemma check_limiter:
  assumes "map_of (re_rate_limiters re) sid = Some b" and "tb_ok b"
    and "sid = rq_strategy_id req \<longrightarrow> tb_last_refill_ns b \<le> now"
  shows "\<exists>b'. map_of (re_rate_limiters (snd (check req scfg pf tt now re))) sid = Some b'
     \<and> spent b (of_bool (fst (check req scfg pf tt now re) = PASS \<and> rq_strategy_id req = sid)) b'
     \<and> tb_last_refill_ns b' \<in> {tb_last_refill_ns b} \<union> (if sid = rq_strategy_id req then {now} else {})"
proof (cases "sid = rq_strategy_id req")
  case True
  note s = spent_consume [OF assms(2), of now] spent_refl [OF assms(2)]
  show ?thesis
    using assms True s
    by (auto simp: check_eq rate_check_eq update_conv' limit_checks_def Let_def elim: spent_weaken)
next
  case False
  then show ?thesis
    using assms spent_refl [OF assms(2)]
    by (auto simp: check_eq rate_check_eq update_conv' split: option.split)
qed

lemma risk_step_limiter:
  assumes "map_of (re_rate_limiters re) sid = Some b" and "tb_ok b"
    and "\<forall>t \<in> set (check_times sid [e]). tb_last_refill_ns b \<le> t"
  shows "\<exists>b'. map_of (re_rate_limiters (snd (risk_step e re))) sid = Some b'
     \<and> spent b (of_bool (fst (risk_step e re) = Some PASS \<and> check_times sid [e] \<noteq> [])) b'
     \<and> tb_last_refill_ns b' \<in> {tb_last_refill_ns b} \<union> set (check_times sid [e])"
proof (cases e)
  case (Configure cfg now)
  with assms show ?thesis
    by (auto simp: configure_def emplace_keeps spent_refl)
next
  case (Check req scfg pf tt now)
  with assms check_limiter [OF assms(1,2), of req now scfg pf tt] show ?thesis
    by (auto simp: split_beta split: if_splits)
qed (use assms in \<open>auto simp: update_price_def engage_global_kill_switch_def
    disengage_global_kill_switch_def spent_refl\<close>)

lemma passed_Cons:
  "passed sid (risk_run (e # es) re) =
     of_bool (fst (risk_step e re) = Some PASS \<and> check_times sid [e] \<noteq> [])
     + passed sid (risk_run es (snd (risk_step e re)))"
  by (cases "fst (risk_step e re)") (simp_all add: risk_run_Cons passed_def)

lemma check_times_Cons: "check_times sid (e # es) = check_times sid [e] @ check_times sid es"
  by (cases e) auto

lemma risk_run_spent:
  assumes "map_of (re_rate_limiters re) sid = Some b" and "tb_ok b"
    and "sorted (tb_last_refill_ns b # check_times sid es)"
  shows "\<exists>b'. spent b (passed sid (risk_run es re)) b'
     \<and> tb_last_refill_ns b' \<le> last (tb_last_refill_ns b # check_times sid es)"
  using assms
proof (induction es arbitrary: re b)
  case (Cons e es)
  let ?n = "of_bool (fst (risk_step e re) = Some PASS \<and> check_times sid [e] \<noteq> []) :: nat"
  have srt: "sorted (tb_last_refill_ns b # check_times sid [e] @ check_times sid es)"
    using Cons.prems(3) by (simp only: check_times_Cons [of sid e es])
  then have t: "\<forall>t \<in> set (check_times sid [e]). tb_last_refill_ns b \<le> t" by simp
  from risk_step_limiter [OF Cons.prems(1,2) t] obtain b1
    where b1: "map_of (re_rate_limiters (snd (risk_step e re))) sid = Some b1" "spent b ?n b1"
      "tb_last_refill_ns b1 \<in> {tb_last_refill_ns b} \<union> set (check_times sid [e])" by blast
  have ok: "tb_ok b1" using b1(2) by (simp add: spent_def)
  have srt': "sorted (tb_last_refill_ns b1 # check_times sid es)"
    using srt b1(3) by (auto simp: sorted_append)
  obtain b' where b': "spent b1 (passed sid (risk_run es (snd (risk_step e re)))) b'"
    "tb_last_refill_ns b' \<le> last (tb_last_refill_ns b1 # check_times sid es)"
    using Cons.IH [OF b1(1) ok srt'] by blast
  have "spent b (passed sid (risk_run (e # es) re)) b'"
    unfolding passed_Cons by (rule spent_trans [OF b1(2) b'(1)])
  moreover have "last (tb_last_refill_ns b1 # check_times sid es)
      \<le> last (tb_last_refill_ns b # check_times sid [e] @ check_times sid es)"
  proof (cases "check_times sid es")
    case Nil
    then show ?thesis using b1(3) srt by (cases e) (auto split: if_splits)
  qed simp
  ultimately show ?case using b'(2) by (auto simp: check_times_Cons [of sid e es] intro: order_trans)
next
  case Nil
  then show ?case by (intro exI [of _ b]) (simp add: passed_def spent_refl)
qed

text \<open>
  C5: in any run of the gate (reconfigurations, prices, kill switches and other strategies' orders in
  between), the orders of a configured strategy that pass number at most its burst plus its rate
  times the time from the limiter's last call to the strategy's last check.
\<close>

lemma strategy_rate_bounded:
  assumes "map_of (re_rate_limiters re) sid = Some b" and "tb_ok b"
    and "sorted (tb_last_refill_ns b # check_times sid es)"
  shows "real (passed sid (risk_run es re)) \<le> of_int (tb_burst b) + of_int (tb_max_rate b)
     * (real (unat (last (tb_last_refill_ns b # check_times sid es)))
        - real (unat (tb_last_refill_ns b))) / 1000000000"
proof -
  obtain b' where b': "spent b (passed sid (risk_run es re)) b'"
    "tb_last_refill_ns b' \<le> last (tb_last_refill_ns b # check_times sid es)"
    using risk_run_spent [OF assms] by blast
  have "tb_rate b * (real (unat (tb_last_refill_ns b')) - real (unat (tb_last_refill_ns b)))
      \<le> tb_rate b * (real (unat (last (tb_last_refill_ns b # check_times sid es)))
          - real (unat (tb_last_refill_ns b)))"
    using b'(2) assms(2) by (intro mult_left_mono) (simp_all add: tb_rate_def tb_ok_def word_le_nat_alt
        del: of_nat_unat)
  then show ?thesis
    using b'(1) assms(2) by (simp add: spent_def tb_ok_def tb_rate_def del: of_nat_unat)
qed

lemma strategy_rate_bounded_witness:
  "real (passed ''momentum'' (risk_run [Check (momentum_order 1) strategy_config_init snapshot_init
       363600 1000, UpdatePrice 7 20, Check (momentum_order 1) strategy_config_init snapshot_init
       363600 2000] priced_engine)) \<le> of_int (tb_burst (tb_new 1 (- 1) 0)) + of_int (tb_max_rate (tb_new 1 (- 1) 0))
     * (real (unat (last (tb_last_refill_ns (tb_new 1 (- 1) 0) # check_times ''momentum''
          [Check (momentum_order 1) strategy_config_init snapshot_init 363600 1000, UpdatePrice 7 20,
           Check (momentum_order 1) strategy_config_init snapshot_init 363600 2000])))
        - real (unat (tb_last_refill_ns (tb_new 1 (- 1) 0)))) / 1000000000"
proof (rule strategy_rate_bounded)
  show "map_of (re_rate_limiters priced_engine) ''momentum'' = Some (tb_new 1 (- 1) 0)"
    by (simp add: priced_engine_def)
  show "tb_ok (tb_new 1 (- 1) 0)" by (intro tb_new_ok) (simp_all add: tb_burst_of_def i32_def)
qed (simp add: momentum_order_def tb_new_def)

end
