(* ===== verification/QF_Portfolio.thy ===== *)
theory QF_Portfolio
  imports QF_Types QF_Spsc
begin

text \<open>
  The portfolio engine of \<open>cpp/portfolio/portfolio_engine.cpp\<close>: the position book that the fill
  thread updates from the fill queue and the tick path marks to market. Every operation holds
  \<open>snapshot_mtx_\<close> while it changes the snapshot, so each is one step. The snapshots handed to the
  update callback are kept in the order they were sent.
\<close>

section \<open>State\<close>

record portfolio =
  pf_snapshot :: snapshot
  pf_starting_capital :: dbl
  pf_has_update_cb :: bool
  pf_updates :: "snapshot list"

definition portfolio_new :: portfolio where
  "portfolio_new = \<lparr>pf_snapshot = snapshot_init\<lparr>sn_available_capital := 100000\<rparr>,
     pf_starting_capital = 100000, pf_has_update_cb = False, pf_updates = []\<rparr>"

definition set_update_callback :: "portfolio \<Rightarrow> portfolio" where
  "set_update_callback pf = pf\<lparr>pf_has_update_cb := True\<rparr>"

section \<open>Fills\<close>

definition emit_update :: "portfolio \<Rightarrow> portfolio" where
  "emit_update pf = (if \<not> pf_has_update_cb pf then pf
     else pf\<lparr>pf_updates := pf_updates pf @ [pf_snapshot pf]\<rparr>)"

definition qty_delta :: "fill \<Rightarrow> int" where
  "qty_delta f = (if fl_side f = BUY then fl_quantity f else i32 (- fl_quantity f))"

definition claim_position :: "fill \<Rightarrow> position \<Rightarrow> position" where
  "claim_position f pos = (if ps_token pos = 0
     then pos\<lparr>ps_token := fl_token f,
            ps_strategy_id := strncpy_buf MAX_STRATEGY_LEN (fl_strategy_id f)\<rparr>
     else pos)"

definition fill_position :: "fill \<Rightarrow> position \<Rightarrow> position \<times> dbl" where
  \<comment> \<open>the position after the fill, and what it adds to the total realized profit\<close>
  "fill_position f pos =
     (let d = qty_delta f; q = ps_quantity pos in
      if q = 0 then (pos\<lparr>ps_quantity := d, ps_avg_price := fl_price f\<rparr>, 0)
      else if d > 0 \<and> q > 0 \<or> d < 0 \<and> q < 0 then
        let total_value = of_int (abs32 q) * ps_avg_price pos + of_int (abs32 d) * fl_price f;
            q' = i32 (q + d)
        in (pos\<lparr>ps_quantity := q',
                ps_avg_price := (if q' \<noteq> 0 then total_value / of_int (abs32 q') else 0)\<rparr>, 0)
      else
        let close_qty = min (abs32 d) (abs32 q);
            realized = of_int close_qty * (if fl_side f = SELL then fl_price f - ps_avg_price pos
                                           else ps_avg_price pos - fl_price f);
            q' = i32 (q + d)
        in (pos\<lparr>ps_realized_pnl := ps_realized_pnl pos + realized, ps_quantity := q',
                ps_avg_price := (if q' = 0 then 0 else ps_avg_price pos)\<rparr>, realized))"

definition process_fill :: "fill \<Rightarrow> portfolio \<Rightarrow> portfolio" where
  "process_fill f pf =
     (let s = pf_snapshot pf;
          pos = claim_position f (snapshot_get_position s (fl_token f));
          (pos', realized) = fill_position f pos;
          fill_value = of_int (fl_quantity f) * fl_price f;
          s = s\<lparr>sn_positions := AList.update (fl_token f) pos' (sn_positions s),
                sn_total_realized_pnl := sn_total_realized_pnl s + realized,
                sn_available_capital := (if fl_side f = BUY then sn_available_capital s - fill_value
                                         else sn_available_capital s + fill_value),
                sn_ts_ns := fl_ts_ns f\<rparr>
      in emit_update (pf\<lparr>pf_snapshot := s\<rparr>))"

definition fill_loop_iter :: "fill spsc \<times> portfolio \<Rightarrow> fill spsc \<times> portfolio" where
  \<comment> \<open>one turn of \<open>fill_loop\<close>\<close>
  "fill_loop_iter st = (case spsc_pop (fst st) of
       (Some f, q) \<Rightarrow> (q, process_fill f (snd st))
     | (None, q) \<Rightarrow> (q, snd st))"

section \<open>Prices, positions, accessors\<close>

definition mark_position :: "dbl \<Rightarrow> position \<Rightarrow> position" where
  "mark_position price pos =
     (let pos = pos\<lparr>ps_current_price := price\<rparr>
      in if ps_quantity pos \<noteq> 0 \<and> ps_avg_price pos > 0
         then pos\<lparr>ps_unrealized_pnl := (if ps_quantity pos > 0 then 1 else -1)
                * of_int (abs32 (ps_quantity pos)) * (price - ps_avg_price pos)\<rparr>
         else pos)"

definition pf_update_price :: "u64 \<Rightarrow> dbl \<Rightarrow> portfolio \<Rightarrow> portfolio" where
  "pf_update_price tok price pf =
     (let s = pf_snapshot pf
      in case map_of (sn_positions s) tok of
           None \<Rightarrow> pf
         | Some pos \<Rightarrow>
             let positions = AList.update tok (mark_position price pos) (sn_positions s)
             in pf\<lparr>pf_snapshot := s\<lparr>sn_positions := positions,
                  sn_total_unrealized_pnl := sum_positions (\<lambda>_. True) ps_unrealized_pnl positions 0\<rparr>\<rparr>)"

fun load_all :: "position list \<Rightarrow> (u64 \<times> position) list \<Rightarrow> (u64 \<times> position) list" where
  "load_all [] al = al"
| "load_all (p # ps) al = load_all ps (AList.update (ps_token p) p al)"

definition load_positions :: "position list \<Rightarrow> portfolio \<Rightarrow> portfolio" where
  "load_positions ps pf = pf\<lparr>pf_snapshot := (pf_snapshot pf)\<lparr>sn_positions :=
     load_all ps (sn_positions (pf_snapshot pf))\<rparr>\<rparr>"

definition get_snapshot :: "portfolio \<Rightarrow> snapshot" where
  "get_snapshot pf = pf_snapshot pf"

definition get_position :: "u64 \<Rightarrow> portfolio \<Rightarrow> position" where
  "get_position tok pf = (case map_of (sn_positions (pf_snapshot pf)) tok of
     None \<Rightarrow> position_init | Some p \<Rightarrow> p)"

definition available_capital :: "portfolio \<Rightarrow> dbl" where
  "available_capital pf = sn_available_capital (pf_snapshot pf)"

end
