(* ===== verification/QF_Portfolio_Props.thy ===== *)
theory QF_Portfolio_Props
  imports QF_Portfolio
begin

text \<open>
  What the position book promises: quantities are the signed sums of the fills, cost, cash and
  realized profit balance unless a fill turns a position round, averages are volume weighted, and
  what goes stale when a position closes.
\<close>

section \<open>One fill\<close>

definition small :: "int \<Rightarrow> bool" where
  "small q \<longleftrightarrow> \<bar>q\<bar> < 2147483648"

definition signed_qty :: "fill \<Rightarrow> int" where
  "signed_qty f = (if fl_side f = BUY then fl_quantity f else - fl_quantity f)"

definition flips :: "fill \<Rightarrow> position \<Rightarrow> bool" where
  "flips f pos \<longleftrightarrow> ps_quantity pos \<noteq> 0 \<and> ps_quantity pos * signed_qty f < 0
     \<and> \<bar>ps_quantity pos\<bar> < \<bar>signed_qty f\<bar>"

definition cost :: "position \<Rightarrow> dbl" where
  "cost pos = of_int (ps_quantity pos) * ps_avg_price pos"

lemma small_i32: "small q \<Longrightarrow> i32 q = q" "small q \<Longrightarrow> abs32 q = \<bar>q\<bar>"
  unfolding small_def abs32_def by (rule i32_id, auto simp: in_i32_def)+

lemma small_minus [simp]: "small (- q) = small q"
  by (simp add: small_def)

lemma qty_delta_eq: "small (fl_quantity f) \<Longrightarrow> qty_delta f = signed_qty f"
  by (simp add: qty_delta_def signed_qty_def small_i32)

lemma claim_fields [simp]:
  "ps_quantity (claim_position f pos) = ps_quantity pos"
  "ps_avg_price (claim_position f pos) = ps_avg_price pos"
  "ps_realized_pnl (claim_position f pos) = ps_realized_pnl pos"
  "ps_unrealized_pnl (claim_position f pos) = ps_unrealized_pnl pos"
  by (simp_all add: claim_position_def)

lemma flips_claim [simp]: "flips f (claim_position f pos) = flips f pos"
  by (simp add: flips_def)

lemma fill_position_quantity:
  assumes "small (fl_quantity f)" and "small (ps_quantity pos + signed_qty f)"
  shows "ps_quantity (fst (fill_position f pos)) = ps_quantity pos + signed_qty f"
  using assms by (simp add: fill_position_def Let_def qty_delta_eq small_i32)

lemma average_times_quantity:
  fixes qty s a t :: real
  assumes "qty = s * a" and "a \<noteq> 0"
  shows "qty * (t / a) = s * t"
  using assms by simp

lemma fill_position_cost:
  assumes sm: "small (fl_quantity f)" "small (ps_quantity pos)" "small (ps_quantity pos + signed_qty f)"
    and pos: "0 < fl_quantity f"
  shows "cost (fst (fill_position f pos)) = cost pos + snd (fill_position f pos)
     + of_int (signed_qty f) * fl_price f
     - (if flips f pos then of_int (ps_quantity pos + signed_qty f) * (fl_price f - ps_avg_price pos) else 0)"
proof -
  define q d where "q = ps_quantity pos" and "d = signed_qty f"
  have d: "small d" "d \<noteq> 0" "d > 0 \<longleftrightarrow> fl_side f = BUY"
    using sm(1) pos by (auto simp: d_def signed_qty_def)
  have q: "small q" "small (q + d)" using sm by (simp_all add: q_def d_def)
  consider (flat) "q = 0"
    | (same) "q \<noteq> 0" "d > 0 \<and> q > 0 \<or> d < 0 \<and> q < 0"
    | (opposite) "q \<noteq> 0" "\<not> (d > 0 \<and> q > 0 \<or> d < 0 \<and> q < 0)" by blast
  then show ?thesis
  proof cases
    case flat
    then show ?thesis
      using sm(1) by (simp add: fill_position_def Let_def qty_delta_eq cost_def flips_def q_def d_def)
  next
    case same
    then have nf: "\<not> flips f pos" and "q + d \<noteq> 0"
      by (auto simp: flips_def q_def [symmetric] d_def [symmetric] mult_less_0_iff)
    from same have ab: "\<bar>q + d\<bar> = \<bar>q\<bar> + \<bar>d\<bar>" by auto
    have "of_int (q + d) * ((of_int \<bar>q\<bar> * ps_avg_price pos + of_int \<bar>d\<bar> * fl_price f) / of_int \<bar>q + d\<bar>)
        = of_int q * ps_avg_price pos + of_int d * fl_price f"
      using same \<open>q + d \<noteq> 0\<close>
    proof -
      obtain s :: real where s: "s = 1 \<or> s = - 1" "of_int q = s * of_int \<bar>q\<bar>" "of_int d = s * of_int \<bar>d\<bar>"
        using same by (cases "q > 0") (auto simp: that [of 1] that [of "-1"])
      have "of_int (q + d) = s * of_int \<bar>q + d\<bar>" using s(2,3) ab by (simp add: algebra_simps)
      then have "of_int (q + d) * ((of_int \<bar>q\<bar> * ps_avg_price pos + of_int \<bar>d\<bar> * fl_price f) / of_int \<bar>q + d\<bar>)
          = s * (of_int \<bar>q\<bar> * ps_avg_price pos + of_int \<bar>d\<bar> * fl_price f)"
        by (rule average_times_quantity) (use \<open>q + d \<noteq> 0\<close> in simp)
      also have "\<dots> = of_int q * ps_avg_price pos + of_int d * fl_price f"
        unfolding distrib_left mult.assoc [symmetric] s(2,3) [symmetric] ..
      finally show ?thesis .
    qed
    then show ?thesis
      using same nf \<open>q + d \<noteq> 0\<close> q d(1) sm(1)
      by (simp add: fill_position_def Let_def qty_delta_eq cost_def q_def [symmetric]
          d_def [symmetric] small_i32)
  next
    case opposite
    have side: "(fl_side f = SELL) = (d < 0)" using d by (cases "fl_side f") auto
    have e: "fill_position f pos =
        (pos\<lparr>ps_realized_pnl := ps_realized_pnl pos + of_int (min \<bar>d\<bar> \<bar>q\<bar>)
               * (if d < 0 then fl_price f - ps_avg_price pos else ps_avg_price pos - fl_price f),
             ps_quantity := q + d, ps_avg_price := (if q + d = 0 then 0 else ps_avg_price pos)\<rparr>,
         of_int (min \<bar>d\<bar> \<bar>q\<bar>) * (if d < 0 then fl_price f - ps_avg_price pos else ps_avg_price pos - fl_price f))"
      unfolding fill_position_def Let_def qty_delta_eq [OF sm(1)] q_def [symmetric] d_def [symmetric]
        small_i32(2) [OF d(1)] small_i32(2) [OF q(1)] small_i32(1) [OF q(2)] side
      using opposite by (simp only: if_False)
    have fl: "flips f pos \<longleftrightarrow> \<bar>q\<bar> < \<bar>d\<bar>"
      using opposite d(2) by (auto simp: flips_def q_def [symmetric] d_def [symmetric] mult_less_0_iff)
    have s: "d < 0 \<and> 0 < q \<or> 0 < d \<and> q < 0" using opposite d(2) by auto
    have z: "of_int d * x + of_int q * x = 0" if "d + q = 0" for x :: real
    proof -
      have "of_int d * x + of_int q * x = of_int (d + q) * x" by (simp add: algebra_simps)
      with that show ?thesis by simp
    qed
    show ?thesis
      unfolding e cost_def using s
      by (auto simp: z fl q_def [symmetric] d_def [symmetric] min_def algebra_simps eq_neg_iff_add_eq_0)
  qed
qed

lemma fill_position_fields:
  "ps_unrealized_pnl (fst (fill_position f pos)) = ps_unrealized_pnl pos"
  "ps_strategy_id (fst (fill_position f pos)) = ps_strategy_id pos"
  "ps_token (fst (fill_position f pos)) = ps_token pos"
  "ps_realized_pnl (fst (fill_position f pos)) = ps_realized_pnl pos + snd (fill_position f pos)"
  by (simp_all add: fill_position_def Let_def)

section \<open>The book\<close>

lemma process_fill_snapshot:
  "pf_snapshot (process_fill f pf) =
     (let s = pf_snapshot pf;
          (pos', realized) = fill_position f (claim_position f (snapshot_get_position s (fl_token f)))
      in s\<lparr>sn_positions := AList.update (fl_token f) pos' (sn_positions s),
           sn_total_realized_pnl := sn_total_realized_pnl s + realized,
           sn_available_capital := sn_available_capital s - of_int (signed_qty f) * fl_price f,
           sn_ts_ns := fl_ts_ns f\<rparr>)"
  by (simp add: process_fill_def emit_update_def Let_def split_beta signed_qty_def)

fun process_fills :: "fill list \<Rightarrow> portfolio \<Rightarrow> portfolio" where
  "process_fills [] pf = pf"
| "process_fills (f # fs) pf = process_fills fs (process_fill f pf)"

lemma process_fill_position:
  "snapshot_get_position (pf_snapshot (process_fill f pf)) tok =
     (if tok = fl_token f
      then fst (fill_position f (claim_position f (snapshot_get_position (pf_snapshot pf) tok)))
      else snapshot_get_position (pf_snapshot pf) tok)"
  by (simp add: process_fill_snapshot Let_def split_beta snapshot_get_position_def update_conv'
      split: option.split)

abbreviation position_of :: "portfolio \<Rightarrow> u64 \<Rightarrow> position" where
  "position_of pf tok \<equiv> snapshot_get_position (pf_snapshot pf) tok"

text \<open>No \<open>int\<close> of the book leaves its range while the fills are applied.\<close>

fun in_range :: "fill list \<Rightarrow> portfolio \<Rightarrow> bool" where
  "in_range [] pf = True"
| "in_range (f # fs) pf = (0 < fl_quantity f \<and> small (fl_quantity f)
     \<and> small (ps_quantity (position_of pf (fl_token f)))
     \<and> small (ps_quantity (position_of pf (fl_token f)) + signed_qty f)
     \<and> in_range fs (process_fill f pf))"

fun net_quantity :: "u64 \<Rightarrow> fill list \<Rightarrow> int" where
  "net_quantity tok [] = 0"
| "net_quantity tok (f # fs) = (if fl_token f = tok then signed_qty f else 0) + net_quantity tok fs"

fun net_cash :: "fill list \<Rightarrow> dbl" where
  "net_cash [] = 0"
| "net_cash (f # fs) = of_int (signed_qty f) * fl_price f + net_cash fs"

text \<open>
  After any fills, the quantity of every instrument has moved by the signed sum of its fills and
  the available capital by what was paid and received for all of them.
\<close>

lemma fills_move_book:
  assumes "in_range fs pf"
  shows "ps_quantity (position_of (process_fills fs pf) tok)
       = ps_quantity (position_of pf tok) + net_quantity tok fs
     \<and> available_capital (process_fills fs pf) = available_capital pf - net_cash fs"
  using assms
proof (induction fs arbitrary: pf)
  case (Cons f fs)
  have "ps_quantity (position_of (process_fill f pf) tok)
      = ps_quantity (position_of pf tok) + (if fl_token f = tok then signed_qty f else 0)"
    using Cons.prems by (auto simp: process_fill_position fill_position_quantity)
  moreover have "available_capital (process_fill f pf)
      = available_capital pf - of_int (signed_qty f) * fl_price f"
    by (simp add: available_capital_def process_fill_snapshot Let_def split_beta)
  ultimately show ?case using Cons by auto
qed simp

subsection \<open>Cash, cost and realized profit\<close>

definition total_cost :: "snapshot \<Rightarrow> dbl" where
  "total_cost s = sum_list (map (cost \<circ> snd) (sn_positions s))"

text \<open>What the book is worth at cost, less what it has earned: it starts as the initial capital.\<close>

definition book_value :: "portfolio \<Rightarrow> dbl" where
  "book_value pf = available_capital pf + total_cost (pf_snapshot pf)
     - sn_total_realized_pnl (pf_snapshot pf)"

definition keyed :: "portfolio \<Rightarrow> bool" where
  "keyed pf \<longleftrightarrow> distinct (map fst (sn_positions (pf_snapshot pf)))"

lemma sum_update:
  fixes g :: "'a \<Rightarrow> real"
  assumes "distinct (map fst al)"
  shows "sum_list (map (g \<circ> snd) (AList.update k v al))
     = sum_list (map (g \<circ> snd) al) + g v - (case map_of al k of Some w \<Rightarrow> g w | None \<Rightarrow> 0)"
  using assms
proof (induction al)
  case (Cons x al)
  then have "fst x = k \<Longrightarrow> map_of al k = None" by (auto simp: map_of_eq_None_iff)
  with Cons show ?case by (cases x) auto
qed simp

lemma process_fill_keyed: "keyed pf \<Longrightarrow> keyed (process_fill f pf)"
  by (simp add: keyed_def process_fill_snapshot Let_def split_beta distinct_update)

lemma process_fill_book_value:
  assumes "keyed pf" and "in_range [f] pf"
  shows "book_value (process_fill f pf) = book_value pf
     - (if flips f (position_of pf (fl_token f))
        then of_int (ps_quantity (position_of pf (fl_token f)) + signed_qty f)
             * (fl_price f - ps_avg_price (position_of pf (fl_token f))) else 0)"
proof -
  define pos where "pos = claim_position f (position_of pf (fl_token f))"
  define r where "r = fill_position f pos"
  have sn: "pf_snapshot (process_fill f pf) = (pf_snapshot pf)
      \<lparr>sn_positions := AList.update (fl_token f) (fst r) (sn_positions (pf_snapshot pf)),
       sn_total_realized_pnl := sn_total_realized_pnl (pf_snapshot pf) + snd r,
       sn_available_capital := sn_available_capital (pf_snapshot pf) - of_int (signed_qty f) * fl_price f,
       sn_ts_ns := fl_ts_ns f\<rparr>"
    by (simp add: process_fill_snapshot Let_def split_beta r_def pos_def)
  have old: "(case map_of (sn_positions (pf_snapshot pf)) (fl_token f) of Some w \<Rightarrow> cost w | None \<Rightarrow> 0)
      = cost pos"
    by (simp add: cost_def pos_def snapshot_get_position_def position_init_def split: option.split)
  have "cost (fst r) = cost pos + snd r + of_int (signed_qty f) * fl_price f
     - (if flips f pos then of_int (ps_quantity pos + signed_qty f) * (fl_price f - ps_avg_price pos) else 0)"
    unfolding r_def using assms(2) by (intro fill_position_cost) (simp_all add: pos_def)
  moreover have "total_cost (pf_snapshot (process_fill f pf))
      = total_cost (pf_snapshot pf) + cost (fst r) - cost pos"
    using sum_update [of "sn_positions (pf_snapshot pf)" cost "fl_token f" "fst r"] assms(1) old
    by (simp add: total_cost_def sn keyed_def)
  ultimately show ?thesis
    by (simp add: book_value_def available_capital_def sn pos_def)
qed

fun turns_no_position :: "fill list \<Rightarrow> portfolio \<Rightarrow> bool" where
  "turns_no_position [] pf = True"
| "turns_no_position (f # fs) pf = (\<not> flips f (position_of pf (fl_token f))
     \<and> turns_no_position fs (process_fill f pf))"

text \<open>
  C9: as long as no fill turns a position round, money is conserved: available capital plus the cost
  of the open positions less the realized profit stays what it was at the start.
\<close>

lemma book_value_conserved:
  assumes "keyed pf" and "in_range fs pf" and "turns_no_position fs pf"
  shows "book_value (process_fills fs pf) = book_value pf"
  using assms
proof (induction fs arbitrary: pf)
  case (Cons f fs)
  then have "book_value (process_fill f pf) = book_value pf"
    by (subst process_fill_book_value) simp_all
  moreover have "book_value (process_fills fs (process_fill f pf)) = book_value (process_fill f pf)"
    using Cons by (simp add: process_fill_keyed)
  ultimately show ?case by simp
qed simp

text \<open>
  A fill that turns a position round keeps the average price of the closed side for the part it
  opens, and the book value goes wrong by that part times the difference to the price paid.
\<close>

lemma flip_keeps_old_average:
  assumes "keyed pf" and "in_range [f] pf" and "flips f (position_of pf (fl_token f))"
  shows "ps_avg_price (position_of (process_fill f pf) (fl_token f))
       = ps_avg_price (position_of pf (fl_token f))
     \<and> book_value (process_fill f pf) = book_value pf
         - of_int (ps_quantity (position_of (process_fill f pf) (fl_token f)))
           * (fl_price f - ps_avg_price (position_of pf (fl_token f)))"
proof -
  let ?p = "position_of pf (fl_token f)"
  have q: "ps_quantity (position_of (process_fill f pf) (fl_token f)) = ps_quantity ?p + signed_qty f"
    using assms(2) by (simp add: process_fill_position fill_position_quantity)
  have "ps_quantity ?p + signed_qty f \<noteq> 0" "ps_quantity ?p \<noteq> 0"
    "\<not> (signed_qty f > 0 \<and> ps_quantity ?p > 0 \<or> signed_qty f < 0 \<and> ps_quantity ?p < 0)"
    using assms(3) by (auto simp: flips_def mult_less_0_iff)
  then have "ps_avg_price (fst (fill_position f (claim_position f ?p))) = ps_avg_price ?p"
    using assms(2) unfolding fill_position_def Let_def
    by (auto simp: qty_delta_eq small_i32)
  then show ?thesis
    using process_fill_book_value [OF assms(1,2)] assms(3) q by (simp add: process_fill_position)
qed

section \<open>Averages\<close>

fun bought :: "fill list \<Rightarrow> int" where
  "bought [] = 0"
| "bought (f # fs) = fl_quantity f + bought fs"

lemma bought_is_cost:
  assumes "in_range fs pf" and "\<forall>f \<in> set fs. fl_token f = tok \<and> fl_side f = BUY"
    and "0 \<le> ps_quantity (position_of pf tok)"
  shows "cost (position_of (process_fills fs pf) tok) = cost (position_of pf tok) + net_cash fs
     \<and> ps_quantity (position_of (process_fills fs pf) tok) = ps_quantity (position_of pf tok) + bought fs
     \<and> 0 \<le> bought fs"
  using assms
proof (induction fs arbitrary: pf)
  case (Cons f fs)
  let ?p = "position_of pf tok"
  have f: "fl_token f = tok" "signed_qty f = fl_quantity f" "0 < fl_quantity f" "\<not> flips f ?p"
    using Cons.prems by (auto simp: signed_qty_def flips_def mult_less_0_iff)
  have q: "ps_quantity (position_of (process_fill f pf) tok) = ps_quantity ?p + fl_quantity f"
    using Cons.prems(1) f by (simp add: process_fill_position fill_position_quantity)
  have nr: "snd (fill_position f (claim_position f ?p)) = 0"
    using Cons.prems f by (auto simp: fill_position_def Let_def qty_delta_eq)
  have "cost (fst (fill_position f (claim_position f ?p))) = cost (claim_position f ?p)
      + of_int (fl_quantity f) * fl_price f"
    using fill_position_cost [of f "claim_position f ?p"] Cons.prems(1) f nr by simp
  then have "cost (position_of (process_fill f pf) tok) = cost ?p + of_int (fl_quantity f) * fl_price f"
    using f by (simp add: process_fill_position cost_def)
  then show ?case using Cons.IH [of "process_fill f pf"] Cons.prems f q by auto
qed simp

text \<open>
  C33: buying an instrument from flat, in any number of fills, leaves an average price that is the
  volume-weighted mean of the prices paid.
\<close>

lemma average_is_vwap:
  assumes "in_range fs pf" and "\<forall>f \<in> set fs. fl_token f = tok \<and> fl_side f = BUY" and "fs \<noteq> []"
    and "ps_quantity (position_of pf tok) = 0"
  shows "ps_avg_price (position_of (process_fills fs pf) tok)
     = (\<Sum>f \<leftarrow> fs. of_int (fl_quantity f) * fl_price f) / (\<Sum>f \<leftarrow> fs. of_int (fl_quantity f))"
proof -
  have cash: "net_cash fs = (\<Sum>f \<leftarrow> fs. of_int (fl_quantity f) * fl_price f)"
    (is "_ = ?v") using assms(2) by (induction fs) (auto simp: signed_qty_def)
  have b: "of_int (bought fs) = (\<Sum>f \<leftarrow> fs. real_of_int (fl_quantity f))"
    by (induction fs) auto
  obtain f fs' where fs: "fs = f # fs'" using assms(3) by (cases fs) auto
  have "0 \<le> bought fs'"
    using bought_is_cost [of fs' "process_fill f pf" tok] bought_is_cost [of "[f]" pf tok] assms fs
    by simp
  then have "0 < bought fs" using assms(1) fs by simp
  then have nz: "real_of_int (bought fs) \<noteq> 0" by simp
  have "cost (position_of (process_fills fs pf) tok) = net_cash fs"
    "ps_quantity (position_of (process_fills fs pf) tok) = bought fs"
    using bought_is_cost [OF assms(1,2)] assms(4) by (simp_all add: cost_def [of "position_of pf tok"])
  then show ?thesis
    unfolding cash [symmetric] b [symmetric] eq_divide_eq if_not_P [OF nz]
    using nz by (simp add: cost_def mult.commute)
qed

section \<open>What goes stale\<close>

lemma mark_flat: "ps_quantity pos = 0 \<Longrightarrow> ps_unrealized_pnl (mark_position price pos) = ps_unrealized_pnl pos"
  by (simp add: mark_position_def Let_def)

text \<open>
  When a fill closes a position, its unrealized profit keeps its last value: no later price
  changes it, and the total still counts it.
\<close>

lemma closed_position_keeps_unrealized:
  assumes "in_range [f] pf" and "signed_qty f = - ps_quantity (position_of pf (fl_token f))"
  shows "let pf' = pf_update_price (fl_token f) price (process_fill f pf)
    in ps_quantity (position_of pf' (fl_token f)) = 0
     \<and> ps_unrealized_pnl (position_of pf' (fl_token f)) = ps_unrealized_pnl (position_of pf (fl_token f))
     \<and> sn_total_unrealized_pnl (pf_snapshot pf')
         = sum_list (map (ps_unrealized_pnl \<circ> snd) (sn_positions (pf_snapshot pf')))"
proof -
  define pf1 where "pf1 = process_fill f pf"
  define p1 where "p1 = position_of pf1 (fl_token f)"
  have q: "ps_quantity p1 = 0" "ps_unrealized_pnl p1 = ps_unrealized_pnl (position_of pf (fl_token f))"
    using assms by (simp_all add: p1_def pf1_def process_fill_position fill_position_quantity fill_position_fields)
  have m: "map_of (sn_positions (pf_snapshot pf1)) (fl_token f) = Some p1"
    by (auto simp: p1_def pf1_def process_fill_snapshot Let_def split_beta update_conv' snapshot_get_position_def)
  have "ps_quantity (mark_position price p1) = 0" using q by (simp add: mark_position_def Let_def)
  then show ?thesis
    using m q mark_flat [OF q(1)]
    by (simp add: pf1_def [symmetric] pf_update_price_def Let_def sum_positions_sum_list
        snapshot_get_position_def update_conv' comp_def)
qed

section \<open>Positions of several strategies\<close>

text \<open>
  Positions are kept per instrument. A fill of another strategy on an instrument that is already
  in the book goes to the first strategy's position, and the other one has no capital in use for it.
\<close>

lemma fill_credited_to_first_strategy:
  assumes "map_of (sn_positions (pf_snapshot pf)) (fl_token f) = Some pos" and "ps_token pos \<noteq> 0"
    and "in_range [f] pf"
  shows "ps_strategy_id (position_of (process_fill f pf) (fl_token f)) = ps_strategy_id pos
     \<and> ps_quantity (position_of (process_fill f pf) (fl_token f)) = ps_quantity pos + signed_qty f
     \<and> length (sn_positions (pf_snapshot (process_fill f pf))) = length (sn_positions (pf_snapshot pf))"
proof -
  have k: "fl_token f \<in> fst ` set (sn_positions (pf_snapshot pf))"
    using assms(1) by (metis domI dom_map_of_conv_image_fst)
  have "length (AList.update k v al) = length al" if "k \<in> fst ` set al" for k v and al :: "(u64 \<times> position) list"
    using that by (induction al) auto
  with k have "length (sn_positions (pf_snapshot (process_fill f pf))) = length (sn_positions (pf_snapshot pf))"
    by (simp add: process_fill_snapshot Let_def split_beta)
  moreover have "position_of pf (fl_token f) = pos" using assms(1) by (simp add: snapshot_get_position_def)
  ultimately show ?thesis
    using assms by (simp add: process_fill_position fill_position_fields claim_position_def fill_position_quantity)
qed

section \<open>The fill thread\<close>

lemma fill_loop_iter_items:
  assumes "spsc_inv k q"
  shows "spsc_inv k (fst (fill_loop_iter (q, pf)))
     \<and> spsc_items (fst (fill_loop_iter (q, pf))) = tl (spsc_items q)
     \<and> snd (fill_loop_iter (q, pf)) = process_fills (take 1 (spsc_items q)) pf"
proof (cases "spsc_items q")
  case Nil
  have "spsc_pop q = (None, q)" using ring.deq_nil [OF assms Nil] .
  with Nil assms show ?thesis by (simp add: fill_loop_iter_def)
next
  case (Cons x xs)
  then show ?thesis using ring.deq_cons [OF assms Cons] by (auto simp: fill_loop_iter_def split: prod.splits)
qed

fun fill_loop :: "nat \<Rightarrow> fill spsc \<times> portfolio \<Rightarrow> fill spsc \<times> portfolio" where
  "fill_loop 0 st = st"
| "fill_loop (Suc n) st = fill_loop n (fill_loop_iter st)"

lemma process_fills_append: "process_fills (fs @ gs) pf = process_fills gs (process_fills fs pf)"
  by (induction fs arbitrary: pf) simp_all

text \<open>
  The fill thread applies every queued fill, in the order they were pushed: after as many turns as
  the queue holds fills, the queue is empty and the book is that of all of them.
\<close>

lemma fill_loop_applies_all:
  assumes "spsc_inv k q" and "length (spsc_items q) \<le> n"
  shows "spsc_items (fst (fill_loop n (q, pf))) = []
     \<and> snd (fill_loop n (q, pf)) = process_fills (spsc_items q) pf"
  using assms
proof (induction n arbitrary: q pf)
  case (Suc n)
  obtain q1 pf1 where st: "fill_loop_iter (q, pf) = (q1, pf1)" by fastforce
  have 1: "spsc_inv k q1" "spsc_items q1 = tl (spsc_items q)" "pf1 = process_fills (take 1 (spsc_items q)) pf"
    using fill_loop_iter_items [OF Suc.prems(1), of pf] st by simp_all
  have "process_fills (tl (spsc_items q)) pf1 = process_fills (spsc_items q) pf"
    unfolding 1(3) by (cases "spsc_items q") simp_all
  with Suc.IH [OF 1(1), of pf1] Suc.prems(2) 1(2) st show ?case by simp
qed simp

section \<open>Examples\<close>

definition a_fill :: "side \<Rightarrow> int \<Rightarrow> dbl \<Rightarrow> fill" where
  "a_fill sd q p = fill_init\<lparr>fl_token := 7, fl_side := sd, fl_quantity := q, fl_price := p\<rparr>"

lemmas book_eval = a_fill_def fill_init_def portfolio_new_def snapshot_init_def position_init_def
  process_fill_def emit_update_def fill_position_def claim_position_def qty_delta_def
  snapshot_get_position_def Let_def small_def signed_qty_def flips_def abs32_def i32_def
  MAX_STRATEGY_LEN_def strncpy_buf_def c_str_def keyed_def

lemma fills_move_book_witness:
  "ps_quantity (position_of (process_fills [a_fill BUY 10 100, a_fill SELL 4 110] portfolio_new) 7) = 6
   \<and> available_capital (process_fills [a_fill BUY 10 100, a_fill SELL 4 110] portfolio_new) = 99440"
proof -
  have "in_range [a_fill BUY 10 100, a_fill SELL 4 110] portfolio_new" by (simp add: book_eval)
  from fills_move_book [OF this, of 7] show ?thesis
    by (simp add: available_capital_def portfolio_new_def snapshot_init_def snapshot_get_position_def
        position_init_def a_fill_def fill_init_def signed_qty_def)
qed

lemma book_value_conserved_witness:
  "book_value (process_fills [a_fill BUY 10 100, a_fill SELL 4 110] portfolio_new) = book_value portfolio_new"
  by (rule book_value_conserved) (simp_all add: book_eval)

lemma flip_keeps_old_average_witness:
  "ps_avg_price (position_of (process_fill (a_fill SELL 15 110) (process_fill (a_fill BUY 10 100) portfolio_new)) 7) = 100"
proof -
  let ?pf = "process_fill (a_fill BUY 10 100) portfolio_new"
  have "keyed ?pf" "in_range [a_fill SELL 15 110] ?pf" "flips (a_fill SELL 15 110) (position_of ?pf 7)"
    "ps_avg_price (position_of ?pf 7) = 100" "fl_token (a_fill SELL 15 110) = 7"
    by (simp_all add: book_eval)
  with flip_keeps_old_average [of ?pf "a_fill SELL 15 110"] show ?thesis by simp
qed

lemma average_is_vwap_witness:
  "ps_avg_price (position_of (process_fills [a_fill BUY 10 100, a_fill BUY 30 120] portfolio_new) 7) = 115"
proof -
  have "in_range [a_fill BUY 10 100, a_fill BUY 30 120] portfolio_new" by (simp add: book_eval)
  from average_is_vwap [OF this, of 7] show ?thesis by (simp add: book_eval)
qed

lemma closed_position_keeps_unrealized_witness:
  "ps_unrealized_pnl (position_of (pf_update_price 7 130 (process_fill (a_fill SELL 10 120)
     (pf_update_price 7 120 (process_fill (a_fill BUY 10 100) portfolio_new)))) 7) = 200"
proof -
  let ?pf = "pf_update_price 7 120 (process_fill (a_fill BUY 10 100) portfolio_new)"
  have "in_range [a_fill SELL 10 120] ?pf"
    "signed_qty (a_fill SELL 10 120) = - ps_quantity (position_of ?pf (fl_token (a_fill SELL 10 120)))"
    by (simp_all add: book_eval pf_update_price_def mark_position_def)
  from closed_position_keeps_unrealized [OF this, of 130] show ?thesis
    by (simp add: book_eval pf_update_price_def mark_position_def)
qed

lemma fill_credited_to_first_strategy_witness:
  "ps_strategy_id (position_of (process_fill (a_fill SELL 4 110\<lparr>fl_strategy_id := ''pairs''\<rparr>)
      (process_fill (a_fill BUY 10 100\<lparr>fl_strategy_id := ''momentum''\<rparr>) portfolio_new)) 7) = ''momentum''"
proof -
  let ?pf = "process_fill (a_fill BUY 10 100\<lparr>fl_strategy_id := ''momentum''\<rparr>) portfolio_new"
  let ?f = "a_fill SELL 4 110\<lparr>fl_strategy_id := ''pairs''\<rparr>"
  let ?pos = "position_init\<lparr>ps_token := 7, ps_strategy_id := ''momentum'', ps_quantity := 10, ps_avg_price := 100\<rparr>"
  have "map_of (sn_positions (pf_snapshot ?pf)) (fl_token ?f) = Some ?pos" "ps_token ?pos \<noteq> 0"
    "in_range [?f] ?pf" "fl_token ?f = 7"
    by (simp_all add: book_eval)
  from fill_credited_to_first_strategy [OF this(1-3)] this(4) show ?thesis by simp
qed

lemma fill_loop_applies_all_witness:
  "snd (fill_loop 3 (snd (spsc_push (a_fill BUY 10 100) (spsc_new (2 ^ 4) fill_init)), portfolio_new))
     = process_fill (a_fill BUY 10 100) portfolio_new"
proof -
  let ?q = "spsc_new (2 ^ 4) fill_init"
  have inv: "spsc_inv 4 ?q" by (rule spsc_inv_new) simp
  have e: "spsc_items ?q = []"
    by (simp add: spsc_items_def spsc_new_def ring_count_def)
  obtain q' where q': "snd (spsc_push (a_fill BUY 10 100) ?q) = q'" "spsc_inv 4 q'"
    "spsc_items q' = [a_fill BUY 10 100]"
    using ring.enq_room [OF inv, of "a_fill BUY 10 100"] e by auto
  from fill_loop_applies_all [OF q'(2), of 3 portfolio_new] q' show ?thesis by simp
qed

end
