(* ===== verification/QF_Disruptor.thy ===== *)
theory QF_Disruptor
  imports QF_Prelude
begin

text \<open>
  The fan-out ring of \<open>cpp/common/disruptor.hpp\<close>: one producer, any number of consumers that each
  hold a cursor. \<open>disr_inv xs\<close> says what the ring holds after the ticks \<open>xs\<close> were pushed: the last
  \<open>BUFFER_SIZE\<close> of them, each under its own sequence number. A consumer whose \<open>lag\<close> never passes
  \<open>BUFFER_SIZE\<close> receives every tick once and in order; one that was lapped is handed a later tick
  under an earlier cursor. Sequence numbers are \<open>int64_t\<close> and do not wrap below \<open>2 ^ 63\<close> ticks.
\<close>

definition BUFFER_SIZE :: nat where "BUFFER_SIZE = 65536"

definition MASK :: int where "MASK = int BUFFER_SIZE - 1"

record 'a slot =
  sl_tick :: 'a
  sl_sequence :: int

record 'a disruptor =
  ds_buffer :: "nat \<Rightarrow> 'a slot"
  ds_producer_seq :: int

definition disr_new :: "'a \<Rightarrow> 'a disruptor" where
  "disr_new d = \<lparr>ds_buffer = (\<lambda>_. \<lparr>sl_tick = d, sl_sequence = -1\<rparr>), ds_producer_seq = -1\<rparr>"

definition slot_index :: "int \<Rightarrow> nat" where
  "slot_index seq = nat (seq AND MASK)"

definition claim_next :: "'a disruptor \<Rightarrow> int \<times> 'a disruptor" where
  "claim_next d = (i64 (ds_producer_seq d + 1), d\<lparr>ds_producer_seq := i64 (ds_producer_seq d + 1)\<rparr>)"

definition publish :: "int \<Rightarrow> 'a \<Rightarrow> 'a disruptor \<Rightarrow> 'a disruptor" where
  "publish seq t d = d\<lparr>ds_buffer := (ds_buffer d)(slot_index seq := \<lparr>sl_tick = t, sl_sequence = seq\<rparr>)\<rparr>"

definition disr_push :: "'a \<Rightarrow> 'a disruptor \<Rightarrow> 'a disruptor" where
  "disr_push t d = (let (seq, d') = claim_next d in publish seq t d')"

definition try_consume :: "int \<Rightarrow> 'a \<Rightarrow> 'a disruptor \<Rightarrow> bool \<times> int \<times> 'a" where
  \<comment> \<open>the reference parameters \<open>consumer_seq\<close> and \<open>out\<close> are passed in and returned\<close>
  "try_consume consumer_seq out d =
     (let nxt = i64 (consumer_seq + 1);
          slot = ds_buffer d (slot_index nxt)
      in if sl_sequence slot < nxt then (False, consumer_seq, out)
         else (True, nxt, sl_tick slot))"

definition current_producer_seq :: "'a disruptor \<Rightarrow> int" where
  "current_producer_seq d = ds_producer_seq d"

definition lag :: "int \<Rightarrow> 'a disruptor \<Rightarrow> int" where
  "lag consumer_seq d = i64 (current_producer_seq d - consumer_seq)"

section \<open>What the ring holds\<close>

definition disr_inv :: "'a list \<Rightarrow> 'a disruptor \<Rightarrow> bool" where
  "disr_inv xs d \<longleftrightarrow> int (length xs) < 2 ^ 63
     \<and> ds_producer_seq d = int (length xs) - 1
     \<and> (\<forall>n < length xs. length xs \<le> n + BUFFER_SIZE \<longrightarrow>
          ds_buffer d (n mod BUFFER_SIZE) = \<lparr>sl_tick = xs ! n, sl_sequence = int n\<rparr>)
     \<and> (\<forall>i < BUFFER_SIZE. length xs \<le> i \<longrightarrow> sl_sequence (ds_buffer d i) = -1)"

lemma slot_index_of_nat: "slot_index (int n) = n mod BUFFER_SIZE"
proof -
  have "int n AND 65535 = int n mod 65536"
    using take_bit_eq_mask [of 16 "int n"] by (simp add: take_bit_eq_mod mask_eq_exp_minus_1)
  then show ?thesis
    by (simp add: slot_index_def MASK_def BUFFER_SIZE_def nat_mod_distrib)
qed

lemma disr_inv_new [inv_intros]: "disr_inv [] (disr_new d)"
  by (simp add: disr_inv_def disr_new_def)

lemma disr_push_eq:
  assumes "disr_inv xs d" and "int (length xs) + 1 < 2 ^ 63"
  shows "disr_push t d = d\<lparr>ds_producer_seq := int (length xs),
     ds_buffer := (ds_buffer d)(length xs mod BUFFER_SIZE := \<lparr>sl_tick = t, sl_sequence = int (length xs)\<rparr>)\<rparr>"
  using assms
  by (simp add: disr_push_def claim_next_def publish_def disr_inv_def i64_id slot_index_of_nat)

lemma mod_window_neq:
  assumes "n < m" and "m < n + c"
  shows "n mod c \<noteq> m mod (c::nat)"
proof
  assume "n mod c = m mod c"
  then have "c dvd m - n" using assms(1) by (metis less_imp_le mod_eq_dvd_iff_nat)
  moreover have "0 < m - n" "m - n < c" using assms by auto
  ultimately show False by (meson nat_dvd_not_less)
qed

lemma disr_inv_push [inv_intros]:
  assumes inv: "disr_inv xs d" and len: "int (length xs) + 1 < 2 ^ 63"
  shows "disr_inv (xs @ [t]) (disr_push t d)"
proof -
  let ?m = "length xs"
  have old: "ds_buffer d (n mod BUFFER_SIZE) = \<lparr>sl_tick = xs ! n, sl_sequence = int n\<rparr>"
    if "n < ?m" "?m < n + BUFFER_SIZE" for n
    using inv that by (simp add: disr_inv_def)
  have "n mod BUFFER_SIZE \<noteq> ?m mod BUFFER_SIZE" if "n < ?m" "?m < n + BUFFER_SIZE" for n
    using mod_window_neq that by blast
  with old have "\<forall>n < ?m. ?m < n + BUFFER_SIZE \<longrightarrow>
      ds_buffer (disr_push t d) (n mod BUFFER_SIZE) = \<lparr>sl_tick = xs ! n, sl_sequence = int n\<rparr>"
    by (simp add: disr_push_eq [OF inv len])
  moreover have "\<forall>i < BUFFER_SIZE. ?m < i \<longrightarrow> sl_sequence (ds_buffer (disr_push t d) i) = -1"
    using inv by (auto simp: disr_push_eq [OF inv len] disr_inv_def BUFFER_SIZE_def)
  ultimately show ?thesis
    using len by (auto simp: disr_inv_def disr_push_eq [OF inv len] nth_append less_Suc_eq)
qed

fun push_all :: "'a list \<Rightarrow> 'a disruptor \<Rightarrow> 'a disruptor" where
  "push_all [] d = d"
| "push_all (t # ts) d = push_all ts (disr_push t d)"

lemma push_all_inv:
  "disr_inv xs d \<Longrightarrow> int (length xs + length ts) < 2 ^ 63 \<Longrightarrow> disr_inv (xs @ ts) (push_all ts d)"
proof (induction ts arbitrary: xs d)
  case (Cons t ts)
  have "disr_inv (xs @ [t]) (disr_push t d)"
    using Cons.prems by (intro disr_inv_push) auto
  from Cons.IH [OF this] Cons.prems show ?case by simp
qed simp

section \<open>Consuming\<close>

lemma consume_available:
  assumes inv: "disr_inv xs d" and j: "j < length xs" "length xs \<le> j + BUFFER_SIZE"
  shows "try_consume (int j - 1) out d = (True, int j, xs ! j)"
proof -
  have "i64 (int j - 1 + 1) = int j"
    using inv j by (intro trans [OF i64_id]) (auto simp: disr_inv_def)
  then show ?thesis
    using inv j by (simp add: try_consume_def Let_def slot_index_of_nat disr_inv_def)
qed

lemma consume_none:
  assumes inv: "disr_inv xs d"
  shows "try_consume (int (length xs) - 1) out d = (False, int (length xs) - 1, out)"
proof -
  let ?m = "length xs"
  have i: "i64 (int ?m) = int ?m"
    using inv by (intro trans [OF i64_id]) (auto simp: disr_inv_def)
  have "sl_sequence (ds_buffer d (?m mod BUFFER_SIZE)) < int ?m"
  proof (cases "?m < BUFFER_SIZE")
    case True
    then show ?thesis using inv by (simp add: disr_inv_def)
  next
    case False
    then have "?m mod BUFFER_SIZE = (?m - BUFFER_SIZE) mod BUFFER_SIZE"
      by (simp add: le_mod_geq)
    moreover have "0 < BUFFER_SIZE" by (simp add: BUFFER_SIZE_def)
    ultimately show ?thesis using inv False by (simp add: disr_inv_def)
  qed
  then show ?thesis
    by (simp add: try_consume_def Let_def i slot_index_of_nat)
qed

text \<open>
  After any run of pushes, a consumer at cursor \<open>j - 1\<close> that is not more than \<open>BUFFER_SIZE\<close>
  ticks behind reads exactly tick \<open>j\<close>, and one that has read everything is told so.
\<close>

lemma disruptor_delivers:
  assumes "int (length xs) < 2 ^ 63" and "j \<le> length xs" and "length xs \<le> j + BUFFER_SIZE"
  shows "try_consume (int j - 1) out (push_all xs (disr_new d)) =
     (if j < length xs then (True, int j, xs ! j) else (False, int j - 1, out))"
proof -
  have inv: "disr_inv xs (push_all xs (disr_new d))"
    using push_all_inv [OF disr_inv_new, of xs d] assms(1) by simp
  show ?thesis
    using consume_available [OF inv] consume_none [OF inv] assms by (cases "j < length xs") auto
qed

lemma disruptor_delivers_witness:
  "try_consume 0 0 (push_all [10, 20, 30 :: int] (disr_new 0)) = (True, 1, 20)"
  using disruptor_delivers [of "[10, 20, 30 :: int]" 1 0 0] by (simp add: BUFFER_SIZE_def)

text \<open>
  A consumer that has been lapped is not told: it is handed a tick at least \<open>BUFFER_SIZE\<close> later than
  the one it asks for, while its cursor moves by one only.
\<close>

lemma disruptor_lapped:
  assumes "int (length xs) < 2 ^ 63" and "j + BUFFER_SIZE < length xs"
  shows "\<exists>m. j + BUFFER_SIZE \<le> m \<and> m < length xs
     \<and> try_consume (int j - 1) out (push_all xs (disr_new d)) = (True, int j, xs ! m)"
proof -
  let ?d = "push_all xs (disr_new d)" and ?B = BUFFER_SIZE
  have B: "0 < ?B" by (simp add: BUFFER_SIZE_def)
  have inv: "disr_inv xs ?d"
    using push_all_inv [OF disr_inv_new, of xs d] assms(1) by simp
  define m where "m = j + ?B * ((length xs - 1 - j) div ?B)"
  have q: "?B * ((length xs - 1 - j) div ?B) + (length xs - 1 - j) mod ?B = length xs - 1 - j"
    by simp
  have r: "(length xs - 1 - j) mod ?B < ?B" using B by simp
  have m1: "m < length xs" "length xs \<le> m + ?B"
    using q r assms(2) unfolding m_def by linarith+
  have "?B \<le> length xs - 1 - j" using assms(2) by linarith
  then have "1 \<le> (length xs - 1 - j) div ?B" using B by (simp add: div_greater_zero_iff Suc_le_eq)
  then have m2: "j + ?B \<le> m" unfolding m_def using B by simp
  have "m mod ?B = j mod ?B" by (simp add: m_def)
  then have "ds_buffer ?d (j mod ?B) = \<lparr>sl_tick = xs ! m, sl_sequence = int m\<rparr>"
    using inv m1 by (metis disr_inv_def)
  moreover have "i64 (int j - 1 + 1) = int j"
    using assms by (intro trans [OF i64_id]) auto
  ultimately have "try_consume (int j - 1) out ?d = (True, int j, xs ! m)"
    using m2 by (simp add: try_consume_def Let_def slot_index_of_nat)
  with m1 m2 show ?thesis by blast
qed

lemma disruptor_lapped_witness:
  "\<exists>m. 65536 \<le> m \<and> m < 65537
     \<and> try_consume (- 1) 0 (push_all [0..<65537] (disr_new 0)) = (True, 0, [0..<65537] ! m)"
  using disruptor_lapped [of "[0..<65537]" 0 0 0] unfolding BUFFER_SIZE_def by simp

section \<open>Producer and consumer interleaved\<close>

datatype 'a devent = Publish 'a | Consume

fun disr_run :: "'a devent list \<Rightarrow> 'a disruptor \<Rightarrow> int \<Rightarrow> 'a \<Rightarrow> 'a list" where
  \<comment> \<open>the ticks one consumer receives in a schedule of pushes and polls; \<open>out\<close> is its local tick\<close>
  "disr_run [] d cs out = []"
| "disr_run (Publish t # es) d cs out = disr_run es (disr_push t d) cs out"
| "disr_run (Consume # es) d cs out =
     (let (got, cs', t) = try_consume cs out d
      in (if got then [t] else []) @ disr_run es d cs' t)"

fun never_lapped :: "'a devent list \<Rightarrow> 'a disruptor \<Rightarrow> int \<Rightarrow> 'a \<Rightarrow> bool" where
  "never_lapped [] d cs out \<longleftrightarrow> True"
| "never_lapped (Publish t # es) d cs out \<longleftrightarrow> never_lapped es (disr_push t d) cs out"
| "never_lapped (Consume # es) d cs out \<longleftrightarrow> lag cs d \<le> int BUFFER_SIZE
     \<and> (let (got, cs', t) = try_consume cs out d in never_lapped es d cs' t)"

fun published :: "'a devent list \<Rightarrow> 'a list" where
  "published [] = []"
| "published (Publish t # es) = t # published es"
| "published (Consume # es) = published es"

lemma disr_run_prefix:
  assumes "disr_inv xs d" and "j \<le> length xs" and "never_lapped es d (int j - 1) out"
    and "int (length xs + length (published es)) < 2 ^ 63"
  shows "\<exists>rest. drop j (xs @ published es) = disr_run es d (int j - 1) out @ rest"
  using assms
proof (induction es arbitrary: d j xs out)
  case (Cons e es)
  note inv = Cons.prems(1)
  show ?case
  proof (cases e)
    case (Publish t)
    have "disr_inv (xs @ [t]) (disr_push t d)"
      using Cons.prems Publish by (intro disr_inv_push) auto
    from Cons.IH [OF this, of j out] Cons.prems Publish show ?thesis by simp
  next
    case Consume
    have "lag (int j - 1) d = int (length xs) - int j"
      using inv Cons.prems(2)
      by (auto simp: lag_def current_producer_seq_def disr_inv_def intro!: trans [OF i64_id])
    with Cons.prems(3) Consume have lap: "length xs \<le> j + BUFFER_SIZE" by auto
    show ?thesis
    proof (cases "j < length xs")
      case True
      note c = consume_available [OF inv True lap, of out]
      have "\<exists>rest. drop (Suc j) (xs @ published es) = disr_run es d (int (Suc j) - 1) (xs ! j) @ rest"
        using Cons.IH [OF inv, of "Suc j" "xs ! j"] Cons.prems True Consume c by simp
      then show ?thesis
        using True c Consume by (auto simp: Cons_nth_drop_Suc [symmetric] nth_append)
    next
      case False
      with Cons.prems(2) have j: "j = length xs" by simp
      note c = consume_none [OF inv, of out]
      show ?thesis
        using Cons.IH [OF inv, of j out] Cons.prems Consume c j by simp
    qed
  qed
qed auto

text \<open>In every schedule in which the consumer is not lapped, it receives a prefix of the ticks.\<close>

lemma disruptor_in_order:
  assumes "never_lapped es (disr_new d) (-1) out" and "int (length (published es)) < 2 ^ 63"
  shows "\<exists>rest. published es = disr_run es (disr_new d) (-1) out @ rest"
  using disr_run_prefix [OF disr_inv_new, of 0 es d out] assms by simp

lemma disruptor_in_order_witness:
  "\<exists>rest. [10, 20 :: int] = disr_run [Publish 10, Consume, Consume, Publish 20] (disr_new 0) (-1) 0 @ rest"
  using disruptor_in_order [of "[Publish 10, Consume, Consume, Publish (20 :: int)]" 0 0]
  by (simp add: split_beta lag_def current_producer_seq_def disr_push_def claim_next_def publish_def
      disr_new_def BUFFER_SIZE_def i64_def try_consume_def Let_def)

end
