(* ===== verification/QF_Candle.thy ===== *)
theory QF_Candle
  imports QF_Types
begin

text \<open>
  The candle builder of \<open>cpp/market_data/candle_builder.hpp\<close>: one open bar per instrument and
  interval, closed by the first tick of another bar or by \<open>flush_all\<close>. The candles handed to the
  callbacks are kept in order, each with the index of the callback.
\<close>

section \<open>State\<close>

record bar_state =
  br_token :: u64
  br_start_ns :: u64
  br_interval_sec :: u32
  br_open :: dbl
  br_high :: dbl
  br_low :: dbl
  br_close :: dbl
  br_volume :: u64
  br_oi :: u64
  br_initialized :: bool

definition bar_state_init :: bar_state where
  "bar_state_init = \<lparr>br_token = 0, br_start_ns = 0, br_interval_sec = 0, br_open = 0, br_high = 0,
     br_low = 0, br_close = 0, br_volume = 0, br_oi = 0, br_initialized = False\<rparr>"

type_synonym bar_key = "u64 \<times> u32"

record candle_builder =
  cb_open_bars :: "(bar_key \<times> bar_state) list"
  cb_callbacks :: nat
  cb_out :: "(nat \<times> candle) list"

definition candle_builder_new :: candle_builder where
  "candle_builder_new = \<lparr>cb_open_bars = [], cb_callbacks = 0, cb_out = []\<rparr>"

definition INTERVALS :: "u32 list" where
  "INTERVALS = [60, 300, 900, 3600]"

section \<open>Operations\<close>

definition register_callback :: "candle_builder \<Rightarrow> candle_builder" where
  "register_callback cb = cb\<lparr>cb_callbacks := cb_callbacks cb + 1\<rparr>"

definition bar_candle :: "bar_state \<Rightarrow> u64 \<Rightarrow> candle" where
  "bar_candle bar close_ts_ns =
     \<lparr>cd_token = br_token bar, cd_open_ts_ns = br_start_ns bar, cd_close_ts_ns = close_ts_ns,
      cd_interval_sec = br_interval_sec bar, cd_open = br_open bar, cd_high = br_high bar,
      cd_low = br_low bar, cd_close = br_close bar, cd_volume = br_volume bar, cd_oi = br_oi bar\<rparr>"

definition emit_candle :: "bar_state \<Rightarrow> u64 \<Rightarrow> candle_builder \<Rightarrow> candle_builder" where
  "emit_candle bar close_ts_ns cb =
     cb\<lparr>cb_out := cb_out cb @ map (\<lambda>i. (i, bar_candle bar close_ts_ns)) [0..<cb_callbacks cb]\<rparr>"

definition tick_ts :: "tick \<Rightarrow> u64" where
  "tick_ts t = (if tk_exchange_ts_ns t > 0 then tk_exchange_ts_ns t else tk_recv_ts_ns t)"

definition interval_ns :: "u32 \<Rightarrow> u64" where
  "interval_ns interval_sec = ucast interval_sec * 1000000000"

definition bar_start :: "tick \<Rightarrow> u32 \<Rightarrow> u64" where
  "bar_start t interval_sec = (tick_ts t div interval_ns interval_sec) * interval_ns interval_sec"

definition start_bar :: "tick \<Rightarrow> u32 \<Rightarrow> bar_state \<Rightarrow> bar_state" where
  "start_bar t interval_sec bar = bar\<lparr>br_token := tk_token t, br_start_ns := bar_start t interval_sec,
     br_interval_sec := interval_sec, br_open := tk_ltp t, br_high := tk_ltp t, br_low := tk_ltp t,
     br_close := tk_ltp t, br_volume := tk_volume t, br_oi := tk_oi t, br_initialized := True\<rparr>"

definition extend_bar :: "tick \<Rightarrow> bar_state \<Rightarrow> bar_state" where
  "extend_bar t bar = bar\<lparr>br_high := max (br_high bar) (tk_ltp t), br_low := min (br_low bar) (tk_ltp t),
     br_close := tk_ltp t,
     br_volume := (if tk_volume t > br_volume bar then tk_volume t else br_volume bar),
     br_oi := tk_oi t\<rparr>"

definition update_bar :: "tick \<Rightarrow> u32 \<Rightarrow> candle_builder \<Rightarrow> candle_builder" where
  "update_bar t interval_sec cb =
     (let key = (tk_token t, interval_sec);
          bar = (case map_of (cb_open_bars cb) key of Some b \<Rightarrow> b | None \<Rightarrow> bar_state_init)
      in if \<not> br_initialized bar \<or> br_start_ns bar \<noteq> bar_start t interval_sec then
           let cb = (if br_initialized bar \<and> br_open bar > 0
                     then emit_candle bar (br_start_ns bar + interval_ns interval_sec - 1) cb else cb)
           in cb\<lparr>cb_open_bars := AList.update key (start_bar t interval_sec bar) (cb_open_bars cb)\<rparr>
         else cb\<lparr>cb_open_bars := AList.update key (extend_bar t bar) (cb_open_bars cb)\<rparr>)"

fun update_bars :: "tick \<Rightarrow> u32 list \<Rightarrow> candle_builder \<Rightarrow> candle_builder" where
  "update_bars t [] cb = cb"
| "update_bars t (i # is) cb = update_bars t is (update_bar t i cb)"

definition cb_on_tick :: "tick \<Rightarrow> candle_builder \<Rightarrow> candle_builder" where
  "cb_on_tick t cb = update_bars t INTERVALS cb"

fun emit_open :: "(bar_key \<times> bar_state) list \<Rightarrow> u64 \<Rightarrow> candle_builder \<Rightarrow> candle_builder" where
  "emit_open [] now cb = cb"
| "emit_open ((_, bar) # bars) now cb =
     emit_open bars now (if br_open bar > 0 then emit_candle bar now cb else cb)"

definition flush_all :: "u64 \<Rightarrow> u64 \<Rightarrow> candle_builder \<Rightarrow> candle_builder" where
  \<comment> \<open>the second argument is the system clock, read when the first one is zero\<close>
  "flush_all ts_ns sys_ns cb =
     (let now = (if ts_ns \<noteq> 0 then ts_ns else sys_ns)
      in (emit_open (cb_open_bars cb) now cb)\<lparr>cb_open_bars := []\<rparr>)"

end
