(* ===== verification/QF_Candle_Props.thy ===== *)
theory QF_Candle_Props
  imports QF_Candle
begin

text \<open>
  What the candle builder promises: the candles of an instrument and interval are the runs of its
  ticks with equal bar start, each with the first, highest, lowest and last price of its run.
\<close>

section \<open>Runs of ticks\<close>

fun groups :: "('a \<Rightarrow> 'k) \<Rightarrow> 'a list \<Rightarrow> 'a list list" where
  "groups f [] = []"
| "groups f (x # xs) = (case groups f xs of
       [] \<Rightarrow> [[x]]
     | g # gs \<Rightarrow> if f x = f (hd g) then (x # g) # gs else [x] # g # gs)"

lemma groups_empty [simp]: "groups f xs = [] \<longleftrightarrow> xs = []"
  by (cases xs) (auto split: list.splits)

lemma groups_nonempty: "g \<in> set (groups f xs) \<Longrightarrow> g \<noteq> []"
proof (induction xs arbitrary: g)
  case (Cons x xs)
  then show ?case by (cases "groups f xs") (auto split: if_splits)
qed simp

lemma groups_concat: "concat (groups f xs) = xs"
proof (induction xs)
  case (Cons x xs)
  then show ?case by (cases "groups f xs") auto
qed simp

lemma groups_snoc:
  "groups f (xs @ [x]) = (if xs = [] then [[x]]
     else if f (last xs) = f x then butlast (groups f xs) @ [last (groups f xs) @ [x]]
     else groups f xs @ [[x]])"
proof (induction xs)
  case (Cons a xs)
  show ?case
  proof (cases xs)
    case (Cons b ys)
    obtain g gs where g: "groups f xs = g # gs" "g \<noteq> []"
      using Cons groups_empty [of f xs] groups_nonempty [of _ f xs] by (cases "groups f xs") auto
    with Cons Cons.IH show ?thesis by (cases gs) auto
  qed simp
qed simp

lemma groups_same: "g \<in> set (groups f xs) \<Longrightarrow> x \<in> set g \<Longrightarrow> f x = f (hd g)"
proof (induction xs arbitrary: g)
  case (Cons a xs)
  then show ?case
  proof (cases "groups f xs")
    case (Cons h hs)
    with Cons.prems Cons.IH [of g] Cons.IH [of h] show ?thesis by (auto split: if_splits)
  qed simp
qed simp

lemma last_groups: "xs \<noteq> [] \<Longrightarrow> last (last (groups f xs)) = last xs"
  by (metis groups_concat groups_empty groups_nonempty append_butlast_last_id concat_append
      concat.simps append_Nil2 last_appendR last_in_set)

section \<open>The bar of a run\<close>

definition run_bar :: "u64 \<Rightarrow> u32 \<Rightarrow> tick list \<Rightarrow> bar_state" where
  "run_bar tok i g = \<lparr>br_token = tok, br_start_ns = bar_start (hd g) i, br_interval_sec = i,
     br_open = tk_ltp (hd g), br_high = Max (tk_ltp ` set g), br_low = Min (tk_ltp ` set g),
     br_close = tk_ltp (last g), br_volume = Max (tk_volume ` set g), br_oi = tk_oi (last g),
     br_initialized = True\<rparr>"

definition run_candle :: "u64 \<Rightarrow> u32 \<Rightarrow> tick list \<Rightarrow> candle" where
  "run_candle tok i g = \<lparr>cd_token = tok, cd_open_ts_ns = bar_start (hd g) i,
     cd_close_ts_ns = bar_start (hd g) i + interval_ns i - 1, cd_interval_sec = i,
     cd_open = tk_ltp (hd g), cd_high = Max (tk_ltp ` set g), cd_low = Min (tk_ltp ` set g),
     cd_close = tk_ltp (last g), cd_volume = Max (tk_volume ` set g), cd_oi = tk_oi (last g)\<rparr>"

lemma extend_run_bar:
  assumes "g \<noteq> []"
  shows "extend_bar t (run_bar tok i g) = run_bar tok i (g @ [t])"
proof -
  have ne: "set g \<noteq> {}" using assms by simp
  have m: "Max (tk_ltp ` set (g @ [t])) = max (Max (tk_ltp ` set g)) (tk_ltp t)"
    "Min (tk_ltp ` set (g @ [t])) = min (Min (tk_ltp ` set g)) (tk_ltp t)"
    "Max (tk_volume ` set (g @ [t])) = max (Max (tk_volume ` set g)) (tk_volume t)"
    using ne by (simp_all add: Max_insert Min_insert max.commute min.commute)
  have v: "(if v < w then w else v) = max v w" for v w :: u64 by (auto simp: max_def)
  show ?thesis
    using assms unfolding extend_bar_def run_bar_def m by (simp only: v) simp
qed

lemma start_run_bar: "start_bar t i bar = run_bar (tk_token t) i [t]"
  by (simp add: start_bar_def run_bar_def)

lemma run_bar_candle: "bar_candle (run_bar tok i g) (br_start_ns (run_bar tok i g) + interval_ns i - 1)
  = run_candle tok i g"
  by (simp add: bar_candle_def run_bar_def run_candle_def)

section \<open>One instrument and interval\<close>

fun run_ticks :: "tick list \<Rightarrow> candle_builder \<Rightarrow> candle_builder" where
  "run_ticks [] cb = cb"
| "run_ticks (t # ts) cb = run_ticks ts (cb_on_tick t cb)"

lemma run_ticks_snoc: "run_ticks (ts @ [t]) cb = cb_on_tick t (run_ticks ts cb)"
  by (induction ts arbitrary: cb) simp_all

text \<open>The candles of an instrument and interval that callback \<open>n\<close> was given.\<close>

definition received :: "nat \<Rightarrow> u64 \<Rightarrow> u32 \<Rightarrow> candle_builder \<Rightarrow> candle list" where
  "received n tok i cb = map snd (filter (\<lambda>(m, c). m = n \<and> cd_token c = tok \<and> cd_interval_sec c = i) (cb_out cb))"

text \<open>Every open bar is filed under its own instrument and interval.\<close>

definition filed :: "candle_builder \<Rightarrow> bool" where
  "filed cb \<longleftrightarrow> (\<forall>tok i bar. map_of (cb_open_bars cb) (tok, i) = Some bar \<longrightarrow>
     br_token bar = tok \<and> br_interval_sec bar = i \<and> br_initialized bar)"

definition bar_at :: "u64 \<Rightarrow> u32 \<Rightarrow> candle_builder \<Rightarrow> bar_state option" where
  "bar_at tok i cb = map_of (cb_open_bars cb) (tok, i)"

lemma filter_one: "filter (\<lambda>m. m = n) [0..<k] = (if n < k then [n] else [])"
  by (induction k) auto

lemma received_emit:
  "received n tok i (emit_candle bar ts cb) = received n tok i cb @
     (if n < cb_callbacks cb \<and> br_token bar = tok \<and> br_interval_sec bar = i then [bar_candle bar ts] else [])"
proof -
  let ?c = "bar_candle bar ts"
  have "filter (\<lambda>(m, c). m = n \<and> P c) (map (\<lambda>m. (m, ?c)) ms)
      = (if P ?c then map (\<lambda>m. (m, ?c)) (filter (\<lambda>m. m = n) ms) else [])" for P ms
    by (induction ms) auto
  from this [of "\<lambda>c. cd_token c = tok \<and> cd_interval_sec c = i"] show ?thesis
    by (simp add: received_def emit_candle_def filter_one bar_candle_def)
qed

lemma emit_candle_frame [simp]:
  "cb_open_bars (emit_candle bar ts cb) = cb_open_bars cb"
  "cb_callbacks (emit_candle bar ts cb) = cb_callbacks cb"
  by (simp_all add: emit_candle_def)

lemma update_bar_callbacks [simp]: "cb_callbacks (update_bar t i cb) = cb_callbacks cb"
  by (simp add: update_bar_def Let_def split: option.split)

lemma update_bar_filed:
  assumes "filed cb"
  shows "filed (update_bar t i cb)"
  using assms
  by (auto simp: filed_def update_bar_def Let_def update_conv' start_bar_def
      extend_bar_def bar_state_init_def split: option.splits)

lemma update_bar_other:
  assumes "filed cb" and "(tk_token t, j) \<noteq> (tok, i)"
  shows "bar_at tok i (update_bar t j cb) = bar_at tok i cb"
    "received n tok i (update_bar t j cb) = received n tok i cb"
proof -
  have "received n tok i (cb\<lparr>cb_open_bars := b\<rparr>) = received n tok i cb" for b cb
    by (simp add: received_def)
  then show "bar_at tok i (update_bar t j cb) = bar_at tok i cb"
    "received n tok i (update_bar t j cb) = received n tok i cb"
    using assms
    by (auto simp: update_bar_def Let_def bar_at_def update_conv' received_emit filed_def
        bar_state_init_def split: option.splits)
qed

lemma update_bar_same:
  assumes "filed cb" and "tk_token t = tok" and "n < cb_callbacks cb"
    and "bar_at tok i cb = (if xs = [] then None else Some (run_bar tok i (last (groups (\<lambda>t. bar_start t i) xs))))"
    and "received n tok i cb = map (run_candle tok i) (butlast (groups (\<lambda>t. bar_start t i) xs))"
    and pos: "\<forall>t \<in> set xs. 0 < tk_ltp t"
  shows "bar_at tok i (update_bar t i cb)
        = Some (run_bar tok i (last (groups (\<lambda>t. bar_start t i) (xs @ [t]))))"
    "received n tok i (update_bar t i cb)
        = map (run_candle tok i) (butlast (groups (\<lambda>t. bar_start t i) (xs @ [t])))"
proof -
  let ?f = "\<lambda>t. bar_start t i"
  define g where "g = last (groups ?f xs)"
  have rec: "received n tok i (cb\<lparr>cb_open_bars := b\<rparr>) = received n tok i cb" for b cb
    by (simp add: received_def)
  have "bar_at tok i (update_bar t i cb) = Some (run_bar tok i (last (groups ?f (xs @ [t]))))
     \<and> received n tok i (update_bar t i cb) = map (run_candle tok i) (butlast (groups ?f (xs @ [t])))"
  proof (cases "xs = []")
    case True
    then have "map_of (cb_open_bars cb) (tok, i) = None" using assms(4) by (simp add: bar_at_def)
    then show ?thesis
      using True assms(2,5)
      by (simp add: update_bar_def Let_def bar_state_init_def bar_at_def update_conv' rec
          start_run_bar)
  next
    case False
    have gin: "g \<in> set (groups ?f xs)" using False by (simp add: g_def)
    then have g: "g \<noteq> []" by (rule groups_nonempty)
    have same: "?f (last xs) = ?f (hd g)"
      using groups_same [OF gin last_in_set [OF g]] last_groups [OF False, of ?f] by (simp add: g_def)
    have look: "map_of (cb_open_bars cb) (tok, i) = Some (run_bar tok i g)"
      using False assms(4) by (simp add: bar_at_def g_def)
    have "hd g \<in> set xs" using gin g groups_concat [of ?f xs] by (metis UN_I hd_in_set set_concat)
    then have o: "0 < br_open (run_bar tok i g)" using pos by (simp add: run_bar_def)
    have st: "br_start_ns (run_bar tok i g) = ?f (hd g)" "br_initialized (run_bar tok i g)"
      by (simp_all add: run_bar_def)
    show ?thesis
    proof (cases "?f (hd g) = ?f t")
      case True
      then show ?thesis
        using False assms(2,5) look st o extend_run_bar [OF g, of t tok i] same
        by (simp add: update_bar_def Let_def bar_at_def update_conv' rec groups_snoc g_def butlast_append)
    next
      case neq: False
      have b: "bar_candle (run_bar tok i g) (?f (hd g) + interval_ns i - 1) = run_candle tok i g"
        using run_bar_candle [of tok i g] by (simp only: st)
      have "br_token (run_bar tok i g) = tok" "br_interval_sec (run_bar tok i g) = i"
        by (simp_all add: run_bar_def)
      moreover have "map (run_candle tok i) (groups ?f xs)
          = map (run_candle tok i) (butlast (groups ?f xs)) @ [run_candle tok i g]"
      proof -
        have "butlast (groups ?f xs) @ [g] = groups ?f xs" using False by (simp add: g_def)
        then show ?thesis by (metis map_append list.simps(8,9))
      qed
      ultimately show ?thesis
        using neq False assms(2,3,5) look st o same b
        by (simp add: update_bar_def Let_def bar_at_def update_conv' rec received_emit groups_snoc
            start_run_bar)
    qed
  qed
  then show "bar_at tok i (update_bar t i cb)
        = Some (run_bar tok i (last (groups (\<lambda>t. bar_start t i) (xs @ [t]))))"
    "received n tok i (update_bar t i cb)
        = map (run_candle tok i) (butlast (groups (\<lambda>t. bar_start t i) (xs @ [t])))"
    by auto
qed

section \<open>All intervals\<close>

definition tracks :: "nat \<Rightarrow> u64 \<Rightarrow> u32 \<Rightarrow> tick list \<Rightarrow> candle_builder \<Rightarrow> bool" where
  "tracks n tok i xs cb \<longleftrightarrow> filed cb \<and> n < cb_callbacks cb
     \<and> bar_at tok i cb = (if xs = [] then None else Some (run_bar tok i (last (groups (\<lambda>t. bar_start t i) xs))))
     \<and> received n tok i cb = map (run_candle tok i) (butlast (groups (\<lambda>t. bar_start t i) xs))"

lemma tracks_other:
  "tracks n tok i xs cb \<Longrightarrow> (tk_token t, j) \<noteq> (tok, i) \<Longrightarrow> tracks n tok i xs (update_bar t j cb)"
  using update_bar_other(1) [of cb t j tok i] update_bar_other(2) [of cb t j tok i n]
    update_bar_filed [of cb t j]
  unfolding tracks_def by (metis update_bar_callbacks)

lemma tracks_others:
  "tracks n tok i xs cb \<Longrightarrow> i \<notin> set js \<Longrightarrow> tracks n tok i xs (update_bars t js cb)"
proof (induction js arbitrary: cb)
  case (Cons k ks)
  then have "tracks n tok i xs (update_bar t k cb)" by (intro tracks_other) auto
  with Cons show ?case by simp
qed simp

lemma update_bars_tracks:
  assumes "tracks n tok i xs cb" and "distinct is" and "\<forall>t \<in> set xs. 0 < tk_ltp t"
  shows "tracks n tok i (xs @ (if tk_token t = tok \<and> i \<in> set is then [t] else [])) (update_bars t is cb)"
  using assms
proof (induction "is" arbitrary: xs cb)
  case (Cons j js)
  show ?case
  proof (cases "tk_token t = tok \<and> j = i")
    case True
    then have "tracks n tok i (xs @ [t]) (update_bar t j cb)"
      using Cons.prems update_bar_same [of cb t tok n i xs] update_bar_filed [of cb t i]
      by (simp add: tracks_def)
    with True Cons.prems(2) show ?thesis by (simp add: tracks_others)
  next
    case False
    then have "tracks n tok i xs (update_bar t j cb)"
      by (intro tracks_other [OF Cons.prems(1)]) auto
    from Cons.IH [OF this] Cons.prems False show ?thesis by auto
  qed
qed simp

lemma run_ticks_tracks:
  assumes "n < cb_callbacks cb" and "cb_open_bars cb = []" and "cb_out cb = []" and "i \<in> set INTERVALS"
    and "\<forall>t \<in> set ts. 0 < tk_ltp t"
  shows "tracks n tok i (filter (\<lambda>t. tk_token t = tok) ts) (run_ticks ts cb)"
  using assms(5)
proof (induction ts rule: rev_induct)
  case Nil
  show ?case using assms by (simp add: tracks_def filed_def bar_at_def received_def)
next
  case (snoc t ts)
  have "tracks n tok i (filter (\<lambda>t. tk_token t = tok) ts
      @ (if tk_token t = tok \<and> i \<in> set INTERVALS then [t] else [])) (cb_on_tick t (run_ticks ts cb))"
    unfolding cb_on_tick_def by (rule update_bars_tracks) (use snoc in \<open>auto simp: INTERVALS_def\<close>)
  then show ?case using assms(4) by (simp add: run_ticks_snoc split: if_splits)
qed

definition listening :: "nat \<Rightarrow> candle_builder" where
  \<comment> \<open>a new builder with callbacks registered\<close>
  "listening k = candle_builder_new\<lparr>cb_callbacks := k\<rparr>"

text \<open>
  C18: every callback gets, for every instrument and interval, one candle for each completed run of
  ticks with the same bar start, in order: open, high, low and close are the first, highest, lowest
  and last price of the run. The last run stays open.
\<close>

lemma candles_are_runs:
  assumes "\<forall>t \<in> set ts. 0 < tk_ltp t" and "i \<in> set INTERVALS" and "n < k"
  shows "received n tok i (run_ticks ts (listening k))
     = map (run_candle tok i) (butlast (groups (\<lambda>t. bar_start t i) (filter (\<lambda>t. tk_token t = tok) ts)))"
  using run_ticks_tracks [of n "listening k" i ts tok] assms
  by (simp add: tracks_def listening_def candle_builder_new_def)

definition a_tick :: "u64 \<Rightarrow> dbl \<Rightarrow> tick" where
  \<comment> \<open>a tick of instrument 7, at a second of the day and a price\<close>
  "a_tick sec p = tick_init\<lparr>tk_token := 7, tk_ltp := p, tk_exchange_ts_ns := sec * 1000000000\<rparr>"

lemma a_tick_simps [simp]: "tk_token (a_tick sec p) = 7" "tk_ltp (a_tick sec p) = p"
  "tk_volume (a_tick sec p) = 0" "tk_oi (a_tick sec p) = 0"
  by (simp_all add: a_tick_def tick_init_def)

lemma candles_are_runs_witness:
  "received 0 7 60 (run_ticks [a_tick 61 100, a_tick 70 90, a_tick 110 95, a_tick 125 98] (listening 1))
     = [run_candle 7 60 [a_tick 61 100, a_tick 70 90, a_tick 110 95]]"
proof -
  have "bar_start (a_tick 61 100) 60 = 60000000000" "bar_start (a_tick 70 90) 60 = 60000000000"
    "bar_start (a_tick 110 95) 60 = 60000000000" "bar_start (a_tick 125 98) 60 = 120000000000"
    by (simp_all add: bar_start_def interval_ns_def tick_ts_def a_tick_def)
  then show ?thesis
    using candles_are_runs [of "[a_tick 61 100, a_tick 70 90, a_tick 110 95, a_tick 125 98]" 60 0 1 7]
    by (simp add: INTERVALS_def)
qed

section \<open>Every candle\<close>

definition candle_ok :: "candle \<Rightarrow> bool" where
  "candle_ok c \<longleftrightarrow> 0 < cd_low c \<and> cd_low c \<le> cd_open c \<and> cd_low c \<le> cd_close c
     \<and> cd_open c \<le> cd_high c \<and> cd_close c \<le> cd_high c
     \<and> cd_open_ts_ns c mod interval_ns (cd_interval_sec c) = 0"

definition bar_ok :: "bar_state \<Rightarrow> bool" where
  "bar_ok b \<longleftrightarrow> br_initialized b \<and> candle_ok (bar_candle b 0)"

definition candles_inv :: "candle_builder \<Rightarrow> bool" where
  "candles_inv cb \<longleftrightarrow> (\<forall>(key, b) \<in> set (cb_open_bars cb). bar_ok b) \<and> (\<forall>(n, c) \<in> set (cb_out cb). candle_ok c)"

lemma bar_candle_ok: "bar_ok b \<Longrightarrow> candle_ok (bar_candle b ts)"
  by (simp add: bar_ok_def candle_ok_def bar_candle_def)

lemma bar_start_aligned: "bar_start t i mod interval_ns i = 0"
proof -
  let ?x = "tick_ts t" and ?y = "interval_ns i"
  have "unat ?x div unat ?y * unat ?y < 2 ^ 64"
    using unsigned_less [of ?x, where 'a = nat] by (intro le_less_trans [OF div_times_less_eq_dividend]) simp
  then have "unat (?x div ?y * ?y) = unat ?x div unat ?y * unat ?y"
    unfolding unat_word_ariths(2) unat_div by simp
  then have "unat (?x div ?y * ?y mod ?y) = unat (0 :: u64)" by (simp add: unat_mod)
  then have "?x div ?y * ?y mod ?y = 0" by (rule unsigned_word_eqI)
  then show ?thesis by (simp only: bar_start_def)
qed

lemma start_bar_ok: "0 < tk_ltp t \<Longrightarrow> bar_ok (start_bar t i b)"
  by (simp add: bar_ok_def candle_ok_def bar_candle_def start_bar_def bar_start_aligned)

lemma extend_bar_ok: "bar_ok b \<Longrightarrow> 0 < tk_ltp t \<Longrightarrow> bar_ok (extend_bar t b)"
  by (auto simp: bar_ok_def candle_ok_def bar_candle_def extend_bar_def min_def max_def)

lemma emit_candle_inv: "candles_inv cb \<Longrightarrow> bar_ok b \<Longrightarrow> candles_inv (emit_candle b ts cb)"
  by (auto simp: candles_inv_def emit_candle_def bar_candle_ok)

lemma candles_inv_update:
  "candles_inv cb \<Longrightarrow> bar_ok b \<Longrightarrow> candles_inv (cb\<lparr>cb_open_bars := AList.update k b (cb_open_bars cb)\<rparr>)"
  using set_alist_update_subset [of k b "cb_open_bars cb"] by (fastforce simp: candles_inv_def)

lemma update_bar_inv:
  assumes "candles_inv cb" and "0 < tk_ltp t"
  shows "candles_inv (update_bar t i cb)"
proof -
  have old: "bar_ok b" if "map_of (cb_open_bars cb) (tk_token t, i) = Some b" for b
    using assms(1) map_of_SomeD [OF that] by (auto simp: candles_inv_def)
  note up = candles_inv_update [where k = "(tk_token t, i)"]
  show ?thesis
  proof (cases "map_of (cb_open_bars cb) (tk_token t, i)")
    case None
    then show ?thesis
      using up [OF assms(1) start_bar_ok [OF assms(2)]]
      by (simp add: update_bar_def Let_def bar_state_init_def)
  next
    case (Some b)
    note b = old [OF Some]
    then show ?thesis
      using Some up [OF assms(1) start_bar_ok [OF assms(2)]] up [OF assms(1) extend_bar_ok [OF b assms(2)]]
        up [OF emit_candle_inv [OF assms(1) b] start_bar_ok [OF assms(2)]]
      by (simp add: update_bar_def Let_def bar_ok_def)
  qed
qed

lemma update_bars_inv: "candles_inv cb \<Longrightarrow> 0 < tk_ltp t \<Longrightarrow> candles_inv (update_bars t is cb)"
  by (induction "is" arbitrary: cb) (simp_all add: update_bar_inv)

lemma run_ticks_inv: "candles_inv cb \<Longrightarrow> \<forall>t \<in> set ts. 0 < tk_ltp t \<Longrightarrow> candles_inv (run_ticks ts cb)"
  by (induction ts arbitrary: cb) (simp_all add: cb_on_tick_def update_bars_inv)

lemma emit_open_inv:
  "candles_inv cb \<Longrightarrow> \<forall>(key, b) \<in> set bars. bar_ok b \<Longrightarrow> candles_inv (emit_open bars now cb)"
  by (induction bars now cb rule: emit_open.induct) (auto simp: emit_candle_inv)

text \<open>
  C19: every candle any callback receives, from ticks at positive prices in any order or from the flush
  at the end of the day, has a positive low, open and close between low and high, and starts at a
  multiple of its interval.
\<close>

lemma candles_well_formed:
  assumes "\<forall>t \<in> set ts. 0 < tk_ltp t"
  shows "\<forall>(n, c) \<in> set (cb_out (flush_all ts_ns sys_ns (run_ticks ts (listening k)))). candle_ok c"
proof -
  have "candles_inv (run_ticks ts (listening k))"
    by (rule run_ticks_inv) (use assms in \<open>simp_all add: candles_inv_def listening_def candle_builder_new_def\<close>)
  then have "candles_inv (emit_open (cb_open_bars (run_ticks ts (listening k))) now (run_ticks ts (listening k)))" for now
    by (intro emit_open_inv) (simp_all add: candles_inv_def)
  then show ?thesis unfolding candles_inv_def flush_all_def Let_def by simp
qed

lemma candles_well_formed_witness:
  "list_all candle_ok (map snd (cb_out (flush_all 0 5 (run_ticks [a_tick 61 100, a_tick 125 98] (listening 1)))))"
proof -
  have "\<forall>t \<in> set [a_tick 61 100, a_tick 125 98]. 0 < tk_ltp t" by simp
  from candles_well_formed [OF this, of 0 5 1] show ?thesis
    unfolding list_all_iff by (auto simp del: run_ticks.simps)
qed

text \<open>
  A tick whose exchange time falls in an earlier bar closes the current bar early, and the interval
  it interrupts is emitted in parts: two candles with the same start.
\<close>

lemma late_tick_splits_bar:
  assumes "bar_start t1 i = bar_start t3 i" and "bar_start t2 i \<noteq> bar_start t1 i"
    and "bar_start t4 i \<notin> {bar_start t1 i, bar_start t2 i}" and "i \<in> set INTERVALS" and "n < k"
    and "\<forall>t \<in> {t1, t2, t3, t4}. 0 < tk_ltp t \<and> tk_token t = tok"
  shows "map cd_open_ts_ns (received n tok i (run_ticks [t1, t2, t3, t4] (listening k)))
     = [bar_start t1 i, bar_start t2 i, bar_start t1 i]"
proof -
  have "tracks n tok i (filter (\<lambda>t. tk_token t = tok) [t1, t2, t3, t4]) (run_ticks [t1, t2, t3, t4] (listening k))"
    by (rule run_ticks_tracks) (use assms(4-6) in \<open>simp_all add: listening_def candle_builder_new_def\<close>)
  then have "received n tok i (run_ticks [t1, t2, t3, t4] (listening k))
      = map (run_candle tok i) (butlast (groups (\<lambda>t. bar_start t i) [t1, t2, t3, t4]))"
  proof -
    assume "tracks n tok i (filter (\<lambda>t. tk_token t = tok) [t1, t2, t3, t4]) (run_ticks [t1, t2, t3, t4] (listening k))"
    moreover have "filter (\<lambda>t. tk_token t = tok) [t1, t2, t3, t4] = [t1, t2, t3, t4]" using assms(6) by simp
    ultimately show ?thesis unfolding tracks_def by metis
  qed
  also have "groups (\<lambda>t. bar_start t i) [t1, t2, t3, t4] = [[t1], [t2], [t3], [t4]]"
    using assms(1-3) by (auto split: if_splits)
  finally show ?thesis using assms(1) by (simp add: run_candle_def)
qed

lemma late_tick_splits_bar_witness:
  "map cd_open_ts_ns (received 0 7 60 (run_ticks [a_tick 121 100, a_tick 119 99, a_tick 122 101, a_tick 181 98]
     (listening 1))) = [120000000000, 60000000000, 120000000000]"
proof -
  have "bar_start (a_tick 121 100) 60 = 120000000000" "bar_start (a_tick 119 99) 60 = 60000000000"
    "bar_start (a_tick 122 101) 60 = 120000000000" "bar_start (a_tick 181 98) 60 = 180000000000"
    by (simp_all add: bar_start_def interval_ns_def tick_ts_def a_tick_def)
  then show ?thesis
    using late_tick_splits_bar [of "a_tick 121 100" 60 "a_tick 122 101" "a_tick 119 99" "a_tick 181 98" 0 1 7]
    by (simp add: INTERVALS_def)
qed

end
