(* ===== verification/QF_Normalizer.thy ===== *)
theory QF_Normalizer
  imports QF_Spsc QF_Disruptor QF_Candle_Props
begin

text \<open>
  The tick normalizer of \<open>cpp/market_data/tick_normalizer.cpp\<close>: it takes raw ticks from the ring,
  drops stale and insane ones, and gives the rest to the disruptor, the candle builder and, if set,
  the Kafka function. \<open>normalizer_iter\<close> is one turn of \<open>run\<close>.
\<close>

section \<open>State and operations\<close>

record normalizer =
  nm_raw_queue :: "tick spsc"
  nm_disruptor :: "tick disruptor"
  nm_candle_builder :: candle_builder
  nm_has_kafka_fn :: bool
  nm_kafka_out :: "tick list"
  nm_ticks_processed :: u64
  nm_stale_dropped :: u64
  nm_sanity_rejected :: u64

definition set_kafka_fn :: "normalizer \<Rightarrow> normalizer" where
  "set_kafka_fn nm = nm\<lparr>nm_has_kafka_fn := True\<rparr>"

definition MAX_PRICE_MOVE_PCT :: dbl where
  "MAX_PRICE_MOVE_PCT = 20 / 100"

definition validate :: "tick \<Rightarrow> normalizer \<Rightarrow> bool \<times> normalizer" where
  "validate t nm =
     (if tk_is_stale t then (False, nm\<lparr>nm_stale_dropped := nm_stale_dropped nm + 1\<rparr>)
      else if tk_ltp t \<le> 0 then (False, nm\<lparr>nm_sanity_rejected := nm_sanity_rejected nm + 1\<rparr>)
      else if tk_open t > 0 then
        let deviation = \<bar>tk_ltp t - tk_open t\<bar> / tk_open t
        in if deviation > MAX_PRICE_MOVE_PCT then
             if deviation > 1 / 2
             then (False, nm\<lparr>nm_sanity_rejected := nm_sanity_rejected nm + 1\<rparr>)
             else (True, nm)
           else (True, nm)
      else (True, nm))"

definition normalizer_iter :: "normalizer \<Rightarrow> normalizer" where
  "normalizer_iter nm =
     (case spsc_pop (nm_raw_queue nm) of
        (None, q) \<Rightarrow> nm\<lparr>nm_raw_queue := q\<rparr>
      | (Some t, q) \<Rightarrow>
          let (valid, nm) = validate t (nm\<lparr>nm_raw_queue := q\<rparr>)
          in if \<not> valid then nm
             else nm\<lparr>nm_disruptor := disr_push t (nm_disruptor nm),
                     nm_candle_builder := cb_on_tick t (nm_candle_builder nm),
                     nm_kafka_out := nm_kafka_out nm @ (if nm_has_kafka_fn nm then [t] else []),
                     nm_ticks_processed := nm_ticks_processed nm + 1\<rparr>)"

fun normalizer_turns :: "nat \<Rightarrow> normalizer \<Rightarrow> normalizer" where
  "normalizer_turns 0 nm = nm"
| "normalizer_turns (Suc n) nm = normalizer_turns n (normalizer_iter nm)"

section \<open>Which ticks pass\<close>

definition sane :: "tick \<Rightarrow> bool" where
  "sane t \<longleftrightarrow> 0 < tk_ltp t \<and> (0 < tk_open t \<longrightarrow> tk_ltp t \<in> {tk_open t / 2..tk_open t * (3 / 2)})"

definition valid_tick :: "tick \<Rightarrow> bool" where
  "valid_tick t \<longleftrightarrow> \<not> tk_is_stale t \<and> sane t"

lemma half_iff: "0 < c \<Longrightarrow> \<bar>p - c\<bar> / c \<le> 1 / 2 \<longleftrightarrow> p \<in> {c / 2..c * (3 / 2)}" for p c :: real
  by (simp only: pos_divide_le_eq) (auto simp: abs_if split: if_splits)

lemma validate_conv:
  "validate t nm = (valid_tick t, nm
     \<lparr>nm_stale_dropped := nm_stale_dropped nm + (if tk_is_stale t then 1 else 0),
      nm_sanity_rejected := nm_sanity_rejected nm + (if \<not> tk_is_stale t \<and> \<not> sane t then 1 else 0)\<rparr>)"
proof (cases "tk_is_stale t \<or> tk_ltp t \<le> 0 \<or> tk_open t \<le> 0")
  case True
  then show ?thesis by (auto simp: validate_def valid_tick_def sane_def not_less)
next
  case False
  define dev where "dev = \<bar>tk_ltp t - tk_open t\<bar> / tk_open t"
  have s: "sane t \<longleftrightarrow> dev \<le> 1 / 2"
    using half_iff [of "tk_open t" "tk_ltp t"] False by (simp add: sane_def dev_def)
  have "validate t nm = (if dev > MAX_PRICE_MOVE_PCT \<and> dev > 1 / 2
      then (False, nm\<lparr>nm_sanity_rejected := nm_sanity_rejected nm + 1\<rparr>) else (True, nm))"
    using False by (auto simp: validate_def Let_def dev_def)
  moreover have "dev > MAX_PRICE_MOVE_PCT \<and> dev > 1 / 2 \<longleftrightarrow> dev > 1 / 2"
    by (auto simp: MAX_PRICE_MOVE_PCT_def)
  ultimately show ?thesis
    using False by (auto simp: s valid_tick_def)
qed

text \<open>
  A tick passes exactly when it is fresh, its price is positive and, where an open price is known,
  the price is between half and one and a half times the open: the \<open>MAX_PRICE_MOVE_PCT\<close> of 20% never
  decides anything. The counters together go up by one exactly when it does not pass.
\<close>

lemma validate_spec:
  "(fst (validate t nm) \<longleftrightarrow> \<not> tk_is_stale t \<and> 0 < tk_ltp t
       \<and> (0 < tk_open t \<longrightarrow> tk_ltp t \<in> {tk_open t / 2..tk_open t * (3 / 2)}))
   \<and> nm_stale_dropped (snd (validate t nm)) + nm_sanity_rejected (snd (validate t nm))
       = nm_stale_dropped nm + nm_sanity_rejected nm + (if fst (validate t nm) then 0 else 1)"
  unfolding validate_conv by (auto simp: valid_tick_def sane_def)

definition idle_normalizer :: normalizer where
  "idle_normalizer = \<lparr>nm_raw_queue = spsc_new (2 ^ 16) tick_init, nm_disruptor = disr_new tick_init,
     nm_candle_builder = listening 1, nm_has_kafka_fn = True, nm_kafka_out = [],
     nm_ticks_processed = 0, nm_stale_dropped = 0, nm_sanity_rejected = 0\<rparr>"

lemma validate_spec_witness:
  "fst (validate (a_tick 60 100) idle_normalizer) \<and> \<not> fst (validate (a_tick 60 0) idle_normalizer)"
  using validate_spec [of "a_tick 60 100" idle_normalizer] validate_spec [of "a_tick 60 0" idle_normalizer]
  by (simp add: a_tick_def tick_init_def)

section \<open>The fan-out\<close>

lemma normalizer_iter_nil:
  assumes "spsc_inv k (nm_raw_queue nm)" and "spsc_items (nm_raw_queue nm) = []"
  shows "normalizer_iter nm = nm"
  using ring.deq_nil [OF assms] by (simp add: normalizer_iter_def)

lemma normalizer_iter_cons:
  assumes "spsc_inv k (nm_raw_queue nm)" and "spsc_items (nm_raw_queue nm) = t # ts"
  obtains q where "spsc_inv k q" "spsc_items q = ts" "normalizer_iter nm = nm
     \<lparr>nm_raw_queue := q,
      nm_disruptor := push_all (filter valid_tick [t]) (nm_disruptor nm),
      nm_candle_builder := run_ticks (filter valid_tick [t]) (nm_candle_builder nm),
      nm_kafka_out := nm_kafka_out nm @ (if nm_has_kafka_fn nm then filter valid_tick [t] else []),
      nm_ticks_processed := nm_ticks_processed nm + of_nat (length (filter valid_tick [t])),
      nm_stale_dropped := nm_stale_dropped nm + of_nat (length (filter tk_is_stale [t])),
      nm_sanity_rejected := nm_sanity_rejected nm
        + of_nat (length (filter (\<lambda>t. \<not> tk_is_stale t \<and> \<not> sane t) [t]))\<rparr>"
proof -
  obtain q where q: "spsc_pop (nm_raw_queue nm) = (Some t, q)" "spsc_inv k q" "spsc_items q = ts"
    using ring.deq_cons [OF assms] by blast
  show thesis
    by (rule that [OF q(2,3)])
      (auto simp: normalizer_iter_def q(1) validate_conv Let_def valid_tick_def)
qed

text \<open>
  After as many turns as there are queued ticks, the disruptor, the candle builder and Kafka have
  each been given exactly the valid ticks, in the order they were queued, and every tick is counted
  once: as processed, stale or insane.
\<close>

lemma normalizer_fans_out:
  assumes "spsc_inv k (nm_raw_queue nm)" and "length (spsc_items (nm_raw_queue nm)) \<le> n"
    and "ts = spsc_items (nm_raw_queue nm)" and "nm' = normalizer_turns n nm"
  shows "spsc_items (nm_raw_queue nm') = []
     \<and> nm_disruptor nm' = push_all (filter valid_tick ts) (nm_disruptor nm)
     \<and> nm_candle_builder nm' = run_ticks (filter valid_tick ts) (nm_candle_builder nm)
     \<and> nm_kafka_out nm' = nm_kafka_out nm @ (if nm_has_kafka_fn nm then filter valid_tick ts else [])
     \<and> nm_ticks_processed nm' = nm_ticks_processed nm + of_nat (length (filter valid_tick ts))
     \<and> nm_ticks_processed nm' + nm_stale_dropped nm' + nm_sanity_rejected nm'
         = nm_ticks_processed nm + nm_stale_dropped nm + nm_sanity_rejected nm + of_nat (length ts)"
  using assms
proof (induction n arbitrary: nm ts)
  case (Suc n)
  show ?case
  proof (cases ts)
    case Nil
    have "normalizer_iter nm = nm" using Suc.prems(1,3) Nil by (intro normalizer_iter_nil) auto
    then show ?thesis
      by (intro Suc.IH [OF Suc.prems(1) _ Suc.prems(3)]) (use Suc.prems Nil in simp_all)
  next
    case (Cons t us)
    then have c: "spsc_items (nm_raw_queue nm) = t # us" using Suc.prems(3) by simp
    obtain q where q: "spsc_inv k q" "spsc_items q = us" "normalizer_iter nm = nm
       \<lparr>nm_raw_queue := q,
        nm_disruptor := push_all (filter valid_tick [t]) (nm_disruptor nm),
        nm_candle_builder := run_ticks (filter valid_tick [t]) (nm_candle_builder nm),
        nm_kafka_out := nm_kafka_out nm @ (if nm_has_kafka_fn nm then filter valid_tick [t] else []),
        nm_ticks_processed := nm_ticks_processed nm + of_nat (length (filter valid_tick [t])),
        nm_stale_dropped := nm_stale_dropped nm + of_nat (length (filter tk_is_stale [t])),
        nm_sanity_rejected := nm_sanity_rejected nm
          + of_nat (length (filter (\<lambda>t. \<not> tk_is_stale t \<and> \<not> sane t) [t]))\<rparr>"
      by (rule normalizer_iter_cons [OF Suc.prems(1) c])
    define m where "m = normalizer_iter nm"
    have mq: "nm_raw_queue m = q" unfolding m_def q(3) by simp
    have m: "spsc_inv k (nm_raw_queue m)" "length (spsc_items (nm_raw_queue m)) \<le> n"
      "us = spsc_items (nm_raw_queue m)" "nm' = normalizer_turns n m"
      using q(1,2) Suc.prems(2,4) c by (simp_all add: mq) (simp add: m_def)
    have total: "nm_ticks_processed m + nm_stale_dropped m + nm_sanity_rejected m
        = nm_ticks_processed nm + nm_stale_dropped nm + nm_sanity_rejected nm + 1"
      and proc: "nm_ticks_processed m = nm_ticks_processed nm + of_nat (length (filter valid_tick [t]))"
      unfolding m_def q(3) by (simp_all add: valid_tick_def)
    have fan: "nm_disruptor m = push_all (filter valid_tick [t]) (nm_disruptor nm)"
      "nm_candle_builder m = run_ticks (filter valid_tick [t]) (nm_candle_builder nm)"
      "nm_kafka_out m = nm_kafka_out nm @ (if nm_has_kafka_fn nm then filter valid_tick [t] else [])"
      "nm_has_kafka_fn m = nm_has_kafka_fn nm"
      unfolding m_def q(3) by simp_all
    note ih = Suc.IH [OF m]
    have "nm_ticks_processed nm' + nm_stale_dropped nm' + nm_sanity_rejected nm'
        = nm_ticks_processed nm + nm_stale_dropped nm + nm_sanity_rejected nm + of_nat (length ts)"
    proof -
      have "nm_ticks_processed nm' + nm_stale_dropped nm' + nm_sanity_rejected nm'
          = (nm_ticks_processed m + nm_stale_dropped m + nm_sanity_rejected m) + of_nat (length us)"
        using ih by blast
      then show ?thesis unfolding total by (simp add: Cons)
    qed
    moreover have "nm_ticks_processed nm' = nm_ticks_processed nm + of_nat (length (filter valid_tick ts))"
      using ih proc Cons by (cases "valid_tick t") (simp_all add: ac_simps)
    moreover have "nm_disruptor nm' = push_all (filter valid_tick ts) (nm_disruptor nm)"
      "nm_candle_builder nm' = run_ticks (filter valid_tick ts) (nm_candle_builder nm)"
      "nm_kafka_out nm' = nm_kafka_out nm @ (if nm_has_kafka_fn nm then filter valid_tick ts else [])"
      using ih fan Cons by (cases "valid_tick t"; simp)+
    ultimately show ?thesis using ih by blast
  qed
qed simp

lemma normalizer_fans_out_witness:
  "nm_kafka_out (normalizer_turns 5 \<lparr>nm_raw_queue = snd (spsc_push (a_tick 61 0)
        (snd (spsc_push (a_tick 60 100) (spsc_new (2 ^ 16) tick_init)))),
      nm_disruptor = disr_new tick_init, nm_candle_builder = listening 1, nm_has_kafka_fn = True,
      nm_kafka_out = [], nm_ticks_processed = 0, nm_stale_dropped = 0, nm_sanity_rejected = 0\<rparr>)
     = [a_tick 60 100]"
proof -
  let ?q = "spsc_new (2 ^ 16) tick_init"
  have inv: "spsc_inv 16 ?q" by (rule spsc_inv_new) simp
  have e: "spsc_items ?q = []"
    by (simp add: spsc_items_def spsc_new_def ring_count_def)
  obtain q1 where q1: "snd (spsc_push (a_tick 60 100) ?q) = q1" "spsc_inv 16 q1"
    "spsc_items q1 = [a_tick 60 100]"
    using ring.enq_room [OF inv, of "a_tick 60 100"] e by auto
  obtain q2 where q2: "snd (spsc_push (a_tick 61 0) q1) = q2" "spsc_inv 16 q2"
    "spsc_items q2 = [a_tick 60 100, a_tick 61 0]"
    using ring.enq_room [OF q1(2), of "a_tick 61 0"] q1(3) by auto
  define nm where "nm = \<lparr>nm_raw_queue = q2, nm_disruptor = disr_new tick_init,
      nm_candle_builder = listening 1, nm_has_kafka_fn = True, nm_kafka_out = [],
      nm_ticks_processed = 0, nm_stale_dropped = 0, nm_sanity_rejected = 0\<rparr>"
  have nm: "spsc_inv 16 (nm_raw_queue nm)" "length (spsc_items (nm_raw_queue nm)) \<le> 5"
    "[a_tick 60 100, a_tick 61 0] = spsc_items (nm_raw_queue nm)"
    using q2 by (simp_all add: nm_def)
  have "valid_tick (a_tick 60 100)" "\<not> valid_tick (a_tick 61 0)"
    by (simp_all add: valid_tick_def sane_def a_tick_def tick_init_def)
  with normalizer_fans_out [OF nm refl] have "nm_kafka_out (normalizer_turns 5 nm) = [a_tick 60 100]"
    by (simp add: nm_def)
  then show ?thesis unfolding q1(1) q2(1) nm_def .
qed

end
