(* ===== verification/QF_Engine.thy ===== *)
theory QF_Engine
  imports QF_Oms_Edges QF_Risk_Props QF_Portfolio_Props QF_Normalizer
begin

text \<open>
  The wiring of \<open>cpp/main/main.cpp\<close> and of \<open>StrategyManager::build_context\<close>
  (\<open>cpp/strategy/strategy_manager.cpp\<close>): the risk gate in front of the OMS, the fill queue between
  the OMS and the portfolio, the callbacks that feed the risk gate's price cache and Kafka. A step of
  the engine is one call of a member function from the thread that makes it. What is published to
  Kafka is kept in order.
\<close>

section \<open>State\<close>

record engine =
  eg_config :: engine_config
  eg_oms :: oms
  eg_risk :: risk_engine
  eg_portfolio :: portfolio
  eg_normalizer :: normalizer
  eg_published_fills :: "fill list"

definition TICK_QUEUE_CAPACITY :: nat where "TICK_QUEUE_CAPACITY = 65536"

definition engine_new :: "engine_config \<Rightarrow> u64 \<Rightarrow> engine" where
  \<comment> \<open>the components in the order \<open>main\<close> builds and connects them\<close>
  "engine_new cfg now =
     \<lparr>eg_config = cfg,
      eg_oms = set_fill_callback (oms_new ORDER_POOL_SIZE FILL_QUEUE_CAPACITY (ec_paper_trading cfg)),
      eg_risk = configure cfg now risk_new,
      eg_portfolio = set_update_callback portfolio_new,
      eg_normalizer = set_kafka_fn
        \<lparr>nm_raw_queue = spsc_new TICK_QUEUE_CAPACITY tick_init, nm_disruptor = disr_new tick_init,
         nm_candle_builder = register_callback candle_builder_new, nm_has_kafka_fn = False,
         nm_kafka_out = [], nm_ticks_processed = 0, nm_stale_dropped = 0, nm_sanity_rejected = 0\<rparr>,
      eg_published_fills = []\<rparr>"

section \<open>Callbacks\<close>

definition fill_callback :: "fill \<Rightarrow> engine \<Rightarrow> engine" where
  \<comment> \<open>the function given to \<open>oms.set_fill_callback\<close>\<close>
  "fill_callback f eg = eg\<lparr>eg_risk := update_price (fl_token f) (fl_price f) (eg_risk eg),
     eg_published_fills := eg_published_fills eg @ [f]\<rparr>"

fun run_callbacks :: "oms_out list \<Rightarrow> engine \<Rightarrow> engine" where
  "run_callbacks [] eg = eg"
| "run_callbacks (FillCb f # outs) eg = run_callbacks outs (fill_callback f eg)"
| "run_callbacks (_ # outs) eg = run_callbacks outs eg"

definition with_oms :: "oms \<Rightarrow> engine \<Rightarrow> engine" where
  \<comment> \<open>the engine after a call that left the OMS as \<open>m\<close>, with the callbacks it made\<close>
  "with_oms m eg = run_callbacks (drop (length (om_out (eg_oms eg))) (om_out m)) (eg\<lparr>eg_oms := m\<rparr>)"

fun price_ticks :: "tick list \<Rightarrow> risk_engine \<Rightarrow> risk_engine" where
  \<comment> \<open>the first line of the function given to \<open>normalizer.set_kafka_fn\<close>, for each tick\<close>
  "price_ticks [] re = re"
| "price_ticks (t # ts) re = price_ticks ts (update_price (tk_token t) (tk_ltp t) re)"

section \<open>Steps\<close>

definition ctx_submit_order :: "strategy_config \<Rightarrow> order_request \<Rightarrow> int \<Rightarrow> u64 \<Rightarrow> clock \<Rightarrow> engine
    \<Rightarrow> bool \<times> engine" where
  \<comment> \<open>\<open>ctx.submit_order\<close> of a strategy: the risk gate, then the OMS\<close>
  "ctx_submit_order scfg req tt now ck eg =
     (let snapshot = get_snapshot (eg_portfolio eg);
          (decision, risk) = check req scfg snapshot tt now (eg_risk eg);
          eg = eg\<lparr>eg_risk := risk\<rparr>
      in if decision \<noteq> PASS then (False, eg)
         else let (accepted, m) = submit req ck (eg_oms eg) in (accepted, with_oms m eg))"

definition ctx_cancel_order :: "string \<Rightarrow> engine \<Rightarrow> bool \<times> engine" where
  "ctx_cancel_order oid eg = (let (ok, m) = cancel oid (eg_oms eg) in (ok, with_oms m eg))"

definition ctx_get_position :: "u64 \<Rightarrow> engine \<Rightarrow> position" where
  "ctx_get_position tok eg = get_position tok (eg_portfolio eg)"

definition ctx_available_capital :: "engine \<Rightarrow> dbl" where
  "ctx_available_capital eg = sn_available_capital (get_snapshot (eg_portfolio eg))"

definition portfolio_turn :: "engine \<Rightarrow> engine" where
  \<comment> \<open>one turn of the fill thread, on the queue the OMS pushes to\<close>
  "portfolio_turn eg = (let (q, pf) = fill_loop_iter (om_fill_queue (eg_oms eg), eg_portfolio eg)
     in eg\<lparr>eg_oms := (eg_oms eg)\<lparr>om_fill_queue := q\<rparr>, eg_portfolio := pf\<rparr>)"

definition normalizer_turn :: "engine \<Rightarrow> engine" where
  "normalizer_turn eg = (let nm = normalizer_iter (eg_normalizer eg)
     in eg\<lparr>eg_normalizer := nm,
           eg_risk := price_ticks (drop (length (nm_kafka_out (eg_normalizer eg))) (nm_kafka_out nm))
                        (eg_risk eg)\<rparr>)"

definition raw_tick :: "tick \<Rightarrow> engine \<Rightarrow> engine" where
  \<comment> \<open>the push at the end of the WebSocket handler; a full queue drops the tick\<close>
  "raw_tick t eg = eg\<lparr>eg_normalizer := (eg_normalizer eg)\<lparr>nm_raw_queue :=
     snd (spsc_push t (nm_raw_queue (eg_normalizer eg)))\<rparr>\<rparr>"

datatype engine_event =
  StrategyOrder strategy_config order_request int u64 clock
| StrategyCancel string
| EmsAck string string
| EmsError string string
| EmsFill string dbl int string u64
| PortfolioTurn
| NormalizerTurn
| RawTick tick
| KillOn
| KillOff
| ShutdownCancel

fun engine_step :: "engine_event \<Rightarrow> engine \<Rightarrow> engine" where
  "engine_step (StrategyOrder scfg req tt now ck) eg = snd (ctx_submit_order scfg req tt now ck eg)"
| "engine_step (StrategyCancel oid) eg = snd (ctx_cancel_order oid eg)"
| "engine_step (EmsAck ex oid) eg = with_oms (on_order_ack ex oid (eg_oms eg)) eg"
| "engine_step (EmsError oid reason) eg = with_oms (on_place_error oid reason (eg_oms eg)) eg"
| "engine_step (EmsFill ex p q tid now) eg = with_oms (on_fill ex p q tid now (eg_oms eg)) eg"
| "engine_step PortfolioTurn eg = portfolio_turn eg"
| "engine_step NormalizerTurn eg = normalizer_turn eg"
| "engine_step (RawTick t) eg = raw_tick t eg"
| "engine_step KillOn eg = eg\<lparr>eg_risk := engage_global_kill_switch (eg_risk eg)\<rparr>"
| "engine_step KillOff eg = eg\<lparr>eg_risk := disengage_global_kill_switch (eg_risk eg)\<rparr>"
| "engine_step ShutdownCancel eg = with_oms (cancel_all_open (eg_oms eg)) eg"

fun engine_run :: "engine_event list \<Rightarrow> engine \<Rightarrow> engine" where
  "engine_run [] eg = eg"
| "engine_run (e # es) eg = engine_run es (engine_step e eg)"

end
