(* ===== verification/QF_Engine_Props.thy ===== *)
theory QF_Engine_Props
  imports QF_Engine
begin

text \<open>
  Properties that span components: what the kill switch stops, that no fill of a paper session is
  lost or applied twice between the OMS and the portfolio, and what the missing mark to market does
  to the capital check.
\<close>

section \<open>Frames\<close>

lemma run_callbacks_frame [simp]:
  "eg_oms (run_callbacks outs eg) = eg_oms eg"
  "eg_portfolio (run_callbacks outs eg) = eg_portfolio eg"
  "eg_normalizer (run_callbacks outs eg) = eg_normalizer eg"
  "re_global_kill_switch (eg_risk (run_callbacks outs eg)) = re_global_kill_switch (eg_risk eg)"
  by (induction outs eg rule: run_callbacks.induct) (simp_all add: fill_callback_def update_price_def)

lemma with_oms_frame [simp]:
  "eg_oms (with_oms m eg) = m"
  "eg_portfolio (with_oms m eg) = eg_portfolio eg"
  "eg_normalizer (with_oms m eg) = eg_normalizer eg"
  "re_global_kill_switch (eg_risk (with_oms m eg)) = re_global_kill_switch (eg_risk eg)"
  by (simp_all add: with_oms_def)

lemma price_ticks_kill [simp]: "re_global_kill_switch (price_ticks ts re) = re_global_kill_switch re"
  by (induction ts arbitrary: re) (simp_all add: update_price_def)

lemma check_kill [simp]:
  "re_global_kill_switch (snd (check req scfg pf tt now re)) = re_global_kill_switch re"
  by (simp add: check_eq)

lemma ctx_submit_order_eq:
  "ctx_submit_order scfg req tt now ck eg =
     (let c = check req scfg (pf_snapshot (eg_portfolio eg)) tt now (eg_risk eg); eg1 = eg\<lparr>eg_risk := snd c\<rparr>
      in if fst c = PASS
         then (fst (submit req ck (eg_oms eg)), with_oms (snd (submit req ck (eg_oms eg))) eg1)
         else (False, eg1))"
  by (simp add: ctx_submit_order_def Let_def split_beta get_snapshot_def)

section \<open>The kill switch\<close>

definition orders_sent :: "oms \<Rightarrow> nat" where
  \<comment> \<open>orders handed to the exchange\<close>
  "orders_sent m = length (filter (\<lambda>e. case e of EmsPlace _ _ \<Rightarrow> True | _ \<Rightarrow> False) (om_out m))"

lemma orders_sent_emit: "orders_sent (emit e m) = orders_sent m + (case e of EmsPlace _ _ \<Rightarrow> 1 | _ \<Rightarrow> 0)"
  by (simp add: orders_sent_def emit_def split: oms_out.split)

lemma orders_sent_cong: "om_out m = om_out m' \<Longrightarrow> orders_sent m = orders_sent m'"
  by (simp add: orders_sent_def)

lemma orders_sent_frame [simp]:
  "orders_sent (on_order_ack ex oid m) = orders_sent m"
  "orders_sent (on_fill ex p q tid now m) = orders_sent m"
  "orders_sent (on_reject ex reason m) = orders_sent m"
  "orders_sent (on_place_error oid reason m) = orders_sent m"
  "orders_sent (snd (cancel oid m)) = orders_sent m"
proof -
  have dl: "orders_sent (deliver_fill f m) = orders_sent m" for f m
    by (simp add: deliver_fill_def Let_def orders_sent_emit) (simp add: orders_sent_def)
  have ud: "orders_sent (upd_slot i g m) = orders_sent m" "orders_sent (retire i x y m) = orders_sent m"
    for i g x y m
    by (rule orders_sent_cong; simp)+
  show "orders_sent (on_order_ack ex oid m) = orders_sent m"
    by (auto simp: on_order_ack_def ud split: option.split intro: orders_sent_cong)
  have "orders_sent (snd (dedup_guard tid m)) = orders_sent m"
    by (rule orders_sent_cong) (simp add: dedup_guard_eq)
  then show "orders_sent (on_fill ex p q tid now m) = orders_sent m"
    by (simp add: on_fill_def split_beta apply_fill_def Let_def dl ud split: option.split)
  have rj: "orders_sent (on_reject ex reason m) = orders_sent m" for ex
    by (simp add: on_reject_def Let_def orders_sent_emit ud split: option.split)
  then show "orders_sent (on_reject ex reason m) = orders_sent m" .
  show "orders_sent (on_place_error oid reason m) = orders_sent m"
    using rj [of "[]"] by (auto simp: on_place_error_def Let_def split: option.split intro: trans [OF orders_sent_cong])
  show "orders_sent (snd (cancel oid m)) = orders_sent m"
    by (cases rule: cancel_cases [of oid m]) (simp_all add: orders_sent_emit)
qed

lemma orders_sent_cancel_list [simp]: "orders_sent (cancel_list oids m) = orders_sent m"
  by (induction oids arbitrary: m) simp_all

lemma killed_step:
  assumes "re_global_kill_switch (eg_risk eg)" and "e \<noteq> KillOff"
  shows "re_global_kill_switch (eg_risk (engine_step e eg))
     \<and> om_seq (eg_oms (engine_step e eg)) = om_seq (eg_oms eg)
     \<and> orders_sent (eg_oms (engine_step e eg)) = orders_sent (eg_oms eg)"
proof -
  have [simp]: "om_seq (on_place_error oid reason m) = om_seq m" for oid reason m
    by (simp add: on_place_error_def Let_def split: option.split)
  have [simp]: "orders_sent (m\<lparr>om_fill_queue := q\<rparr>) = orders_sent m" for m q
    by (simp add: orders_sent_def)
  show ?thesis
    using assms
    by (cases e) (simp_all add: ctx_submit_order_eq check_eq Let_def ctx_cancel_order_def split_beta
        portfolio_turn_def normalizer_turn_def raw_tick_def engage_global_kill_switch_def
        cancel_all_open_def)
qed

lemma killed_run:
  assumes "re_global_kill_switch (eg_risk eg)" and "KillOff \<notin> set es"
  shows "om_seq (eg_oms (engine_run es eg)) = om_seq (eg_oms eg)
     \<and> orders_sent (eg_oms (engine_run es eg)) = orders_sent (eg_oms eg)"
  using assms
proof (induction es arbitrary: eg)
  case (Cons e es)
  then have "e \<noteq> KillOff" by auto
  note st = killed_step [OF Cons.prems(1) this]
  with Cons.IH [of "engine_step e eg"] Cons.prems show ?case by simp
qed simp

section \<open>From a paper order to the portfolio\<close>

fun paper_event :: "engine_event \<Rightarrow> bool" where
  \<comment> \<open>in paper mode the EMS is never called, so it never calls back\<close>
  "paper_event (StrategyOrder scfg req tt now ck) = in_i32 (rq_quantity req)"
| "paper_event (EmsAck ex oid) = False"
| "paper_event (EmsError oid reason) = False"
| "paper_event (EmsFill ex p q tid now) = False"
| "paper_event _ = True"

definition paper_engine :: "nat \<Rightarrow> nat \<Rightarrow> portfolio \<Rightarrow> fill list \<Rightarrow> engine \<Rightarrow> bool" where
  "paper_engine n k pf0 applied eg \<longleftrightarrow> paper_ready n k (eg_oms eg)
     \<and> om_out (eg_oms eg) = map FillCb (applied @ spsc_items (om_fill_queue (eg_oms eg)))
     \<and> eg_published_fills eg = applied @ spsc_items (om_fill_queue (eg_oms eg))
     \<and> eg_portfolio eg = process_fills applied pf0"

lemma run_callbacks_fills:
  "eg_published_fills (run_callbacks (map FillCb fs) eg) = eg_published_fills eg @ fs"
  by (induction fs arbitrary: eg) (simp_all add: fill_callback_def)

lemma process_fills_snoc: "process_fills (fs @ [f]) pf = process_fill f (process_fills fs pf)"
  by (simp add: process_fills_append)

lemma no_open_cancel: "om_orders m = [] \<Longrightarrow> cancel oid m = (False, m)" "om_orders m = [] \<Longrightarrow> cancel_all_open m = m"
  by (simp_all add: cancel_def cancel_all_open_def open_oids_def)

lemma with_oms_same: "with_oms (eg_oms eg) eg = eg"
  by (simp add: with_oms_def)

lemma paper_engine_order:
  assumes pe: "paper_engine n k pf0 applied eg" and "0 < n" and "unat (om_seq (eg_oms eg)) + 1 < 2 ^ 64"
    and "in_i32 (rq_quantity req)" and "length (spsc_items (om_fill_queue (eg_oms eg))) < 2 ^ k - 1"
  shows "paper_engine n k pf0 applied (with_oms (snd (submit req ck (eg_oms eg))) eg)"
proof -
  note st = paper_step [OF conjunct1 [OF pe [unfolded paper_engine_def]] assms(2-5) refl, of ck]
  define m where "m = snd (submit req ck (eg_oms eg))"
  define f where "f = paper_fill req ck (om_seq (eg_oms eg))"
  have m: "paper_ready n k m" "om_out m = om_out (eg_oms eg) @ [FillCb f]"
    "spsc_items (om_fill_queue m) = spsc_items (om_fill_queue (eg_oms eg)) @ [f]"
    using st by (simp_all add: m_def f_def)
  have "eg_published_fills (with_oms m eg) = eg_published_fills eg @ [f]"
    using run_callbacks_fills [of "[f]" "eg\<lparr>eg_oms := m\<rparr>"] by (simp add: with_oms_def m(2))
  then show ?thesis
    using pe m by (simp add: paper_engine_def m_def [symmetric])
qed

lemma paper_engine_turn:
  assumes pe: "paper_engine n k pf0 applied eg"
  shows "\<exists>applied'. paper_engine n k pf0 applied' (portfolio_turn eg)
     \<and> spsc_items (om_fill_queue (eg_oms (portfolio_turn eg))) = tl (spsc_items (om_fill_queue (eg_oms eg)))"
proof -
  let ?q = "om_fill_queue (eg_oms eg)"
  obtain q pf where it: "fill_loop_iter (?q, eg_portfolio eg) = (q, pf)" by fastforce
  have "spsc_inv k ?q" using pe by (simp add: paper_engine_def paper_ready_def oms_inv_def)
  from fill_loop_iter_items [OF this, of "eg_portfolio eg"] it
  have q: "spsc_inv k q" "spsc_items q = tl (spsc_items ?q)"
    "pf = process_fills (take 1 (spsc_items ?q)) (eg_portfolio eg)" by simp_all
  have "portfolio_turn eg = eg\<lparr>eg_oms := (eg_oms eg)\<lparr>om_fill_queue := q\<rparr>, eg_portfolio := pf\<rparr>"
    by (simp add: portfolio_turn_def it)
  moreover have "paper_engine n k pf0 (applied @ take 1 (spsc_items ?q))
      (eg\<lparr>eg_oms := (eg_oms eg)\<lparr>om_fill_queue := q\<rparr>, eg_portfolio := pf\<rparr>)"
    using pe q by (cases "spsc_items ?q")
      (auto simp: paper_engine_def paper_ready_def oms_inv_def process_fills_append)
  ultimately show ?thesis using q(2) by auto
qed

lemma paper_engine_other:
  assumes "paper_engine n k pf0 applied eg" and "eg_oms eg' = eg_oms eg"
    and "eg_portfolio eg' = eg_portfolio eg" and "eg_published_fills eg' = eg_published_fills eg"
  shows "paper_engine n k pf0 applied eg'"
  using assms by (simp add: paper_engine_def)

lemma submit_seq:
  "om_seq (snd (submit req ck m)) = om_seq m \<or> om_seq (snd (submit req ck m)) = om_seq m + 1"
  using oms_step_seq [of "Submit req ck" m] by simp

lemma paper_engine_step:
  assumes pe: "paper_engine n k pf0 applied eg" and n: "0 < n" and sq: "unat (om_seq (eg_oms eg)) + 1 < 2 ^ 64"
    and ev: "paper_event e" and room: "length (spsc_items (om_fill_queue (eg_oms eg))) < 2 ^ k - 1"
  shows "\<exists>applied'. paper_engine n k pf0 applied' (engine_step e eg)
     \<and> length (spsc_items (om_fill_queue (eg_oms (engine_step e eg)))) \<le> length (spsc_items (om_fill_queue (eg_oms eg))) + 1
     \<and> (om_seq (eg_oms (engine_step e eg)) = om_seq (eg_oms eg)
         \<or> om_seq (eg_oms (engine_step e eg)) = om_seq (eg_oms eg) + 1)"
proof -
  have none: "om_orders (eg_oms eg) = []" using pe by (simp add: paper_engine_def paper_ready_def)
  have same: "\<exists>applied'. paper_engine n k pf0 applied' eg'
      \<and> length (spsc_items (om_fill_queue (eg_oms eg'))) \<le> length (spsc_items (om_fill_queue (eg_oms eg))) + 1
      \<and> (om_seq (eg_oms eg') = om_seq (eg_oms eg) \<or> om_seq (eg_oms eg') = om_seq (eg_oms eg) + 1)"
    if "eg_oms eg' = eg_oms eg" "eg_portfolio eg' = eg_portfolio eg"
      "eg_published_fills eg' = eg_published_fills eg" for eg'
    using paper_engine_other [OF pe that] that(1) by (intro exI [of _ applied]) simp
  show ?thesis
  proof (cases e)
    case (StrategyOrder scfg req tt now ck)
    define eg1 where "eg1 = eg\<lparr>eg_risk := snd (check req scfg (pf_snapshot (eg_portfolio eg)) tt now (eg_risk eg))\<rparr>"
    have eg1: "eg_oms eg1 = eg_oms eg" "eg_portfolio eg1 = eg_portfolio eg"
      "eg_published_fills eg1 = eg_published_fills eg" by (simp_all add: eg1_def)
    show ?thesis
    proof (cases "fst (check req scfg (pf_snapshot (eg_portfolio eg)) tt now (eg_risk eg)) = PASS")
      case False
      then have "engine_step e eg = eg1" using StrategyOrder by (simp add: ctx_submit_order_eq eg1_def)
      with same [OF eg1] show ?thesis by simp
    next
      case True
      then have st: "engine_step e eg = with_oms (snd (submit req ck (eg_oms eg1))) eg1"
        using StrategyOrder by (simp add: ctx_submit_order_eq eg1_def)
      have q: "in_i32 (rq_quantity req)" using ev StrategyOrder by simp
      have "paper_engine n k pf0 applied eg1" using pe eg1 by (rule paper_engine_other)
      from paper_engine_order [OF this n _ q, of ck] sq room
      have pe': "paper_engine n k pf0 applied (engine_step e eg)" by (simp add: st eg1)
      have "length (spsc_items (om_fill_queue (eg_oms (engine_step e eg))))
          \<le> length (spsc_items (om_fill_queue (eg_oms eg))) + 1"
        using paper_step [OF _ n _ q room refl, of ck] sq pe by (simp add: st eg1 paper_engine_def)
      moreover have "om_seq (eg_oms (engine_step e eg)) = om_seq (eg_oms eg)
          \<or> om_seq (eg_oms (engine_step e eg)) = om_seq (eg_oms eg) + 1"
        using submit_seq [of req ck "eg_oms eg"] by (simp add: st eg1)
      ultimately show ?thesis using pe' by blast
    qed
  next
    case (StrategyCancel oid)
    then show ?thesis
      using same [of eg] by (simp add: ctx_cancel_order_def no_open_cancel [OF none] with_oms_same)
  next
    case ShutdownCancel
    then show ?thesis using same [of eg] by (simp add: no_open_cancel [OF none] with_oms_same)
  next
    case PortfolioTurn
    obtain applied' where "paper_engine n k pf0 applied' (portfolio_turn eg)"
      "spsc_items (om_fill_queue (eg_oms (portfolio_turn eg))) = tl (spsc_items (om_fill_queue (eg_oms eg)))"
      using paper_engine_turn [OF pe] by blast
    then show ?thesis using PortfolioTurn
      by (intro exI [of _ applied']) (simp add: portfolio_turn_def split_beta)
  next
    case NormalizerTurn
    then show ?thesis using same by (simp add: normalizer_turn_def Let_def)
  next
    case (RawTick t)
    then show ?thesis using same by (simp add: raw_tick_def)
  qed (use ev same in \<open>simp_all\<close>)
qed

lemma paper_engine_run:
  "paper_engine n k pf0 applied eg \<Longrightarrow> 0 < n \<Longrightarrow> list_all paper_event es \<Longrightarrow>
   unat (om_seq (eg_oms eg)) + length es < 2 ^ 64 \<Longrightarrow>
   length (spsc_items (om_fill_queue (eg_oms eg))) + length es \<le> 2 ^ k - 1 \<Longrightarrow>
   \<exists>applied'. paper_engine n k pf0 applied' (engine_run es eg)"
proof (induction es arbitrary: eg applied)
  case (Cons e es)
  have sq: "unat (om_seq (eg_oms eg)) + 1 < 2 ^ 64" using Cons.prems(4) by simp
  have room: "length (spsc_items (om_fill_queue (eg_oms eg))) < 2 ^ k - 1" using Cons.prems(5) by simp
  have ev: "paper_event e" "list_all paper_event es" using Cons.prems(3) by simp_all
  obtain applied' where st: "paper_engine n k pf0 applied' (engine_step e eg)"
    "length (spsc_items (om_fill_queue (eg_oms (engine_step e eg)))) \<le> length (spsc_items (om_fill_queue (eg_oms eg))) + 1"
    "om_seq (eg_oms (engine_step e eg)) = om_seq (eg_oms eg) \<or> om_seq (eg_oms (engine_step e eg)) = om_seq (eg_oms eg) + 1"
    using paper_engine_step [OF Cons.prems(1,2) sq ev(1) room] by blast
  have "unat (om_seq (eg_oms (engine_step e eg))) + length es < 2 ^ 64"
    using st(3) unat_plus_one [OF sq] Cons.prems(4) by auto
  moreover have "length (spsc_items (om_fill_queue (eg_oms (engine_step e eg)))) + length es \<le> 2 ^ k - 1"
    using st(2) Cons.prems(5) by simp
  ultimately show ?case using Cons.IH [OF st(1) Cons.prems(2) ev(2)] by simp
qed auto

lemma paper_engine_bounds:
  "paper_engine n k pf0 applied eg \<Longrightarrow> 0 < n \<Longrightarrow> list_all paper_event es \<Longrightarrow>
   unat (om_seq (eg_oms eg)) + length es < 2 ^ 64 \<Longrightarrow>
   length (spsc_items (om_fill_queue (eg_oms eg))) + length es \<le> 2 ^ k - 1 \<Longrightarrow>
   unat (om_seq (eg_oms (engine_run es eg))) \<le> unat (om_seq (eg_oms eg)) + length es
   \<and> length (spsc_items (om_fill_queue (eg_oms (engine_run es eg))))
       \<le> length (spsc_items (om_fill_queue (eg_oms eg))) + length es"
proof (induction es arbitrary: eg applied)
  case (Cons e es)
  have sq: "unat (om_seq (eg_oms eg)) + 1 < 2 ^ 64" using Cons.prems(4) by simp
  have room: "length (spsc_items (om_fill_queue (eg_oms eg))) < 2 ^ k - 1" using Cons.prems(5) by simp
  have ev: "paper_event e" "list_all paper_event es" using Cons.prems(3) by simp_all
  obtain applied' where st: "paper_engine n k pf0 applied' (engine_step e eg)"
    "length (spsc_items (om_fill_queue (eg_oms (engine_step e eg)))) \<le> length (spsc_items (om_fill_queue (eg_oms eg))) + 1"
    "om_seq (eg_oms (engine_step e eg)) = om_seq (eg_oms eg) \<or> om_seq (eg_oms (engine_step e eg)) = om_seq (eg_oms eg) + 1"
    using paper_engine_step [OF Cons.prems(1,2) sq ev(1) room] by blast
  have u: "unat (om_seq (eg_oms (engine_step e eg))) \<le> unat (om_seq (eg_oms eg)) + 1"
    using st(3) unat_plus_one [OF sq] by auto
  then have "unat (om_seq (eg_oms (engine_step e eg))) + length es < 2 ^ 64"
    using Cons.prems(4) by simp
  moreover have "length (spsc_items (om_fill_queue (eg_oms (engine_step e eg)))) + length es \<le> 2 ^ k - 1"
    using st(2) Cons.prems(5) by simp
  ultimately have "unat (om_seq (eg_oms (engine_run es (engine_step e eg))))
        \<le> unat (om_seq (eg_oms (engine_step e eg))) + length es
      \<and> length (spsc_items (om_fill_queue (eg_oms (engine_run es (engine_step e eg)))))
        \<le> length (spsc_items (om_fill_queue (eg_oms (engine_step e eg)))) + length es"
    using Cons.IH [OF st(1) Cons.prems(2) ev(2)] by blast
  with u st(2) show ?case by simp
qed simp

lemma paper_engine_start:
  assumes "ec_paper_trading cfg"
  shows "paper_engine 10000 12 (set_update_callback portfolio_new) [] (engine_new cfg now)"
proof -
  let ?m = "set_fill_callback (oms_new 10000 (2 ^ 12) True)"
  have "oms_inv 10000 12 ?m"
    using oms_inv_new [of 12 10000 True] by (rule oms_inv_cong) (simp_all add: set_fill_callback_def)
  moreover have "spsc_items (om_fill_queue ?m) = []" "om_out ?m = []"
    by (simp_all add: set_fill_callback_def oms_new_def)
  moreover have "eg_oms (engine_new cfg now) = ?m"
    using assms by (simp add: engine_new_def ORDER_POOL_SIZE_def FILL_QUEUE_CAPACITY_def)
  ultimately show ?thesis
    by (simp add: paper_engine_def paper_ready_def engine_new_def set_fill_callback_def oms_new_def dedup_new_def)
qed



section \<open>A paper market order blinds the gate\<close>

lemma paper_order_price:
  assumes pe: "paper_engine n k pf0 applied eg" and n: "0 < n" and sq: "unat (om_seq (eg_oms eg)) + 1 < 2 ^ 64"
    and q: "in_i32 (rq_quantity req)" and room: "length (spsc_items (om_fill_queue (eg_oms eg))) < 2 ^ k - 1"
    and pass: "fst (check req scfg (pf_snapshot (eg_portfolio eg)) tt now (eg_risk eg)) = PASS"
  shows "current_price (rq_token req) (eg_risk (engine_step (StrategyOrder scfg req tt now ck) eg)) = rq_limit_price req"
proof -
  define eg1 where "eg1 = eg\<lparr>eg_risk := snd (check req scfg (pf_snapshot (eg_portfolio eg)) tt now (eg_risk eg))\<rparr>"
  define f where "f = paper_fill req ck (om_seq (eg_oms eg))"
  have o: "eg_oms eg1 = eg_oms eg" by (simp add: eg1_def)
  have st: "engine_step (StrategyOrder scfg req tt now ck) eg = with_oms (snd (submit req ck (eg_oms eg))) eg1"
    using pass by (simp add: ctx_submit_order_eq eg1_def)
  have "om_out (snd (submit req ck (eg_oms eg))) = om_out (eg_oms eg) @ [FillCb f]"
    using paper_step [OF _ n sq q room refl, of ck] pe by (simp add: f_def paper_engine_def)
  then have "eg_risk (engine_step (StrategyOrder scfg req tt now ck) eg)
      = update_price (fl_token f) (fl_price f) (eg_risk eg1)"
    unfolding st with_oms_def o by (simp add: fill_callback_def)
  then show ?thesis
    by (simp add: current_price_def update_price_def update_conv' f_def paper_fill_def)
qed

text \<open>
  C38: in a paper session, a market order that passes the gate is filled at its limit price of zero, and
  the fill callback makes that the last price the gate knows: until the next tick, orders of any size on the
  instrument get the same answer.
\<close>

lemma paper_market_order_blinds_gate:
  assumes "ec_paper_trading cfg" and "list_all paper_event es" and "length es < 4095"
    and "eg = engine_run es (engine_new cfg now0)"
    and "in_i32 (rq_quantity req)" and "rq_order_type req = MARKET" and "rq_limit_price req = 0"
    and "fst (check req scfg (pf_snapshot (eg_portfolio eg)) tt now (eg_risk eg)) = PASS"
    and "eg' = engine_step (StrategyOrder scfg req tt now ck) eg" and "rq_token req' = rq_token req"
  shows "current_price (rq_token req) (eg_risk eg') = 0
     \<and> check (req'\<lparr>rq_quantity := q\<rparr>) scfg' pf tt' now' (eg_risk eg')
         = check req' scfg' pf tt' now' (eg_risk eg')"
proof -
  have start: "om_seq (eg_oms (engine_new cfg now0)) = 0"
    "spsc_items (om_fill_queue (eg_oms (engine_new cfg now0))) = []"
    by (simp_all add: engine_new_def set_fill_callback_def oms_new_def)
  then obtain applied where pe: "paper_engine 10000 12 (set_update_callback portfolio_new) applied eg"
    using paper_engine_run [OF paper_engine_start [OF assms(1), of now0] _ assms(2)] assms(3,4) by auto
  have b: "unat (om_seq (eg_oms eg)) \<le> length es
      \<and> length (spsc_items (om_fill_queue (eg_oms eg))) \<le> length es"
    using paper_engine_bounds [OF paper_engine_start [OF assms(1), of now0] _ assms(2)] assms(3,4) start
    by simp
  have "current_price (rq_token req) (eg_risk eg') = rq_limit_price req"
    unfolding assms(9) by (rule paper_order_price [OF pe _ _ assms(5) _ assms(8)]) (use b assms(3) in simp_all)
  then show ?thesis
    using assms(7,10) by (simp add: unpriced_quantity_ignored)
qed

lemma paper_market_order_blinds_gate_witness:
  "current_price 7 (eg_risk (engine_step (StrategyOrder strategy_config_init (momentum_order 5) 363600 0
      \<lparr>ck_sys_ms = 0, ck_place_ns = 1, ck_fill_ns = 2\<rparr>) (engine_new engine_config_init 0))) = 0"
proof -
  let ?eg = "engine_new engine_config_init 0"
  let ?ck = "\<lparr>ck_sys_ms = 0, ck_place_ns = 1, ck_fill_ns = 2\<rparr>"
  have o: "is_open 363600" by (simp add: is_open_def gm_hour_def gm_min_def gm_wday_def)
  have "fst (check (momentum_order 5) strategy_config_init (pf_snapshot (eg_portfolio ?eg)) 363600 0 (eg_risk ?eg)) = PASS"
    using o by (simp add: check_eq rate_check_eq engine_new_def configure_def risk_new_def
        engine_config_init_def is_strategy_halted_def limit_checks_def current_price_def
        strategy_daily_pnl_def set_update_callback_def portfolio_new_def snapshot_init_def
        strategy_config_init_def risk_limits_init_def)
  moreover have "ec_paper_trading engine_config_init" by (simp add: engine_config_init_def)
  moreover have "in_i32 (rq_quantity (momentum_order 5))" "rq_order_type (momentum_order 5) = MARKET"
    "rq_limit_price (momentum_order 5) = 0" "rq_token (momentum_order 5) = 7"
    by (simp_all add: momentum_order_def order_request_init_def in_i32_def)
  ultimately show ?thesis
    using paper_market_order_blinds_gate [of engine_config_init "[]" ?eg 0 "momentum_order 5"
        strategy_config_init 363600 0 "engine_step (StrategyOrder strategy_config_init (momentum_order 5) 363600 0 ?ck) ?eg"
        ?ck "momentum_order 5"]
    by simp
qed

section \<open>The first order of a paper session\<close>

abbreviation first_order :: engine_event where
  "first_order \<equiv> StrategyOrder strategy_config_init (momentum_order 5) 363600 0 \<lparr>ck_sys_ms = 0, ck_place_ns = 1, ck_fill_ns = 2\<rparr>"

lemma first_order_passes:
  "fst (check (momentum_order 5) strategy_config_init (pf_snapshot (eg_portfolio (engine_new cfg 0))) 363600 0
     (eg_risk (engine_new cfg 0))) = PASS" if "ec_strategies cfg = []"
proof -
  have "is_open 363600" by (simp add: is_open_def gm_hour_def gm_min_def gm_wday_def)
  then show ?thesis
    using that by (simp add: check_eq rate_check_eq engine_new_def configure_def risk_new_def
        is_strategy_halted_def limit_checks_def current_price_def
        strategy_daily_pnl_def set_update_callback_def portfolio_new_def snapshot_init_def
        strategy_config_init_def risk_limits_init_def)
qed

lemma first_order_fill:
  assumes "ec_paper_trading cfg" and "ec_strategies cfg = []"
  obtains f where "spsc_inv 12 (om_fill_queue (eg_oms (engine_step first_order (engine_new cfg 0))))"
    and "spsc_items (om_fill_queue (eg_oms (engine_step first_order (engine_new cfg 0)))) = [f]"
    and "eg_published_fills (engine_step first_order (engine_new cfg 0)) = [f]"
    and "eg_portfolio (engine_step first_order (engine_new cfg 0)) = set_update_callback portfolio_new"
proof -
  let ?eg = "engine_new cfg 0"
  let ?ck = "\<lparr>ck_sys_ms = 0, ck_place_ns = 1, ck_fill_ns = 2\<rparr>"
  let ?m = "snd (submit (momentum_order 5) ?ck (eg_oms ?eg))"
  define eg1 where "eg1 = ?eg\<lparr>eg_risk := snd (check (momentum_order 5) strategy_config_init
    (pf_snapshot (eg_portfolio ?eg)) 363600 0 (eg_risk ?eg))\<rparr>"
  have st: "engine_step first_order ?eg = with_oms ?m eg1"
    using first_order_passes [OF assms(2)] by (simp add: ctx_submit_order_eq eg1_def)
  have pe: "paper_engine 10000 12 (set_update_callback portfolio_new) [] ?eg"
    using assms(1) by (rule paper_engine_start)
  have new: "om_seq (eg_oms ?eg) = 0" "spsc_items (om_fill_queue (eg_oms ?eg)) = []"
    by (simp_all add: engine_new_def set_fill_callback_def oms_new_def)
  have q: "in_i32 (rq_quantity (momentum_order 5))" by (simp add: momentum_order_def in_i32_def)
  obtain f where f: "paper_ready 10000 12 ?m" "spsc_items (om_fill_queue ?m) = [f]" "om_out ?m = om_out (eg_oms ?eg) @ [FillCb f]"
    using paper_step [OF conjunct1 [OF pe [unfolded paper_engine_def]] _ _ q _ refl, of ?ck] new by simp
  have new': "eg_portfolio ?eg = set_update_callback portfolio_new" "eg_published_fills ?eg = []" by (simp_all add: engine_new_def)
  show thesis
    by (rule that [of f]; unfold st)
      (use f new' in \<open>simp_all add: with_oms_def eg1_def fill_callback_def paper_ready_def oms_inv_def\<close>)
qed

section \<open>No mark to market\<close>

definition unmarked :: "portfolio \<Rightarrow> bool" where
  "unmarked pf \<longleftrightarrow> (\<forall>(tok, p) \<in> set (sn_positions (pf_snapshot pf)).
       ps_current_price p = 0 \<and> ps_unrealized_pnl p = 0) \<and> sn_total_unrealized_pnl (pf_snapshot pf) = 0"

lemma fill_unmarked:
  assumes "unmarked pf"
  shows "unmarked (process_fill f pf)"
proof -
  let ?p = "snapshot_get_position (pf_snapshot pf) (fl_token f)"
  have "ps_current_price ?p = 0 \<and> ps_unrealized_pnl ?p = 0"
    using assms map_of_SomeD [of "sn_positions (pf_snapshot pf)" "fl_token f"]
    by (fastforce simp: unmarked_def snapshot_get_position_def position_init_def split: option.split)
  then have "ps_current_price (fst (fill_position f (claim_position f ?p))) = 0
      \<and> ps_unrealized_pnl (fst (fill_position f (claim_position f ?p))) = 0"
    by (simp add: fill_position_def Let_def claim_position_def)
  moreover have "set (sn_positions (pf_snapshot (process_fill f pf)))
      \<subseteq> insert (fl_token f, fst (fill_position f (claim_position f ?p))) (set (sn_positions (pf_snapshot pf)))"
    using set_alist_update_subset by (simp add: process_fill_snapshot Let_def split_beta)
  moreover have "sn_total_unrealized_pnl (pf_snapshot (process_fill f pf)) = sn_total_unrealized_pnl (pf_snapshot pf)"
    by (simp add: process_fill_snapshot Let_def split_beta)
  ultimately show ?thesis using assms unfolding unmarked_def by fastforce
qed

lemma engine_step_unmarked:
  assumes "unmarked (eg_portfolio eg)"
  shows "unmarked (eg_portfolio (engine_step e eg))"
proof (cases e)
  case (StrategyOrder scfg req tt now ck)
  then show ?thesis using assms by (simp add: ctx_submit_order_eq Let_def)
next
  case PortfolioTurn
  then show ?thesis
    using assms by (auto simp: portfolio_turn_def fill_loop_iter_def fill_unmarked split: prod.splits option.splits)
qed (use assms in \<open>simp_all add: ctx_cancel_order_def split_beta normalizer_turn_def raw_tick_def Let_def\<close>)

text \<open>
  C39: the wiring never marks positions to market. In every run of the engine, paper or live, unrealized
  profit is zero and every strategy's used capital is zero, so the capital check of the gate compares the
  order alone with the allocation.
\<close>

lemma capital_in_use_always_zero:
  "strategy_used_capital (get_snapshot (eg_portfolio (engine_run es (engine_new cfg now)))) sid = 0
   \<and> sn_total_unrealized_pnl (get_snapshot (eg_portfolio (engine_run es (engine_new cfg now)))) = 0"
proof -
  have run: "unmarked (eg_portfolio eg) \<Longrightarrow> unmarked (eg_portfolio (engine_run es eg))" for eg
    by (induction es arbitrary: eg) (simp_all add: engine_step_unmarked)
  have "unmarked (eg_portfolio (engine_new cfg now))"
    by (simp add: unmarked_def engine_new_def set_update_callback_def portfolio_new_def snapshot_init_def)
  from run [OF this] have u: "unmarked (eg_portfolio (engine_run es (engine_new cfg now)))" .
  have "sum_positions sel position_value ps 0 = 0"
    if "\<forall>(tok, p) \<in> set ps. ps_current_price p = 0" for sel and ps :: "(u64 \<times> position) list"
    using that by (induction ps) (auto simp: position_value_def)
  with u show ?thesis
    by (fastforce simp: unmarked_def strategy_used_capital_def get_snapshot_def)
qed

end
