(* ===== verification/QF_Strategy_Manager.thy ===== *)
theory QF_Strategy_Manager
  imports QF_Types QF_Disruptor
begin

text \<open>
  The strategy manager of \<open>cpp/strategy/strategy_manager.cpp\<close>. A strategy is an object behind the
  interface \<open>IStrategy\<close>: its virtual functions are the fields of \<open>plugin\<close>, functions on the object's
  state \<open>'s\<close> and on the rest of the engine \<open>'w\<close>, which they change through the services of the
  context; each says whether it returned or threw a \<open>std::exception\<close>. What \<open>dlopen\<close>, \<open>dlsym\<close> and
  \<open>create_strategy\<close> give for a path is an argument. The body of a strategy's thread is cut into turns:
  \<open>on_start\<close>, one round of the loop, \<open>on_stop\<close>. A callback is one step.
\<close>

section \<open>The strategy interface\<close>

record strategy_context =
  cx_config :: strategy_config
  cx_get_last_tick :: "u64 \<Rightarrow> tick"

type_synonym ('s, 'w) outcome = "bool \<times> 's \<times> 'w" \<comment> \<open>false: an exception left the function\<close>

record ('s, 'w) plugin =
  pg_set_strategy_id :: "string \<Rightarrow> 's \<Rightarrow> 's"
  pg_on_start :: "strategy_context \<Rightarrow> 's \<Rightarrow> 'w \<Rightarrow> ('s, 'w) outcome"
  pg_on_stop :: "strategy_context \<Rightarrow> 's \<Rightarrow> 'w \<Rightarrow> ('s, 'w) outcome"
  pg_on_tick :: "strategy_context \<Rightarrow> tick \<Rightarrow> 's \<Rightarrow> 'w \<Rightarrow> ('s, 'w) outcome"
  pg_on_candle :: "strategy_context \<Rightarrow> candle \<Rightarrow> 's \<Rightarrow> 'w \<Rightarrow> ('s, 'w) outcome"
  pg_on_order_fill :: "strategy_context \<Rightarrow> fill \<Rightarrow> 's \<Rightarrow> 'w \<Rightarrow> ('s, 'w) outcome"
  pg_on_kill_signal :: "strategy_context \<Rightarrow> 's \<Rightarrow> 'w \<Rightarrow> ('s, 'w) outcome"
  pg_update_params :: "strategy_context \<Rightarrow> (string \<times> dbl) list \<Rightarrow> 's \<Rightarrow> 'w \<Rightarrow> ('s, 'w) outcome"

datatype 's created = DlopenFailed | DlsymFailed | NullStrategy | Created 's

section \<open>State\<close>

datatype thread_phase = Starting | Looping | Exited

record 's loaded_strategy =
  ld_instance :: 's
  ld_dl_handle :: "nat option"
  ld_config :: strategy_config
  ld_running :: bool
  ld_disruptor_seq :: int
  ld_tick :: tick
  ld_phase :: thread_phase

datatype library_call = Dlopen nat | Dlclose nat | DeleteInstance nat

record 's strategy_manager =
  sm_cfg :: engine_config
  sm_strategies :: "'s loaded_strategy list"
  sm_last_tick_cache :: "(u64 \<times> tick) list"
  sm_next_handle :: nat
  sm_library :: "library_call list"

definition strategy_manager_new :: "engine_config \<Rightarrow> 's strategy_manager" where
  "strategy_manager_new cfg = \<lparr>sm_cfg = cfg, sm_strategies = [], sm_last_tick_cache = [],
     sm_next_handle = 0, sm_library = []\<rparr>"

definition get_last_tick :: "(u64 \<times> tick) list \<Rightarrow> u64 \<Rightarrow> tick" where
  "get_last_tick cache tok = (case map_of cache tok of Some t \<Rightarrow> t | None \<Rightarrow> tick_init)"

definition build_context :: "(u64 \<times> tick) list \<Rightarrow> 's loaded_strategy \<Rightarrow> strategy_context" where
  "build_context cache s = \<lparr>cx_config = ld_config s, cx_get_last_tick = get_last_tick cache\<rparr>"

section \<open>Loading\<close>

definition load_strategy :: "('s, 'w) plugin \<Rightarrow> (string \<Rightarrow> 's created) \<Rightarrow> strategy_config
    \<Rightarrow> 's strategy_manager \<Rightarrow> string option \<times> 's strategy_manager" where
  \<comment> \<open>\<open>Some\<close> is the text of the exception; it goes on with what the dynamic loader says\<close>
  "load_strategy pg open_library cfg m =
     (let h = sm_next_handle m;
          opened = m\<lparr>sm_next_handle := Suc h, sm_library := sm_library m @ [Dlopen h]\<rparr>;
          closed = opened\<lparr>sm_library := sm_library opened @ [Dlclose h]\<rparr>
      in case open_library (sc_plugin_path cfg) of
           DlopenFailed \<Rightarrow> (Some ''dlopen failed: '', m)
         | DlsymFailed \<Rightarrow> (Some ''dlsym create_strategy: '', closed)
         | NullStrategy \<Rightarrow> (Some ''create_strategy() returned null'', closed)
         | Created inst \<Rightarrow> (None, opened\<lparr>sm_strategies := sm_strategies m @
             [\<lparr>ld_instance = pg_set_strategy_id pg (sc_id cfg) inst, ld_dl_handle = Some h,
               ld_config = cfg, ld_running = True, ld_disruptor_seq = -1, ld_tick = tick_init,
               ld_phase = Starting\<rparr>]\<rparr>))"

fun load_list :: "('s, 'w) plugin \<Rightarrow> (string \<Rightarrow> 's created) \<Rightarrow> strategy_config list
    \<Rightarrow> 's strategy_manager \<Rightarrow> 's strategy_manager" where
  "load_list pg open_library [] m = m"
| "load_list pg open_library (c # cs) m = load_list pg open_library cs (snd (load_strategy pg open_library c m))"

definition start_all :: "('s, 'w) plugin \<Rightarrow> (string \<Rightarrow> 's created) \<Rightarrow> 's strategy_manager
    \<Rightarrow> 's strategy_manager" where
  "start_all pg open_library m = load_list pg open_library (ec_strategies (sm_cfg m)) m"

section \<open>A strategy's thread\<close>

definition run_on_start :: "('s, 'w) plugin \<Rightarrow> (u64 \<times> tick) list \<Rightarrow> 's loaded_strategy \<Rightarrow> 'w
    \<Rightarrow> 's loaded_strategy \<times> 'w" where
  "run_on_start pg cache s w =
     (let (returned, i, w) = pg_on_start pg (build_context cache s) (ld_instance s) w
      in if returned then (s\<lparr>ld_instance := i, ld_phase := Looping\<rparr>, w)
         else (s\<lparr>ld_instance := i, ld_running := False, ld_phase := Exited\<rparr>, w))"

definition run_on_stop :: "('s, 'w) plugin \<Rightarrow> (u64 \<times> tick) list \<Rightarrow> 's loaded_strategy \<Rightarrow> 'w
    \<Rightarrow> 's loaded_strategy \<times> 'w" where
  "run_on_stop pg cache s w =
     (let (_, i, w) = pg_on_stop pg (build_context cache s) (ld_instance s) w
      in (s\<lparr>ld_instance := i\<rparr>, w))"

definition run_on_tick :: "('s, 'w) plugin \<Rightarrow> tick disruptor \<Rightarrow> (u64 \<times> tick) list
    \<Rightarrow> 's loaded_strategy \<Rightarrow> 'w \<Rightarrow> 's loaded_strategy \<times> (u64 \<times> tick) list \<times> 'w" where
  "run_on_tick pg d cache s w =
     (let (got, seq, t) = try_consume (ld_disruptor_seq s) (ld_tick s) d;
          s = s\<lparr>ld_disruptor_seq := seq, ld_tick := t\<rparr>
      in if \<not> got then (s, cache, w)
         else let cache = AList.update (tk_token t) t cache;
                  (_, i, w) = pg_on_tick pg (build_context cache s) t (ld_instance s) w
              in (s\<lparr>ld_instance := i\<rparr>, cache, w))"

definition thread_turn :: "('s, 'w) plugin \<Rightarrow> tick disruptor \<Rightarrow> (u64 \<times> tick) list
    \<Rightarrow> 's loaded_strategy \<Rightarrow> 'w \<Rightarrow> 's loaded_strategy \<times> (u64 \<times> tick) list \<times> 'w" where
  "thread_turn pg d cache s w =
     (case ld_phase s of
        Starting \<Rightarrow> (let (s, w) = run_on_start pg cache s w in (s, cache, w))
      | Looping \<Rightarrow>
          (if ld_running s then run_on_tick pg d cache s w
           else let (s, w) = run_on_stop pg cache s w in (s\<lparr>ld_phase := Exited\<rparr>, cache, w))
      | Exited \<Rightarrow> (s, cache, w))"

definition run_strategy_thread :: "('s, 'w) plugin \<Rightarrow> tick disruptor \<Rightarrow> nat
    \<Rightarrow> 's strategy_manager \<times> 'w \<Rightarrow> 's strategy_manager \<times> 'w" where
  \<comment> \<open>one turn of the thread of the strategy at position \<open>i\<close>\<close>
  "run_strategy_thread pg d i = (\<lambda>(m, w).
     if i < length (sm_strategies m)
     then let (s, cache, w) = thread_turn pg d (sm_last_tick_cache m) (sm_strategies m ! i) w
          in (m\<lparr>sm_strategies := (sm_strategies m)[i := s], sm_last_tick_cache := cache\<rparr>, w)
     else (m, w))"

section \<open>Stopping\<close>

definition stop_thread :: "('s, 'w) plugin \<Rightarrow> tick disruptor \<Rightarrow> (u64 \<times> tick) list
    \<Rightarrow> 's loaded_strategy \<Rightarrow> 'w \<Rightarrow> 's loaded_strategy \<times> (u64 \<times> tick) list \<times> 'w" where
  \<comment> \<open>\<open>join\<close>: the turns the thread still has once \<open>running\<close> is false\<close>
  "stop_thread pg d cache s w =
     (let (s, cache, w) = thread_turn pg d cache s w in thread_turn pg d cache s w)"

definition stop_one :: "('s, 'w) plugin \<Rightarrow> tick disruptor \<Rightarrow> 's loaded_strategy
    \<Rightarrow> (u64 \<times> tick) list \<Rightarrow> 'w \<Rightarrow> 's loaded_strategy \<times> (u64 \<times> tick) list \<times> 'w" where
  "stop_one pg d s cache w =
     (let (s, w) = run_on_stop pg cache s w in stop_thread pg d cache (s\<lparr>ld_running := False\<rparr>) w)"

fun stop_list :: "('s, 'w) plugin \<Rightarrow> tick disruptor \<Rightarrow> 's loaded_strategy list
    \<Rightarrow> 's strategy_manager \<times> 'w \<Rightarrow> 's strategy_manager \<times> 'w" where
  "stop_list pg d [] (m, w) = (m, w)"
| "stop_list pg d (s # ss) (m, w) =
     (let (s, cache, w) = stop_one pg d s (sm_last_tick_cache m) w;
          m = m\<lparr>sm_last_tick_cache := cache,
                sm_library := sm_library m @ (case ld_dl_handle s of None \<Rightarrow> [] | Some h \<Rightarrow> [Dlclose h])\<rparr>
      in stop_list pg d ss (m, w))"

definition stop_all :: "('s, 'w) plugin \<Rightarrow> tick disruptor \<Rightarrow> 's strategy_manager \<times> 'w
    \<Rightarrow> 's strategy_manager \<times> 'w" where
  \<comment> \<open>\<open>strategies_.clear()\<close> destroys the instances, each with code of its library\<close>
  "stop_all pg d = (\<lambda>(m, w).
     let ss = sm_strategies m; (m, w) = stop_list pg d ss (m, w)
     in (m\<lparr>sm_strategies := [],
           sm_library := sm_library m @ concat (map (\<lambda>s. case ld_dl_handle s of None \<Rightarrow> []
             | Some h \<Rightarrow> [DeleteInstance h]) ss)\<rparr>, w))"

section \<open>Dispatch\<close>

definition subscribed :: "strategy_config \<Rightarrow> u64 \<Rightarrow> bool" where
  "subscribed cfg tok \<longleftrightarrow> sc_instruments cfg = [] \<or> tok \<in> set (sc_instruments cfg)"

fun candle_list :: "('s, 'w) plugin \<Rightarrow> candle \<Rightarrow> (u64 \<times> tick) list \<Rightarrow> 's loaded_strategy list \<Rightarrow> 'w
    \<Rightarrow> 's loaded_strategy list \<times> 'w" where
  "candle_list pg c cache [] w = ([], w)"
| "candle_list pg c cache (s # ss) w =
     (let (s, w) = (if ld_running s \<and> subscribed (ld_config s) (cd_token c)
            then let (_, i, w) = pg_on_candle pg (build_context cache s) c (ld_instance s) w
                 in (s\<lparr>ld_instance := i\<rparr>, w)
            else (s, w));
          (ss, w) = candle_list pg c cache ss w
      in (s # ss, w))"

definition dispatch_candle :: "('s, 'w) plugin \<Rightarrow> candle \<Rightarrow> 's strategy_manager \<times> 'w
    \<Rightarrow> 's strategy_manager \<times> 'w" where
  "dispatch_candle pg c = (\<lambda>(m, w).
     let (ss, w) = candle_list pg c (sm_last_tick_cache m) (sm_strategies m) w
     in (m\<lparr>sm_strategies := ss\<rparr>, w))"

fun on_first :: "('s loaded_strategy \<Rightarrow> bool) \<Rightarrow> ('s loaded_strategy \<Rightarrow> 'w \<Rightarrow> 's loaded_strategy \<times> 'w)
    \<Rightarrow> 's loaded_strategy list \<Rightarrow> 'w \<Rightarrow> 's loaded_strategy list \<times> 'w" where
  \<comment> \<open>the loops that end at the first match\<close>
  "on_first sel act [] w = ([], w)"
| "on_first sel act (s # ss) w =
     (if sel s then let (s, w) = act s w in (s # ss, w)
      else let (ss, w) = on_first sel act ss w in (s # ss, w))"

definition dispatch_fill :: "('s, 'w) plugin \<Rightarrow> fill \<Rightarrow> 's strategy_manager \<times> 'w
    \<Rightarrow> 's strategy_manager \<times> 'w" where
  "dispatch_fill pg f = (\<lambda>(m, w).
     let (ss, w) = on_first (\<lambda>s. strncmp_eq MAX_STRATEGY_LEN (sc_id (ld_config s)) (fl_strategy_id f))
           (\<lambda>s w. let (_, i, w) = pg_on_order_fill pg (build_context (sm_last_tick_cache m) s) f (ld_instance s) w
                  in (s\<lparr>ld_instance := i\<rparr>, w))
           (sm_strategies m) w
     in (m\<lparr>sm_strategies := ss\<rparr>, w))"

definition halt_strategy :: "('s, 'w) plugin \<Rightarrow> string \<Rightarrow> 's strategy_manager \<times> 'w
    \<Rightarrow> 's strategy_manager \<times> 'w" where
  "halt_strategy pg sid = (\<lambda>(m, w).
     let (ss, w) = on_first (\<lambda>s. sc_id (ld_config s) = sid)
           (\<lambda>s w. let (_, i, w) = pg_on_kill_signal pg (build_context (sm_last_tick_cache m) s) (ld_instance s) w
                  in (s\<lparr>ld_instance := i, ld_running := False\<rparr>, w))
           (sm_strategies m) w
     in (m\<lparr>sm_strategies := ss\<rparr>, w))"

definition update_params :: "('s, 'w) plugin \<Rightarrow> string \<Rightarrow> (string \<times> dbl) list
    \<Rightarrow> 's strategy_manager \<times> 'w \<Rightarrow> 's strategy_manager \<times> 'w" where
  "update_params pg sid params = (\<lambda>(m, w).
     let (ss, w) = on_first (\<lambda>s. sc_id (ld_config s) = sid)
           (\<lambda>s w. let (_, i, w) = pg_update_params pg (build_context (sm_last_tick_cache m) s) params (ld_instance s) w
                  in (s\<lparr>ld_instance := i\<rparr>, w))
           (sm_strategies m) w
     in (m\<lparr>sm_strategies := ss\<rparr>, w))"

datatype manager_event =
  StartAll
| ThreadTurn nat
| DispatchCandle candle
| DispatchFill fill
| HaltStrategy string
| UpdateParams string "(string \<times> dbl) list"
| StopAll

fun manager_step :: "('s, 'w) plugin \<Rightarrow> (string \<Rightarrow> 's created) \<Rightarrow> ('w \<Rightarrow> tick disruptor) \<Rightarrow> manager_event
    \<Rightarrow> 's strategy_manager \<times> 'w \<Rightarrow> 's strategy_manager \<times> 'w" where
  "manager_step pg lib dis StartAll mw = (start_all pg lib (fst mw), snd mw)"
| "manager_step pg lib dis (ThreadTurn i) mw = run_strategy_thread pg (dis (snd mw)) i mw"
| "manager_step pg lib dis (DispatchCandle c) mw = dispatch_candle pg c mw"
| "manager_step pg lib dis (DispatchFill f) mw = dispatch_fill pg f mw"
| "manager_step pg lib dis (HaltStrategy sid) mw = halt_strategy pg sid mw"
| "manager_step pg lib dis (UpdateParams sid p) mw = update_params pg sid p mw"
| "manager_step pg lib dis StopAll mw = stop_all pg (dis (snd mw)) mw"

end
