(* ===== verification/QF_Strategy_Props.thy ===== *)
theory QF_Strategy_Props
  imports QF_Strategy_Manager
begin

text \<open>
  What the strategy manager does with any strategy: it hands a running one the published ticks in
  order, ends it for good when it is halted, starts the ones that load and skips the others; and where
  it falls short: it stops a strategy twice, deletes it after unloading its code, serves a stale last
  tick, and never delivers a fill to a strategy with a long id. A locale carries what every callback
  keeps over to what every operation of the manager keeps.
\<close>

section \<open>What callbacks keep, the manager keeps\<close>

locale keeping_plugin =
  fixes pg :: "('s, 'w) plugin" and keeps :: "'w \<Rightarrow> bool"
  assumes keeps_on_start: "keeps w \<Longrightarrow> keeps (snd (snd (pg_on_start pg cx i w)))"
    and keeps_on_stop: "keeps w \<Longrightarrow> keeps (snd (snd (pg_on_stop pg cx i w)))"
    and keeps_on_tick: "keeps w \<Longrightarrow> keeps (snd (snd (pg_on_tick pg cx t i w)))"
    and keeps_on_candle: "keeps w \<Longrightarrow> keeps (snd (snd (pg_on_candle pg cx c i w)))"
    and keeps_on_order_fill: "keeps w \<Longrightarrow> keeps (snd (snd (pg_on_order_fill pg cx f i w)))"
    and keeps_on_kill_signal: "keeps w \<Longrightarrow> keeps (snd (snd (pg_on_kill_signal pg cx i w)))"
    and keeps_update_params: "keeps w \<Longrightarrow> keeps (snd (snd (pg_update_params pg cx p i w)))"
begin

lemma run_on_start_keeps: "keeps w \<Longrightarrow> keeps (snd (run_on_start pg cache s w))"
  using keeps_on_start [of w "build_context cache s" "ld_instance s"]
  by (simp add: run_on_start_def split_beta)

lemma run_on_stop_keeps: "keeps w \<Longrightarrow> keeps (snd (run_on_stop pg cache s w))"
  using keeps_on_stop [of w "build_context cache s" "ld_instance s"]
  by (simp add: run_on_stop_def split_beta)

lemma run_on_tick_keeps: "keeps w \<Longrightarrow> keeps (snd (snd (run_on_tick pg d cache s w)))"
  by (simp add: run_on_tick_def split_beta Let_def keeps_on_tick)

lemma thread_turn_keeps: "keeps w \<Longrightarrow> keeps (snd (snd (thread_turn pg d cache s w)))"
  using run_on_start_keeps run_on_stop_keeps run_on_tick_keeps
  by (simp add: thread_turn_def split_beta split: thread_phase.split)

lemma run_strategy_thread_keeps: "keeps (snd mw) \<Longrightarrow> keeps (snd (run_strategy_thread pg d i mw))"
  using thread_turn_keeps by (simp add: run_strategy_thread_def split_beta)

lemma stop_one_keeps: "keeps w \<Longrightarrow> keeps (snd (snd (stop_one pg d s cache w)))"
  by (simp add: stop_one_def stop_thread_def split_beta thread_turn_keeps run_on_stop_keeps)

lemma stop_list_keeps: "keeps (snd mw) \<Longrightarrow> keeps (snd (stop_list pg d ss mw))"
proof (induction ss arbitrary: mw)
  case (Cons s ss)
  obtain m w where mw: "mw = (m, w)" by (cases mw)
  then show ?case using Cons stop_one_keeps [of w d s "sm_last_tick_cache m"]
    by (simp add: split_beta Let_def)
next
  case Nil
  then show ?case by (cases mw) simp
qed

lemma stop_all_keeps: "keeps (snd mw) \<Longrightarrow> keeps (snd (stop_all pg d mw))"
  using stop_list_keeps by (simp add: stop_all_def split_beta Let_def)

lemma on_first_keeps:
  "(\<And>s w. keeps w \<Longrightarrow> keeps (snd (act s w))) \<Longrightarrow> keeps w \<Longrightarrow> keeps (snd (on_first sel act ss w))"
  by (induction ss) (simp_all add: split_beta)

lemma candle_list_keeps: "keeps w \<Longrightarrow> keeps (snd (candle_list pg c cache ss w))"
  by (induction ss arbitrary: w) (simp_all add: split_beta keeps_on_candle Let_def)

lemma manager_step_keeps: "keeps (snd mw) \<Longrightarrow> keeps (snd (manager_step pg lib dis e mw))"
proof (cases e)
  case (DispatchFill f)
  assume "keeps (snd mw)"
  then show ?thesis
    unfolding DispatchFill manager_step.simps dispatch_fill_def split_beta Let_def snd_conv
    by (intro on_first_keeps) (simp_all add: keeps_on_order_fill)
next
  case (HaltStrategy f)
  assume "keeps (snd mw)"
  then show ?thesis
    unfolding HaltStrategy manager_step.simps halt_strategy_def split_beta Let_def snd_conv
    by (intro on_first_keeps) (simp_all add: keeps_on_kill_signal)
next
  case (UpdateParams f p)
  assume "keeps (snd mw)"
  then show ?thesis
    unfolding UpdateParams manager_step.simps update_params_def split_beta Let_def snd_conv
    by (intro on_first_keeps) (simp_all add: keeps_update_params)
qed (simp_all add: run_strategy_thread_keeps stop_all_keeps dispatch_candle_def split_beta Let_def candle_list_keeps)

end

section \<open>Starting\<close>

lemma load_list_config:
  "map ld_config (sm_strategies (load_list pg lib cs m)) = map ld_config (sm_strategies m)
     @ filter (\<lambda>c. \<exists>i. lib (sc_plugin_path c) = Created i) cs"
proof (induction cs arbitrary: m)
  case (Cons c cs)
  then show ?case
    by (cases "lib (sc_plugin_path c)") (simp_all add: load_strategy_def Let_def)
qed simp

text \<open>
  Starting loads, in configuration order, exactly the strategies whose plugin can be opened; one
  that fails is skipped and does not keep the others from starting.
\<close>

lemma start_all_loads:
  "map ld_config (sm_strategies (start_all pg lib (strategy_manager_new cfg)))
     = filter (\<lambda>c. \<exists>i. lib (sc_plugin_path c) = Created i) (ec_strategies cfg)"
  by (simp add: start_all_def load_list_config strategy_manager_new_def)

section \<open>Ticks\<close>

fun feed :: "('s, 'w) plugin \<Rightarrow> strategy_config \<Rightarrow> tick list \<Rightarrow> (u64 \<times> tick) list \<times> 's \<times> 'w
    \<Rightarrow> (u64 \<times> tick) list \<times> 's \<times> 'w" where
  \<comment> \<open>\<open>on_tick\<close> called for each tick of a list, the last-tick cache kept before each call\<close>
  "feed pg cfg [] ciw = ciw"
| "feed pg cfg (t # ts) (cache, i, w) =
     (let cache = AList.update (tk_token t) t cache;
          (_, i, w) = pg_on_tick pg \<lparr>cx_config = cfg, cx_get_last_tick = get_last_tick cache\<rparr> t i w
      in feed pg cfg ts (cache, i, w))"

fun strategy_run :: "('s, 'w) plugin \<Rightarrow> tick devent list \<Rightarrow> tick disruptor
    \<Rightarrow> 's loaded_strategy \<times> (u64 \<times> tick) list \<times> 'w \<Rightarrow> 's loaded_strategy \<times> (u64 \<times> tick) list \<times> 'w" where
  \<comment> \<open>pushes of the normalizer interleaved with turns of the strategy's thread\<close>
  "strategy_run pg [] d scw = scw"
| "strategy_run pg (Publish t # es) d scw = strategy_run pg es (disr_push t d) scw"
| "strategy_run pg (Consume # es) d (s, cache, w) = strategy_run pg es d (thread_turn pg d cache s w)"

lemma strategy_run_feeds:
  assumes "ld_phase s = Looping" and "ld_running s"
    and "strategy_run pg es d (s, cache, w) = (s', cache', w')"
  shows "(cache', ld_instance s', w')
     = feed pg (ld_config s) (disr_run es d (ld_disruptor_seq s) (ld_tick s)) (cache, ld_instance s, w)"
  using assms
proof (induction es arbitrary: d s cache w)
  case (Cons e es)
  show ?case
  proof (cases e)
    case (Publish t)
    with Cons show ?thesis by simp
  next
    case Consume
    obtain got sq t where c: "try_consume (ld_disruptor_seq s) (ld_tick s) d = (got, sq, t)"
      by (metis prod_cases3)
    let ?s = "s\<lparr>ld_disruptor_seq := sq, ld_tick := t\<rparr>"
    show ?thesis
    proof (cases got)
      case False
      then have "thread_turn pg d cache s w = (?s, cache, w)"
        using Cons.prems(1,2) c by (simp add: thread_turn_def run_on_tick_def)
      with Cons.IH [of ?s d cache w] Cons.prems c Consume False show ?thesis by simp
    next
      case True
      define ca where "ca = AList.update (tk_token t) t cache"
      obtain b i w1 where o: "pg_on_tick pg \<lparr>cx_config = ld_config s, cx_get_last_tick = get_last_tick ca\<rparr>
          t (ld_instance s) w = (b, i, w1)" by (metis prod_cases3)
      have "thread_turn pg d cache s w = (?s\<lparr>ld_instance := i\<rparr>, ca, w1)"
        using Cons.prems(1,2) c True o
        by (simp add: thread_turn_def run_on_tick_def build_context_def Let_def ca_def)
      with Cons.IH [of "?s\<lparr>ld_instance := i\<rparr>" d ca w1] Cons.prems c Consume True o show ?thesis
        by (simp add: ca_def Let_def)
    qed
  qed
qed simp

text \<open>
  C10: a started strategy is given the published ticks one by one and in order. In every interleaving of
  the normalizer's pushes with the turns of its thread in which it is never lapped, its state is what
  \<open>on_tick\<close> makes of a prefix of the published ticks.
\<close>

lemma strategy_sees_ticks_in_order:
  assumes "ld_phase s = Looping" and "ld_running s" and "ld_disruptor_seq s = -1"
    and "never_lapped es (disr_new d) (-1) (ld_tick s)" and "int (length (published es)) < 2 ^ 63"
    and "strategy_run pg es (disr_new d) (s, cache, w) = (s', cache', w')"
  shows "\<exists>seen rest. published es = seen @ rest
     \<and> (cache', ld_instance s', w') = feed pg (ld_config s) seen (cache, ld_instance s, w)"
  using strategy_run_feeds [OF assms(1,2,6)] disr_run_prefix [OF disr_inv_new, of 0 es d "ld_tick s"] assms(3-5)
  by simp metis

text \<open>A strategy that records what its callbacks are given, for the examples.\<close>

definition recorder :: "(string list, unit) plugin" where
  "recorder = \<lparr>pg_set_strategy_id = (\<lambda>_ i. i),
     pg_on_start = (\<lambda>_ i w. (True, i @ [''start''], w)), pg_on_stop = (\<lambda>_ i w. (True, i @ [''stop''], w)),
     pg_on_tick = (\<lambda>_ t i w. (True, i @ [tk_symbol t], w)), pg_on_candle = (\<lambda>_ c i w. (True, i @ [''candle''], w)),
     pg_on_order_fill = (\<lambda>_ f i w. (True, i @ [''fill''], w)), pg_on_kill_signal = (\<lambda>_ i w. (True, i @ [''kill''], w)),
     pg_update_params = (\<lambda>_ p i w. (True, i @ [''params''], w))\<rparr>"

definition recording :: "string \<Rightarrow> string list loaded_strategy" where
  "recording sid = \<lparr>ld_instance = [], ld_dl_handle = Some 0, ld_config = strategy_config_init\<lparr>sc_id := sid\<rparr>,
     ld_running = True, ld_disruptor_seq = -1, ld_tick = tick_init, ld_phase = Looping\<rparr>"

lemma strategy_sees_ticks_in_order_witness:
  "\<exists>seen rest. [tick_init\<lparr>tk_symbol := ''a''\<rparr>, tick_init\<lparr>tk_symbol := ''b''\<rparr>] = seen @ rest
     \<and> (\<lambda>(s, c, w). (c, ld_instance s, w)) (strategy_run recorder
          [Publish (tick_init\<lparr>tk_symbol := ''a''\<rparr>), Consume, Consume, Publish (tick_init\<lparr>tk_symbol := ''b''\<rparr>)]
          (disr_new tick_init) (recording ''s'', [], ()))
       = feed recorder (strategy_config_init\<lparr>sc_id := ''s''\<rparr>) seen ([], [], ())"
proof -
  let ?es = "[Publish (tick_init\<lparr>tk_symbol := ''a''\<rparr>), Consume, Consume, Publish (tick_init\<lparr>tk_symbol := ''b''\<rparr>)]"
  obtain s' c' w' where r: "strategy_run recorder ?es (disr_new tick_init) (recording ''s'', [], ()) = (s', c', w')"
    by (metis prod_cases3)
  have 1: "ld_phase (recording ''s'') = Looping" "ld_running (recording ''s'')" "ld_disruptor_seq (recording ''s'') = -1"
    by (simp_all add: recording_def)
  have 2: "never_lapped ?es (disr_new tick_init) (-1) (ld_tick (recording ''s''))"
    by (simp add: split_beta lag_def current_producer_seq_def disr_push_def claim_next_def publish_def
      disr_new_def BUFFER_SIZE_def i64_def try_consume_def Let_def)
  have 3: "int (length (published ?es)) < 2 ^ 63" by simp
  from strategy_sees_ticks_in_order [OF 1 2 3 r] show ?thesis
    unfolding r by (simp add: recording_def)
qed

text \<open>
  The shared last-tick cache follows whichever strategy thread ran last. A strategy that is behind
  puts the older tick it has just taken over a newer one of the same instrument.
\<close>

lemma last_tick_follows_slowest:
  assumes "int (length xs) < 2 ^ 63" and "j < length xs" and "length xs \<le> j + BUFFER_SIZE"
    and "k < length (sm_strategies m)" and "s = sm_strategies m ! k"
    and "ld_phase s = Looping" and "ld_running s" and "ld_disruptor_seq s = int j - 1"
  shows "get_last_tick (sm_last_tick_cache
      (fst (run_strategy_thread pg (push_all xs (disr_new d)) k (m, w)))) (tk_token (xs ! j)) = xs ! j"
proof -
  have inv: "disr_inv xs (push_all xs (disr_new d))"
    using push_all_inv [OF disr_inv_new, of xs d] assms(1) by simp
  note c = consume_available [OF inv assms(2,3)]
  show ?thesis
    using assms(4,6-8) c unfolding assms(5)
    by (simp add: run_strategy_thread_def thread_turn_def run_on_tick_def split_beta Let_def
        get_last_tick_def update_conv')
qed

lemma last_tick_follows_slowest_witness:
  "let old = tick_init\<lparr>tk_token := 7, tk_ltp := 100\<rparr>; new = tick_init\<lparr>tk_token := 7, tk_ltp := 105\<rparr>;
       m = (strategy_manager_new engine_config_init)\<lparr>sm_strategies := [recording ''slow''],
             sm_last_tick_cache := [(7, new)]\<rparr>
   in get_last_tick (sm_last_tick_cache m) 7 = new
    \<and> get_last_tick (sm_last_tick_cache
        (fst (run_strategy_thread recorder (push_all [old, new] (disr_new tick_init)) 0 (m, ())))) 7 = old"
proof -
  let ?old = "tick_init\<lparr>tk_token := 7, tk_ltp := 100\<rparr>" and ?new = "tick_init\<lparr>tk_token := 7, tk_ltp := 105\<rparr>"
  let ?m = "(strategy_manager_new engine_config_init)\<lparr>sm_strategies := [recording ''slow''],
             sm_last_tick_cache := [(7, ?new)]\<rparr>"
  have "get_last_tick (sm_last_tick_cache
        (fst (run_strategy_thread recorder (push_all [?old, ?new] (disr_new tick_init)) 0 (?m, ()))))
          (tk_token ([?old, ?new] ! 0)) = [?old, ?new] ! 0"
    by (rule last_tick_follows_slowest [where s = "recording ''slow''"])
      (simp_all add: recording_def BUFFER_SIZE_def)
  then show ?thesis by (simp add: get_last_tick_def)
qed

section \<open>Halting and stopping\<close>

lemma on_first_here:
  assumes "list_all (\<lambda>s. \<not> sel s) pre" and "sel s"
  shows "on_first sel act (pre @ s # post) w = (pre @ fst (act s w) # post, snd (act s w))"
  using assms by (induction pre) (simp_all add: split_beta)

text \<open>
  C34: halting ends a strategy for good. It gets the kill signal at once, its thread makes one last call,
  to \<open>on_stop\<close>, and no later turn hands it a tick.
\<close>

lemma halted_strategy_ends:
  assumes "sm_strategies m = pre @ s # post" and "list_all (\<lambda>x. sc_id (ld_config x) \<noteq> sid) pre"
    and "sc_id (ld_config s) = sid" and "ld_phase s = Looping"
    and "cx = build_context (sm_last_tick_cache m) s"
    and "pg_on_kill_signal pg cx (ld_instance s) w = (b, i1, w1)" and "pg_on_stop pg cx i1 w1 = (b', i2, w2)"
  shows "((run_strategy_thread pg d (length pre)) ^^ Suc n) (halt_strategy pg sid (m, w))
     = (m\<lparr>sm_strategies := pre @ s\<lparr>ld_instance := i2, ld_running := False, ld_phase := Exited\<rparr> # post\<rparr>, w2)"
proof -
  let ?x = "s\<lparr>ld_instance := i2, ld_running := False, ld_phase := Exited\<rparr>"
  have h: "halt_strategy pg sid (m, w)
      = (m\<lparr>sm_strategies := pre @ s\<lparr>ld_instance := i1, ld_running := False\<rparr> # post\<rparr>, w1)"
    using on_first_here [of "\<lambda>x. sc_id (ld_config x) = sid", OF assms(2,3), of _ _ w] assms(1,5,6)
    by (simp add: halt_strategy_def split_beta)
  have c: "build_context (sm_last_tick_cache m) (s\<lparr>ld_instance := i1, ld_running := False\<rparr>) = cx"
    using assms(5) by (simp add: build_context_def)
  have 1: "run_strategy_thread pg d (length pre) (halt_strategy pg sid (m, w))
      = (m\<lparr>sm_strategies := pre @ ?x # post\<rparr>, w2)"
    using assms(4,7) c
    by (simp add: h run_strategy_thread_def thread_turn_def run_on_stop_def split_beta)
  have 2: "run_strategy_thread pg d (length pre) (m\<lparr>sm_strategies := pre @ ?x # post\<rparr>, w2)
      = (m\<lparr>sm_strategies := pre @ ?x # post\<rparr>, w2)"
    by (simp add: run_strategy_thread_def thread_turn_def)
  show ?thesis
    by (induction n) (simp_all add: 1 2)
qed

lemma halted_strategy_ends_witness:
  "((run_strategy_thread recorder (push_all [tick_init] (disr_new tick_init)) 0) ^^ Suc 4)
      (halt_strategy recorder ''s'' ((strategy_manager_new engine_config_init)\<lparr>sm_strategies := [recording ''s'']\<rparr>, ()))
    = ((strategy_manager_new engine_config_init)\<lparr>sm_strategies :=
         [(recording ''s'')\<lparr>ld_instance := [''kill'', ''stop''], ld_running := False, ld_phase := Exited\<rparr>]\<rparr>, ())"
proof -
  let ?m = "(strategy_manager_new engine_config_init)\<lparr>sm_strategies := [recording ''s'']\<rparr>"
  have 1: "sm_strategies ?m = [] @ recording ''s'' # []"
    "list_all (\<lambda>x. sc_id (ld_config x) \<noteq> ''s'') ([] :: string list loaded_strategy list)"
    "sc_id (ld_config (recording ''s'')) = ''s''" "ld_phase (recording ''s'') = Looping"
    by (simp_all add: recording_def)
  have 2: "pg_on_kill_signal recorder (build_context (sm_last_tick_cache ?m) (recording ''s''))
      (ld_instance (recording ''s'')) () = (True, [''kill''], ())"
    by (simp add: recorder_def recording_def)
  have 3: "pg_on_stop recorder (build_context (sm_last_tick_cache ?m) (recording ''s'')) [''kill''] () = (True, [''kill'', ''stop''], ())"
    by (simp add: recorder_def)
  from halted_strategy_ends [OF 1 refl 2 3, where d = "push_all [tick_init] (disr_new tick_init)" and n = 4] show ?thesis by simp
qed

text \<open>
  Stopping calls \<open>on_stop\<close> of a running strategy twice, first from the thread that stops the engine
  and again from the strategy's own thread on its way out.
\<close>

lemma stop_calls_on_stop_twice:
  assumes "ld_phase s = Looping" and "cx = build_context cache s"
    and "pg_on_stop pg cx (ld_instance s) w = (b, i1, w1)" and "pg_on_stop pg cx i1 w1 = (b', i2, w2)"
  shows "stop_one pg d s cache w = (s\<lparr>ld_instance := i2, ld_running := False, ld_phase := Exited\<rparr>, cache, w2)"
  using assms
  by (simp add: stop_one_def stop_thread_def run_on_stop_def thread_turn_def build_context_def split_beta)

lemma stop_calls_on_stop_twice_witness:
  "ld_instance (fst (stop_one recorder (disr_new tick_init) (recording ''s'') [] ())) = [''stop'', ''stop'']"
proof -
  have 1: "ld_phase (recording ''s'') = Looping" by (simp add: recording_def)
  have 2: "pg_on_stop recorder (build_context [] (recording ''s'')) (ld_instance (recording ''s'')) () = (True, [''stop''], ())"
    "pg_on_stop recorder (build_context [] (recording ''s'')) [''stop''] () = (True, [''stop'', ''stop''], ())"
    by (simp_all add: recorder_def recording_def)
  from stop_calls_on_stop_twice [OF 1 refl 2, of "disr_new tick_init"] show ?thesis by simp
qed

lemma thread_turn_handle: "ld_dl_handle (fst (thread_turn pg d cache s w)) = ld_dl_handle s"
  by (simp add: thread_turn_def run_on_start_def run_on_stop_def run_on_tick_def split_beta Let_def
      split: thread_phase.split)

lemma stop_one_handle: "ld_dl_handle (fst (stop_one pg d s cache w)) = ld_dl_handle s"
  by (simp add: stop_one_def stop_thread_def run_on_stop_def split_beta thread_turn_handle)

definition handles :: "'s loaded_strategy list \<Rightarrow> nat list" where
  "handles ss = map the (filter (\<lambda>h. h \<noteq> None) (map ld_dl_handle ss))"

lemma stop_list_library:
  "sm_library (fst (stop_list pg d ss (m, w))) = sm_library m @ map Dlclose (handles ss)"
proof (induction ss arbitrary: m w)
  case (Cons s ss)
  have "ld_dl_handle (fst (stop_one pg d s (sm_last_tick_cache m) w)) = ld_dl_handle s"
    by (rule stop_one_handle)
  then show ?case
    by (simp add: split_beta Let_def Cons.IH handles_def split: option.split)
qed (simp add: handles_def)

lemma delete_events:
  "concat (map (\<lambda>s. case ld_dl_handle s of None \<Rightarrow> [] | Some h \<Rightarrow> [DeleteInstance h]) ss)
     = map DeleteInstance (handles ss)"
  by (induction ss) (auto simp: handles_def split: option.split)

text \<open>
  Every strategy object is deleted after its library has been closed: \<open>stop_all\<close> closes all the
  libraries first and destroys the objects, whose destructors are code of those libraries, at the end.
\<close>

lemma instances_outlive_libraries:
  "sm_library (fst (stop_all pg d (m, w)))
     = sm_library m @ map Dlclose (handles (sm_strategies m)) @ map DeleteInstance (handles (sm_strategies m))"
  by (simp add: stop_all_def split_beta Let_def stop_list_library delete_events)

section \<open>Dispatching fills\<close>

lemma on_first_other:
  "k < length ss \<Longrightarrow> \<not> sel (ss ! k) \<Longrightarrow> fst (on_first sel act ss w) ! k = ss ! k"
proof (induction ss arbitrary: k)
  case (Cons s ss)
  then show ?case by (cases k) (simp_all add: split_beta)
qed simp

text \<open>
  A strategy whose id has 32 characters or more never receives a fill: the id in a fill holds 31 of
  them, and the comparison looks at 32.
\<close>

lemma long_id_gets_no_fill:
  assumes "k < length (sm_strategies m)" and "32 \<le> length (c_str (sc_id (ld_config (sm_strategies m ! k))))"
    and "fl_strategy_id f = strncpy_buf MAX_STRATEGY_LEN sid"
  shows "sm_strategies (fst (dispatch_fill pg f (m, w))) ! k = sm_strategies m ! k"
proof -
  let ?id = "sc_id (ld_config (sm_strategies m ! k))"
  have "length (take 32 (c_str ?id)) = 32" using assms(2) by simp
  moreover have "length (take 32 (c_str (fl_strategy_id f))) < 32"
    using length_strncpy [of 32 sid] unfolding assms(3)
    by (simp add: MAX_STRATEGY_LEN_def c_str_id)
  ultimately have "\<not> strncmp_eq MAX_STRATEGY_LEN ?id (fl_strategy_id f)"
    unfolding strncmp_eq_def MAX_STRATEGY_LEN_def by (metis less_irrefl)
  then show ?thesis
    using assms(1) by (simp add: dispatch_fill_def split_beta Let_def on_first_other)
qed

lemma long_id_gets_no_fill_witness:
  "sm_strategies (fst (dispatch_fill recorder
       (fill_init\<lparr>fl_strategy_id := strncpy_buf MAX_STRATEGY_LEN (replicate 32 CHR ''x'')\<rparr>)
       ((strategy_manager_new engine_config_init)\<lparr>sm_strategies := [recording (replicate 32 CHR ''x'')]\<rparr>, ()))) ! 0
     = recording (replicate 32 CHR ''x'')"
  using long_id_gets_no_fill [of 0 "(strategy_manager_new engine_config_init)\<lparr>sm_strategies := [recording (replicate 32 CHR ''x'')]\<rparr>"
      "fill_init\<lparr>fl_strategy_id := strncpy_buf MAX_STRATEGY_LEN (replicate 32 CHR ''x'')\<rparr>" "replicate 32 CHR ''x''" recorder "()"]
  by (simp add: recording_def c_str_id)

end
