(* ===== verification/QF_Momentum.thy ===== *)
theory QF_Momentum
  imports QF_Types
begin

text \<open>
  The momentum strategy plugin, \<open>cpp/strategy/plugins/momentum_strategy.hpp\<close> and \<open>.cpp\<close>: the price
  series with its moving average and true range, the entry signal, the exits at stop and target, and
  the handling of fills. The services of the strategy context are an argument (one reading of the
  clock, the capital and the positions per call); the orders it hands to \<open>submit_order\<close> are kept in
  the order they are placed. \<open>on_candle\<close> is declared but has no definition in the repository.
\<close>

section \<open>Price series\<close>

record price_series =
  px_max_len :: nat
  px_data :: "dbl list"

definition px_new :: "nat \<Rightarrow> price_series" where
  "px_new max_len = \<lparr>px_max_len = max_len, px_data = []\<rparr>"

definition px_push :: "dbl \<Rightarrow> price_series \<Rightarrow> price_series" where
  "px_push price s = (let d = px_data s @ [price]
     in s\<lparr>px_data := (if length d > px_max_len s then tl d else d)\<rparr>)"

fun ema_loop :: "dbl \<Rightarrow> dbl \<Rightarrow> dbl list \<Rightarrow> dbl" where
  "ema_loop k val [] = val"
| "ema_loop k val (x # xs) = ema_loop k (x * k + val * (1 - k)) xs"

definition px_ema :: "nat \<Rightarrow> price_series \<Rightarrow> dbl" where
  \<comment> \<open>for period 0 the code reads one past the end; the model then gives no value\<close>
  "px_ema period s =
     (let d = px_data s; n = length d
      in if n < period then 0
         else ema_loop (2 / (real period + 1)) (d ! (n - period)) (drop (n - period + 1) d))"

definition true_range :: "dbl list \<Rightarrow> dbl list \<Rightarrow> dbl list \<Rightarrow> nat \<Rightarrow> dbl" where
  "true_range d highs lows i =
     (let tr = highs ! i - lows ! i
      in if i > 0 then max (max tr \<bar>highs ! i - d ! (i - 1)\<bar>) \<bar>lows ! i - d ! (i - 1)\<bar> else tr)"

definition px_atr :: "nat \<Rightarrow> dbl list \<Rightarrow> dbl list \<Rightarrow> price_series \<Rightarrow> dbl" where
  "px_atr period highs lows s =
     (let d = px_data s; n = length d
      in if n < period + 1 \<or> length highs < period \<or> length lows < period then 0
         else sum_list (map (true_range d highs lows) [n - period..<n]) / real period)"

definition px_size :: "price_series \<Rightarrow> nat" where
  "px_size s = length (px_data s)"

definition px_back :: "price_series \<Rightarrow> dbl" where
  "px_back s = (if px_data s = [] then 0 else last (px_data s))"

definition px_front :: "price_series \<Rightarrow> dbl" where
  "px_front s = (if px_data s = [] then 0 else hd (px_data s))"

definition px_ready :: "nat \<Rightarrow> price_series \<Rightarrow> bool" where
  "px_ready n s \<longleftrightarrow> length (px_data s) \<ge> n"

section \<open>State\<close>

record instrument_state =
  it_closes :: price_series
  it_highs :: "dbl list"
  it_lows :: "dbl list"
  it_last_ltp :: dbl
  it_entry_price :: dbl
  it_stop_price :: dbl
  it_target_price :: dbl
  it_open_order_id :: string
  it_in_position :: bool
  it_position_side :: side
  it_position_qty :: int
  it_last_signal_ts :: u64

definition instrument_state_init :: instrument_state where
  "instrument_state_init = \<lparr>it_closes = px_new 200, it_highs = [], it_lows = [], it_last_ltp = 0,
     it_entry_price = 0, it_stop_price = 0, it_target_price = 0, it_open_order_id = [],
     it_in_position = False, it_position_side = BUY, it_position_qty = 0, it_last_signal_ts = 0\<rparr>"

record momentum =
  mo_states :: "(u64 \<times> instrument_state) list"
  mo_ema_fast :: int
  mo_ema_slow :: int
  mo_atr_period :: int
  mo_atr_sl_multiplier :: dbl
  mo_atr_tp_multiplier :: dbl
  mo_risk_pct :: dbl
  mo_max_positions :: int
  mo_min_signal_strength :: dbl
  mo_eod_flatten_hhmm :: int
  mo_alive :: bool
  mo_start_ts_ns :: u64
  mo_id :: string
  mo_has_ctx :: bool
  mo_orders :: "order_request list"

definition momentum_new :: "string \<Rightarrow> momentum" where
  "momentum_new sid = \<lparr>mo_states = [], mo_ema_fast = 9, mo_ema_slow = 21, mo_atr_period = 14,
     mo_atr_sl_multiplier = 3 / 2, mo_atr_tp_multiplier = 3, mo_risk_pct = 1 / 100,
     mo_max_positions = 3, mo_min_signal_strength = 2 / 1000,
     mo_eod_flatten_hhmm = 1520, mo_alive = True, mo_start_ts_ns = 0,
     mo_id = sid, mo_has_ctx = False, mo_orders = []\<rparr>"

text \<open>What the context answers during one call.\<close>

record ctx_view =
  cv_now_ns :: u64
  cv_capital :: dbl
  cv_position :: "u64 \<Rightarrow> position"

definition inst :: "u64 \<Rightarrow> momentum \<Rightarrow> instrument_state" where
  \<comment> \<open>the element \<open>states_[token]\<close> refers to, a new one if there is none\<close>
  "inst tok m = (case map_of (mo_states m) tok of Some s \<Rightarrow> s | None \<Rightarrow> instrument_state_init)"

definition set_inst :: "u64 \<Rightarrow> instrument_state \<Rightarrow> momentum \<Rightarrow> momentum" where
  "set_inst tok s m = m\<lparr>mo_states := AList.update tok s (mo_states m)\<rparr>"

definition now_ns :: "ctx_view \<Rightarrow> momentum \<Rightarrow> u64" where
  "now_ns cv m = (if mo_has_ctx m then cv_now_ns cv else 0)"

definition size_of_int :: "int \<Rightarrow> nat" where
  \<comment> \<open>an \<open>int\<close> passed as a \<open>size_t\<close>\<close>
  "size_of_int i = unat (word_of_int i :: u64)"

definition trunc_int :: "dbl \<Rightarrow> int" where
  \<comment> \<open>\<open>static_cast<int>\<close> of a double in range\<close>
  "trunc_int x = (if x \<ge> 0 then \<lfloor>x\<rfloor> else \<lceil>x\<rceil>)"

section \<open>Orders\<close>

definition opposite :: "side \<Rightarrow> side" where
  "opposite sd = (if sd = BUY then SELL else BUY)"

definition place_market :: "ctx_view \<Rightarrow> u64 \<Rightarrow> side \<Rightarrow> int \<Rightarrow> string \<Rightarrow> momentum \<Rightarrow> momentum" where
  "place_market cv tok sd qty tag m =
     (let req = (order_request_init tok)\<lparr>rq_side := sd, rq_order_type := MARKET,
            rq_product := INTRADAY, rq_quantity := qty, rq_signal_strength := 1,
            rq_strategy_id := strncpy_buf MAX_STRATEGY_LEN (mo_id m),
            rq_tag := strncpy_buf MAX_TAG_LEN tag, rq_request_ts_ns := now_ns cv m\<rparr>
      in if mo_has_ctx m then m\<lparr>mo_orders := mo_orders m @ [req]\<rparr> else m)"

definition compute_qty :: "ctx_view \<Rightarrow> u64 \<Rightarrow> dbl \<Rightarrow> momentum \<Rightarrow> int" where
  "compute_qty cv tok atr_value m =
     (let capital = (if mo_has_ctx m then cv_capital cv else 0)
      in if capital \<le> 0 \<or> atr_value \<le> 0 then 0
         else let pos = (if mo_has_ctx m then cv_position cv tok else position_init);
                  price = (if ps_current_price pos > 0 then ps_current_price pos
                           else case map_of (mo_states m) tok of Some s \<Rightarrow> it_last_ltp s | None \<Rightarrow> 0)
              in if price \<le> 0 then 0
                 else max 1 (trunc_int (capital * mo_risk_pct m / (mo_atr_sl_multiplier m * atr_value))))"

section \<open>Entries and exits\<close>

definition try_entry :: "ctx_view \<Rightarrow> u64 \<Rightarrow> dbl \<Rightarrow> momentum \<Rightarrow> momentum" where
  "try_entry cv tok ltp m =
     (let m = set_inst tok (inst tok m) m; s = inst tok m;
          active = length (filter (\<lambda>(_, st). it_in_position st) (mo_states m));
          atr_val = px_atr (size_of_int (mo_atr_period m)) (it_highs s) (it_lows s) (it_closes s);
          fast = px_ema (size_of_int (mo_ema_fast m)) (it_closes s);
          slow = px_ema (size_of_int (mo_ema_slow m)) (it_closes s);
          sd = (if fast > slow then BUY else SELL);
          qty = compute_qty cv tok atr_val m
      in if int active \<ge> mo_max_positions m then m
         else if atr_val \<le> 0 then m
         else if qty \<le> 0 then m
         else
           let sg = (if sd = BUY then 1 else -1);
               s = s\<lparr>it_stop_price := ltp - sg * (mo_atr_sl_multiplier m * atr_val),
                     it_target_price := ltp + sg * (mo_atr_tp_multiplier m * atr_val),
                     it_entry_price := ltp, it_last_signal_ts := now_ns cv m\<rparr>
           in place_market cv tok sd qty (if sd = BUY then ''momentum-long'' else ''momentum-short'')
                (set_inst tok s m))"

definition evaluate_signal :: "ctx_view \<Rightarrow> u64 \<Rightarrow> momentum \<Rightarrow> momentum" where
  "evaluate_signal cv tok m =
     (let m = set_inst tok (inst tok m) m; s = inst tok m;
          fast = px_ema (size_of_int (mo_ema_fast m)) (it_closes s);
          slow = px_ema (size_of_int (mo_ema_slow m)) (it_closes s);
          separation = (fast - slow) / slow
      in if \<not> px_ready (size_of_int (i32 (mo_ema_slow m + 5))) (it_closes s) then m
         else if slow = 0 then m
         else if now_ns cv m - it_last_signal_ts s < 300 * 1000000000 then m
         else if \<not> it_in_position s \<and> \<bar>separation\<bar> \<ge> mo_min_signal_strength m
              then try_entry cv tok (it_last_ltp s) m
         else m)"

definition exit_tag :: "instrument_state \<Rightarrow> dbl \<Rightarrow> string option" where
  "exit_tag s price =
     (if it_position_side s = BUY
      then if price \<ge> it_target_price s then Some ''take-profit''
           else if price \<le> it_stop_price s then Some ''stop-loss'' else None
      else if price \<le> it_target_price s then Some ''take-profit''
           else if price \<ge> it_stop_price s then Some ''stop-loss'' else None)"

definition manage_position :: "ctx_view \<Rightarrow> u64 \<Rightarrow> tick \<Rightarrow> momentum \<Rightarrow> momentum" where
  "manage_position cv tok t m =
     (let s = inst tok m
      in if \<not> it_in_position s then m
         else case exit_tag s (tk_ltp t) of
           None \<Rightarrow> m
         | Some tag \<Rightarrow> set_inst tok (s\<lparr>it_in_position := False\<rparr>)
             (place_market cv tok (opposite (it_position_side s)) (it_position_qty s) tag m))"

definition mo_on_tick :: "ctx_view \<Rightarrow> tick \<Rightarrow> momentum \<Rightarrow> momentum" where
  "mo_on_tick cv t m =
     (if \<not> mo_alive m then m
      else let tok = tk_token t; s = (inst tok m)\<lparr>it_last_ltp := tk_ltp t\<rparr>; m = set_inst tok s m
           in if it_in_position s then manage_position cv tok t m else m)"

fun flatten_list :: "ctx_view \<Rightarrow> (u64 \<times> instrument_state) list \<Rightarrow> momentum \<Rightarrow> momentum" where
  "flatten_list cv [] m = m"
| "flatten_list cv ((tok, s) # ss) m = flatten_list cv ss
     (if it_in_position s
      then set_inst tok (s\<lparr>it_in_position := False\<rparr>)
             (place_market cv tok (opposite (it_position_side s)) (it_position_qty s) ''eod-flatten'' m)
      else m)"

definition eod_flatten_all :: "ctx_view \<Rightarrow> momentum \<Rightarrow> momentum" where
  "eod_flatten_all cv m = flatten_list cv (mo_states m) m"

section \<open>Callbacks\<close>

definition mo_param :: "(string \<times> dbl) list \<Rightarrow> string \<Rightarrow> dbl \<Rightarrow> dbl" where
  "mo_param p k old = (case map_of p k of Some v \<Rightarrow> v | None \<Rightarrow> old)"

definition mo_param_int :: "(string \<times> dbl) list \<Rightarrow> string \<Rightarrow> int \<Rightarrow> int" where
  "mo_param_int p k old = (case map_of p k of Some v \<Rightarrow> trunc_int v | None \<Rightarrow> old)"

definition mo_update_params :: "(string \<times> dbl) list \<Rightarrow> momentum \<Rightarrow> momentum" where
  "mo_update_params p m = m
     \<lparr>mo_ema_fast := mo_param_int p ''ema_fast'' (mo_ema_fast m),
      mo_ema_slow := mo_param_int p ''ema_slow'' (mo_ema_slow m),
      mo_atr_period := mo_param_int p ''atr_period'' (mo_atr_period m),
      mo_atr_sl_multiplier := mo_param p ''atr_sl_multiplier'' (mo_atr_sl_multiplier m),
      mo_atr_tp_multiplier := mo_param p ''atr_tp_multiplier'' (mo_atr_tp_multiplier m),
      mo_risk_pct := mo_param p ''risk_pct'' (mo_risk_pct m),
      mo_max_positions := mo_param_int p ''max_positions'' (mo_max_positions m),
      mo_min_signal_strength := mo_param p ''min_signal_strength'' (mo_min_signal_strength m)\<rparr>"

definition mo_on_start :: "ctx_view \<Rightarrow> strategy_config option \<Rightarrow> momentum \<Rightarrow> momentum" where
  "mo_on_start cv config m =
     (let m = m\<lparr>mo_has_ctx := True\<rparr>; m = m\<lparr>mo_start_ts_ns := now_ns cv m, mo_alive := True\<rparr>
      in case config of None \<Rightarrow> m | Some c \<Rightarrow> mo_update_params (sc_params c) m)"

definition mo_on_stop :: "ctx_view \<Rightarrow> momentum \<Rightarrow> momentum" where
  "mo_on_stop cv m = eod_flatten_all cv (m\<lparr>mo_alive := False\<rparr>)"

definition mo_on_kill_signal :: "ctx_view \<Rightarrow> momentum \<Rightarrow> momentum" where
  "mo_on_kill_signal cv m = eod_flatten_all cv (m\<lparr>mo_alive := False\<rparr>)"

definition mo_on_order_fill :: "fill \<Rightarrow> momentum \<Rightarrow> momentum" where
  "mo_on_order_fill f m =
     (let s = inst (fl_token f) m
      in set_inst (fl_token f)
           (if \<not> it_in_position s
            then s\<lparr>it_in_position := True, it_position_side := fl_side f,
                   it_position_qty := fl_quantity f, it_entry_price := fl_price f\<rparr>
            else s\<lparr>it_in_position := False, it_position_qty := 0\<rparr>) m)"

definition mo_info :: strategy_info where
  "mo_info = \<lparr>si_id = ''momentum_v2'', si_name = ''EMA Crossover Momentum'', si_version = ''2.0.0'',
     si_description = ''Dual-EMA crossover with ATR stops, 1% risk-per-trade sizing''\<rparr>"

datatype momentum_event =
  MTick tick
| MSignal u64
| MFill fill
| MParams "(string \<times> dbl) list"
| MKill
| MStop

fun mo_step :: "ctx_view \<Rightarrow> momentum_event \<Rightarrow> momentum \<Rightarrow> momentum" where
  "mo_step cv (MTick t) m = mo_on_tick cv t m"
| "mo_step cv (MSignal tok) m = evaluate_signal cv tok m"
| "mo_step cv (MFill f) m = mo_on_order_fill f m"
| "mo_step cv (MParams p) m = mo_update_params p m"
| "mo_step cv MKill m = mo_on_kill_signal cv m"
| "mo_step cv MStop m = mo_on_stop cv m"

fun mo_run :: "(ctx_view \<times> momentum_event) list \<Rightarrow> momentum \<Rightarrow> momentum" where
  "mo_run [] m = m"
| "mo_run ((cv, e) # es) m = mo_run es (mo_step cv e m)"

end
