(* ===== verification/QF_Momentum_Props.thy ===== *)
theory QF_Momentum_Props
  imports QF_Momentum
begin

text \<open>
  What the momentum strategy does: its average stays between the prices it averages, exits go out
  exactly at stop and target, flattening closes every position once; and what it does not do: with
  no candles it never enters, and it takes every second fill for a close.
\<close>

section \<open>The moving average\<close>

lemma ema_loop_bounds:
  assumes "0 \<le> k" and "k \<le> 1" and "lo \<le> val" and "val \<le> hi" and "\<forall>x \<in> set xs. lo \<le> x \<and> x \<le> hi"
  shows "lo \<le> ema_loop k val xs \<and> ema_loop k val xs \<le> hi"
  using assms
proof (induction xs arbitrary: val)
  case (Cons x xs)
  have x: "lo \<le> x" "x \<le> hi" using Cons.prems by auto
  have "x * k + val * (1 - k) = val + k * (x - val)" by (simp add: algebra_simps)
  moreover have "lo * k + lo * (1 - k) \<le> x * k + val * (1 - k)"
    using Cons.prems x by (intro add_mono mult_right_mono) auto
  moreover have "x * k + val * (1 - k) \<le> hi * k + hi * (1 - k)"
    using Cons.prems x by (intro add_mono mult_right_mono) auto
  ultimately have "lo \<le> x * k + val * (1 - k)" "x * k + val * (1 - k) \<le> hi"
    by (simp_all add: algebra_simps)
  with Cons show ?case by simp
qed simp

text \<open>
  The exponential average over a period of at least one price lies between the lowest and the
  highest of the last \<open>period\<close> prices.
\<close>

lemma ema_between_prices:
  assumes "1 \<le> period" and "period \<le> length (px_data s)"
    and "w = drop (length (px_data s) - period) (px_data s)"
  shows "Min (set w) \<le> px_ema period s \<and> px_ema period s \<le> Max (set w)"
proof -
  let ?d = "px_data s" and ?n = "length (px_data s)"
  have lt: "?n - period < ?n" using assms(1,2) by simp
  have w: "w = ?d ! (?n - period) # drop (?n - period + 1) ?d"
    unfolding assms(3) using Cons_nth_drop_Suc [OF lt] by simp
  have k: "0 \<le> 2 / (real period + 1)" "2 / (real period + 1) \<le> 1"
    using assms(1) by (simp_all add: field_simps)
  have "\<forall>x \<in> set w. Min (set w) \<le> x \<and> x \<le> Max (set w)" by simp
  then have "Min (set w) \<le> ?d ! (?n - period)" "?d ! (?n - period) \<le> Max (set w)"
    "\<forall>x \<in> set (drop (?n - period + 1) ?d). Min (set w) \<le> x \<and> x \<le> Max (set w)"
    unfolding w by auto
  from ema_loop_bounds [OF k this] show ?thesis
    using assms(2) by (simp add: px_ema_def Let_def)
qed

lemma ema_between_prices_witness:
  "Min (set [30, 20, 40]) \<le> px_ema 3 \<lparr>px_max_len = 200, px_data = [10, 30, 20, 40]\<rparr>
   \<and> px_ema 3 \<lparr>px_max_len = 200, px_data = [10, 30, 20, 40]\<rparr> \<le> Max (set [30, 20, 40 :: real])"
  using ema_between_prices [of 3 "\<lparr>px_max_len = 200, px_data = [10, 30, 20, 40]\<rparr>" "[30, 20, 40]"]
  by simp

lemma px_push_bound: "0 < px_max_len s \<Longrightarrow> length (px_data s) \<le> px_max_len s \<Longrightarrow>
   length (px_data (px_push p s)) \<le> px_max_len s"
  by (simp add: px_push_def Let_def)

section \<open>Frames\<close>

lemma inst_set_inst [simp]: "inst tok (set_inst tok' s m) = (if tok = tok' then s else inst tok m)"
  by (simp add: inst_def set_inst_def update_conv')

lemma set_inst_frame [simp]:
  "mo_orders (set_inst tok s m) = mo_orders m" "mo_has_ctx (set_inst tok s m) = mo_has_ctx m"
  "mo_alive (set_inst tok s m) = mo_alive m" "mo_id (set_inst tok s m) = mo_id m"
  by (simp_all add: set_inst_def)

lemma place_market_frame [simp]:
  "mo_states (place_market cv tok sd q tag m) = mo_states m"
  "mo_has_ctx (place_market cv tok sd q tag m) = mo_has_ctx m"
  "mo_alive (place_market cv tok sd q tag m) = mo_alive m"
  "mo_id (place_market cv tok sd q tag m) = mo_id m"
  "inst tok' (place_market cv tok sd q tag m) = inst tok' m"
  by (simp_all add: place_market_def Let_def inst_def)

definition market_order :: "ctx_view \<Rightarrow> momentum \<Rightarrow> u64 \<Rightarrow> side \<Rightarrow> int \<Rightarrow> string \<Rightarrow> order_request" where
  "market_order cv m tok sd qty tag = (order_request_init tok)\<lparr>rq_side := sd, rq_order_type := MARKET,
     rq_product := INTRADAY, rq_quantity := qty, rq_signal_strength := 1,
     rq_strategy_id := strncpy_buf MAX_STRATEGY_LEN (mo_id m), rq_tag := strncpy_buf MAX_TAG_LEN tag,
     rq_request_ts_ns := cv_now_ns cv\<rparr>"

lemma place_market_orders:
  "mo_has_ctx m \<Longrightarrow> mo_orders (place_market cv tok sd qty tag m) = mo_orders m @ [market_order cv m tok sd qty tag]"
  by (simp add: place_market_def Let_def market_order_def now_ns_def)

section \<open>Exits\<close>

text \<open>
  C36: A tick on an open position places an order exactly when the price is at or beyond the stop or the
  target; it is one market order of the position's quantity on the other side, and the position counts
  as closed from then on. Otherwise nothing but the last price changes.
\<close>

lemma tick_exits_at_stop_or_target:
  assumes "mo_alive m" and "mo_has_ctx m" and "s = inst (tk_token t) m" and "it_in_position s"
    and "m' = mo_on_tick cv t m"
  shows "(if (if it_position_side s = BUY
              then tk_ltp t \<le> it_stop_price s \<or> it_target_price s \<le> tk_ltp t
              else it_stop_price s \<le> tk_ltp t \<or> tk_ltp t \<le> it_target_price s)
          then (\<exists>tag. mo_orders m' = mo_orders m
                  @ [market_order cv m (tk_token t) (opposite (it_position_side s)) (it_position_qty s) tag])
               \<and> \<not> it_in_position (inst (tk_token t) m')
          else mo_orders m' = mo_orders m \<and> inst (tk_token t) m' = s\<lparr>it_last_ltp := tk_ltp t\<rparr>)"
proof -
  define m1 where "m1 = set_inst (tk_token t) (s\<lparr>it_last_ltp := tk_ltp t\<rparr>) m"
  have m': "m' = manage_position cv (tk_token t) t m1"
    using assms by (simp add: mo_on_tick_def Let_def m1_def)
  have m1: "inst (tk_token t) m1 = s\<lparr>it_last_ltp := tk_ltp t\<rparr>" "mo_orders m1 = mo_orders m"
    "mo_has_ctx m1" "market_order cv m1 = market_order cv m"
    using assms(2) by (auto simp: m1_def market_order_def fun_eq_iff)
  show ?thesis
    using assms(4)
    by (auto simp: m' manage_position_def Let_def m1 exit_tag_def place_market_orders)
qed

lemma tick_exits_at_stop_or_target_witness:
  "let s = instrument_state_init\<lparr>it_in_position := True, it_position_qty := 5, it_stop_price := 90, it_target_price := 120\<rparr>;
       m' = mo_on_tick \<lparr>cv_now_ns = 3, cv_capital = 0, cv_position = (\<lambda>_. position_init)\<rparr>
              (tick_init\<lparr>tk_token := 7, tk_ltp := 89\<rparr>) ((momentum_new ''m'')\<lparr>mo_has_ctx := True, mo_states := [(7, s)]\<rparr>)
   in \<not> it_in_position (inst 7 m')"
proof -
  let ?s = "instrument_state_init\<lparr>it_in_position := True, it_position_qty := 5, it_stop_price := 90, it_target_price := 120\<rparr>"
  let ?m = "(momentum_new ''m'')\<lparr>mo_has_ctx := True, mo_states := [(7, ?s)]\<rparr>"
  let ?t = "tick_init\<lparr>tk_token := 7, tk_ltp := 89\<rparr>"
  have "mo_alive ?m" "mo_has_ctx ?m" "?s = inst (tk_token ?t) ?m" "it_in_position ?s"
    by (simp_all add: momentum_new_def inst_def)
  from tick_exits_at_stop_or_target [OF this refl, of "\<lparr>cv_now_ns = 3, cv_capital = 0, cv_position = (\<lambda>_. position_init)\<rparr>"]
  show ?thesis by (simp add: instrument_state_init_def split: if_splits)
qed

section \<open>Fills\<close>

lemma exit_tag_long:
  "it_position_side s = BUY \<Longrightarrow>
   (\<exists>tag. exit_tag s p = Some tag) \<longleftrightarrow> p \<le> it_stop_price s \<or> it_target_price s \<le> p"
  by (auto simp: exit_tag_def)

lemma exit_tag_short:
  "it_position_side s = SELL \<Longrightarrow>
   (\<exists>tag. exit_tag s p = Some tag) \<longleftrightarrow> it_stop_price s \<le> p \<or> p \<le> it_target_price s"
  by (auto simp: exit_tag_def)

text \<open>
  The fill of an exit order opens a phantom position. The exit already counts the position as
  closed, so its fill is taken for an opening one: the strategy believes it holds the other side, and a
  tick beyond the old stop sends a second order in the direction of the first position.
\<close>

lemma exit_fill_reopens:
  assumes "mo_alive m" and "mo_has_ctx m" and "s = inst (tk_token t) m" and "it_in_position s"
    and "it_position_side s = BUY" and "tk_ltp t \<le> it_stop_price s"
    and "fl_token f = tk_token t" and "fl_side f = SELL" and "fl_quantity f = it_position_qty s"
    and "tk_token t' = tk_token t" and "it_stop_price s \<le> tk_ltp t'"
    and "m1 = mo_on_order_fill f (mo_on_tick cv t m)" and "m2 = mo_on_tick cv' t' m1"
  shows "it_in_position (inst (tk_token t) m1) \<and> it_position_side (inst (tk_token t) m1) = SELL
     \<and> (\<exists>exit_order reentry. mo_orders m2 = mo_orders m @ [exit_order, reentry]
          \<and> rq_side exit_order = SELL \<and> rq_side reentry = BUY
          \<and> rq_quantity exit_order = it_position_qty s \<and> rq_quantity reentry = it_position_qty s)"
proof -
  let ?tok = "tk_token t"
  define m0 where "m0 = mo_on_tick cv t m"
  define ma where "ma = set_inst ?tok (s\<lparr>it_last_ltp := tk_ltp t\<rparr>) m"
  obtain tag where tag: "exit_tag (s\<lparr>it_last_ltp := tk_ltp t\<rparr>) (tk_ltp t) = Some tag"
    using exit_tag_long [of "s\<lparr>it_last_ltp := tk_ltp t\<rparr>" "tk_ltp t"] assms(5,6) by auto
  have m0: "m0 = set_inst ?tok (s\<lparr>it_last_ltp := tk_ltp t, it_in_position := False\<rparr>)
      (place_market cv ?tok SELL (it_position_qty s) tag ma)"
    using assms(1,3,4,5) tag by (simp add: m0_def ma_def mo_on_tick_def manage_position_def Let_def opposite_def)
  have o0: "mo_orders m0 = mo_orders m @ [market_order cv ma ?tok SELL (it_position_qty s) tag]"
    "mo_alive m0" "mo_has_ctx m0"
    using assms(1,2) by (simp_all add: m0 place_market_orders ma_def)
  have i1: "inst ?tok m1 = s\<lparr>it_last_ltp := tk_ltp t, it_in_position := True, it_position_side := SELL,
      it_position_qty := it_position_qty s, it_entry_price := fl_price f\<rparr>"
    using assms(7-9) unfolding assms(12) m0_def [symmetric]
    by (simp add: mo_on_order_fill_def Let_def m0)
  have m1: "mo_orders m1 = mo_orders m0" "mo_alive m1" "mo_has_ctx m1"
    using o0 unfolding assms(12) m0_def [symmetric] by (simp_all add: mo_on_order_fill_def Let_def)
  define mb where "mb = set_inst ?tok ((inst ?tok m1)\<lparr>it_last_ltp := tk_ltp t'\<rparr>) m1"
  obtain tag' where tag': "exit_tag ((inst ?tok m1)\<lparr>it_last_ltp := tk_ltp t'\<rparr>) (tk_ltp t') = Some tag'"
    using exit_tag_short [of "(inst ?tok m1)\<lparr>it_last_ltp := tk_ltp t'\<rparr>" "tk_ltp t'"] assms(11)
    by (auto simp: i1)
  have "m2 = set_inst ?tok ((inst ?tok m1)\<lparr>it_last_ltp := tk_ltp t', it_in_position := False\<rparr>)
      (place_market cv' ?tok BUY (it_position_qty s) tag' mb)"
    using m1(2) tag' assms(10,13)
    by (simp add: mo_on_tick_def manage_position_def Let_def mb_def) (simp add: i1 opposite_def)
  then have "mo_orders m2 = mo_orders m0 @ [market_order cv' mb ?tok BUY (it_position_qty s) tag']"
    using m1 by (simp add: place_market_orders mb_def)
  then show ?thesis
    using o0(1) i1 by (simp add: market_order_def)
qed

lemma exit_fill_reopens_witness:
  "let s = instrument_state_init\<lparr>it_in_position := True, it_position_qty := 5, it_stop_price := 90, it_target_price := 120\<rparr>;
       m = (momentum_new ''m'')\<lparr>mo_has_ctx := True, mo_states := [(7, s)]\<rparr>;
       cv = \<lparr>cv_now_ns = 3, cv_capital = 0, cv_position = (\<lambda>_. position_init)\<rparr>;
       m1 = mo_on_order_fill (fill_init\<lparr>fl_token := 7, fl_side := SELL, fl_quantity := 5, fl_price := 89\<rparr>)
              (mo_on_tick cv (tick_init\<lparr>tk_token := 7, tk_ltp := 89\<rparr>) m)
   in it_in_position (inst 7 m1) \<and> it_position_side (inst 7 m1) = SELL"
proof -
  let ?s = "instrument_state_init\<lparr>it_in_position := True, it_position_qty := 5, it_stop_price := 90, it_target_price := 120\<rparr>"
  let ?m = "(momentum_new ''m'')\<lparr>mo_has_ctx := True, mo_states := [(7, ?s)]\<rparr>"
  let ?t = "tick_init\<lparr>tk_token := 7, tk_ltp := 89\<rparr>" and ?t' = "tick_init\<lparr>tk_token := 7, tk_ltp := 91\<rparr>"
  let ?f = "fill_init\<lparr>fl_token := 7, fl_side := SELL, fl_quantity := 5, fl_price := 89\<rparr>"
  let ?cv = "\<lparr>cv_now_ns = 3, cv_capital = 0, cv_position = (\<lambda>_. position_init)\<rparr>"
  have m: "mo_alive ?m" "mo_has_ctx ?m" "?s = inst (tk_token ?t) ?m" "it_in_position ?s"
    by (simp_all add: momentum_new_def inst_def)
  have s: "it_position_side ?s = BUY" "tk_ltp ?t \<le> it_stop_price ?s"
    by (simp_all add: instrument_state_init_def)
  have f: "fl_token ?f = tk_token ?t" "fl_side ?f = SELL" "fl_quantity ?f = it_position_qty ?s"
    "tk_token ?t' = tk_token ?t" "it_stop_price ?s \<le> tk_ltp ?t'" by simp_all
  have "tk_token ?t = 7" by simp
  with exit_fill_reopens [OF m s f refl refl, of ?cv ?cv] show ?thesis
    unfolding Let_def by (simp only: simp_thms)
qed

text \<open>
  A second partial fill of the opening order is taken for the close: the position is forgotten while
  it is still held, and no later tick manages it.
\<close>

lemma partial_fill_forgets_position:
  assumes "\<not> it_in_position (inst tok m)" and "fl_token f1 = tok" and "fl_token f2 = tok"
    and "m' = mo_on_order_fill f2 (mo_on_order_fill f1 m)" and "tk_token t = tok"
  shows "\<not> it_in_position (inst tok m') \<and> it_position_qty (inst tok m') = 0
     \<and> mo_orders (mo_on_tick cv t m') = mo_orders m"
proof -
  have "\<not> it_in_position (inst tok m')" "it_position_qty (inst tok m') = 0" "mo_orders m' = mo_orders m"
    using assms(1-4) by (simp_all add: mo_on_order_fill_def Let_def)
  then show ?thesis using assms(5) by (simp add: mo_on_tick_def Let_def)
qed

lemma partial_fill_forgets_position_witness:
  "\<not> it_in_position (inst 7 (mo_on_order_fill (fill_init\<lparr>fl_token := 7, fl_quantity := 3\<rparr>)
        (mo_on_order_fill (fill_init\<lparr>fl_token := 7, fl_quantity := 2\<rparr>) (momentum_new ''m''))))"
proof -
  let ?m = "momentum_new ''m''"
  let ?f1 = "fill_init\<lparr>fl_token := 7, fl_quantity := 2\<rparr>" and ?f2 = "fill_init\<lparr>fl_token := 7, fl_quantity := 3\<rparr>"
  have 1: "\<not> it_in_position (inst 7 ?m)"
    by (simp add: inst_def momentum_new_def instrument_state_init_def)
  have 2: "fl_token ?f1 = 7" "fl_token ?f2 = 7" "tk_token (tick_init\<lparr>tk_token := 7\<rparr>) = 7" by simp_all
  show ?thesis by (rule partial_fill_forgets_position [OF 1 2(1,2) refl 2(3), THEN conjunct1])
qed

section \<open>Flattening\<close>

definition eod_order :: "ctx_view \<Rightarrow> momentum \<Rightarrow> u64 \<times> instrument_state \<Rightarrow> order_request" where
  "eod_order cv m = (\<lambda>(tok, s). market_order cv m tok (opposite (it_position_side s)) (it_position_qty s) ''eod-flatten'')"

lemma market_order_id: "mo_id m = mo_id m' \<Longrightarrow> market_order cv m = market_order cv m'"
  by (simp add: market_order_def fun_eq_iff)

lemma eod_order_id: "mo_id m = mo_id m' \<Longrightarrow> eod_order cv m = eod_order cv m'"
  unfolding eod_order_def by (simp only: market_order_id [of m m'])

lemma flatten_list_orders:
  "mo_has_ctx m \<Longrightarrow> mo_orders (flatten_list cv ss m)
     = mo_orders m @ map (eod_order cv m) (filter (it_in_position \<circ> snd) ss)
   \<and> mo_has_ctx (flatten_list cv ss m) \<and> mo_id (flatten_list cv ss m) = mo_id m
   \<and> mo_alive (flatten_list cv ss m) = mo_alive m"
proof (induction ss arbitrary: m)
  case (Cons p ss)
  obtain tok s where p: "p = (tok, s)" by (cases p)
  let ?m = "set_inst tok (s\<lparr>it_in_position := False\<rparr>)
             (place_market cv tok (opposite (it_position_side s)) (it_position_qty s) ''eod-flatten'' m)"
  show ?case
  proof (cases "it_in_position s")
    case True
    have "eod_order cv ?m = eod_order cv m" by (rule eod_order_id) simp
    then show ?thesis
      using Cons.IH [of ?m] Cons.prems True
      by (simp add: p place_market_orders) (simp add: eod_order_def)
  next
    case False
    then show ?thesis using Cons by (simp add: p)
  qed
qed simp

lemma flatten_list_other:
  "tok \<notin> fst ` set ss \<Longrightarrow> inst tok (flatten_list cv ss m) = inst tok m"
  by (induction ss arbitrary: m) (auto simp: split_beta)

lemma flatten_list_flat:
  assumes "distinct (map fst ss)" and "\<And>tok s. (tok, s) \<in> set ss \<Longrightarrow> inst tok m = s"
    and "(tok, s) \<in> set ss"
  shows "\<not> it_in_position (inst tok (flatten_list cv ss m))"
  using assms
proof (induction ss arbitrary: m)
  case (Cons p ss)
  obtain t x where p: "p = (t, x)" by (cases p)
  let ?m = "if it_in_position x then set_inst t (x\<lparr>it_in_position := False\<rparr>)
             (place_market cv t (opposite (it_position_side x)) (it_position_qty x) ''eod-flatten'' m) else m"
  have t: "t \<notin> fst ` set ss" using Cons.prems(1) by (simp add: p)
  show ?case
  proof (cases "tok = t")
    case True
    moreover have "inst t (flatten_list cv (p # ss) m) = inst t ?m"
      using flatten_list_other [OF t, of cv ?m] by (simp add: p)
    moreover have "inst t m = x" using Cons.prems(2) by (simp add: p)
    ultimately show ?thesis by simp
  next
    case False
    have "inst a ?m = b" if "(a, b) \<in> set ss" for a b
    proof -
      have "a \<noteq> t" using t that by force
      then show ?thesis using Cons.prems(2) [of a b] that by simp
    qed
    moreover have "(tok, s) \<in> set ss" using Cons.prems(3) False by (simp add: p)
    ultimately show ?thesis using Cons.IH [of ?m] Cons.prems(1) by (simp add: p)
  qed
qed simp

lemma inst_entry: "distinct (map fst (mo_states m)) \<Longrightarrow> (tok, s) \<in> set (mo_states m) \<Longrightarrow> inst tok m = s"
  by (simp add: inst_def)

lemma kill_flattens_facts:
  assumes "mo_has_ctx m" and "distinct (map fst (mo_states m))"
  shows "mo_orders (mo_on_kill_signal cv m)
      = mo_orders m @ map (eod_order cv m) (filter (it_in_position \<circ> snd) (mo_states m))"
    and "\<not> mo_alive (mo_on_kill_signal cv m)"
    and "\<not> it_in_position (inst tok (mo_on_kill_signal cv m))"
proof -
  let ?d = "m\<lparr>mo_alive := False\<rparr>"
  have k: "mo_on_kill_signal cv m = flatten_list cv (mo_states m) ?d"
    by (simp add: mo_on_kill_signal_def eod_flatten_all_def)
  have "eod_order cv ?d = eod_order cv m" by (rule eod_order_id) simp
  then show "mo_orders (mo_on_kill_signal cv m)
      = mo_orders m @ map (eod_order cv m) (filter (it_in_position \<circ> snd) (mo_states m))"
    and "\<not> mo_alive (mo_on_kill_signal cv m)"
    using flatten_list_orders [of ?d cv "mo_states m"] assms(1) by (simp_all add: k)
  have e: "inst a ?d = b" if "(a, b) \<in> set (mo_states m)" for a b
    using inst_entry [of ?d a b] assms(2) that by simp
  show "\<not> it_in_position (inst tok (mo_on_kill_signal cv m))"
  proof (cases "tok \<in> fst ` set (mo_states m)")
    case True
    then obtain s where "(tok, s) \<in> set (mo_states m)" by auto
    from flatten_list_flat [OF assms(2) e this] show ?thesis by (simp add: k)
  next
    case False
    then have "inst tok (mo_on_kill_signal cv m) = instrument_state_init"
      using flatten_list_other [OF False, of cv ?d]
      by (simp add: k inst_def) (metis map_of_eq_None_iff option.simps(4))
    then show ?thesis by (simp add: instrument_state_init_def)
  qed
qed

text \<open>
  A kill signal sends exactly one market order per open position, on the other side and for the
  whole quantity, and leaves the strategy dead with no position open.
\<close>

lemma kill_flattens_everything:
  assumes "mo_has_ctx m" and "distinct (map fst (mo_states m))"
  shows "mo_orders (mo_on_kill_signal cv m)
      = mo_orders m @ map (eod_order cv m) (filter (it_in_position \<circ> snd) (mo_states m))
    \<and> \<not> mo_alive (mo_on_kill_signal cv m)
    \<and> \<not> it_in_position (inst tok (mo_on_kill_signal cv m))"
  using kill_flattens_facts [OF assms] by simp

lemma kill_flattens_everything_witness:
  "length (mo_orders (mo_on_kill_signal \<lparr>cv_now_ns = 3, cv_capital = 0, cv_position = (\<lambda>_. position_init)\<rparr>
     ((momentum_new ''m'')\<lparr>mo_has_ctx := True,
        mo_states := [(7, instrument_state_init\<lparr>it_in_position := True, it_position_qty := 5\<rparr>),
                      (8, instrument_state_init)]\<rparr>))) = 1"
  by (subst kill_flattens_everything [THEN conjunct1])
    (simp_all add: momentum_new_def instrument_state_init_def)

section \<open>No entries\<close>

text \<open>
  Candles are the only source of closing prices, and \<open>on_candle\<close> has no definition: the price series
  stay empty, the readiness test of the signal fails for any slow period from \<open>-4\<close> on.
\<close>

definition mo_idle :: "momentum \<Rightarrow> bool" where
  "mo_idle m \<longleftrightarrow> (\<forall>(tok, s) \<in> set (mo_states m). px_data (it_closes s) = [] \<and> \<not> it_in_position s)
     \<and> mo_ema_slow m = 21 \<and> mo_orders m = []"

lemma mo_idle_inst: "mo_idle m \<Longrightarrow> px_data (it_closes (inst tok m)) = [] \<and> \<not> it_in_position (inst tok m)"
  by (auto simp: mo_idle_def inst_def instrument_state_init_def px_new_def split: option.split
      dest!: map_of_SomeD)

lemma mo_idle_set_inst:
  "mo_idle m \<Longrightarrow> px_data (it_closes s) = [] \<Longrightarrow> \<not> it_in_position s \<Longrightarrow> mo_idle (set_inst tok s m)"
  using set_alist_update_subset [of tok s "mo_states m"] by (auto simp: mo_idle_def set_inst_def)

lemma mo_idle_flatten:
  "\<forall>(tok, s) \<in> set ss. \<not> it_in_position s \<Longrightarrow> flatten_list cv ss m = m"
  by (induction ss) auto

fun mo_quiet :: "momentum_event \<Rightarrow> bool" where
  "mo_quiet (MFill _) = False"
| "mo_quiet (MParams p) = (map_of p ''ema_slow'' = None)"
| "mo_quiet _ = True"

lemma mo_idle_step: "mo_idle m \<Longrightarrow> mo_quiet e \<Longrightarrow> mo_idle (mo_step cv e m)"
proof (cases e)
  case (MTick t)
  assume m: "mo_idle m"
  let ?s = "(inst (tk_token t) m)\<lparr>it_last_ltp := tk_ltp t\<rparr>"
  have "mo_idle (set_inst (tk_token t) ?s m)" using m mo_idle_inst [OF m] by (intro mo_idle_set_inst) auto
  then show ?thesis using m mo_idle_inst [OF m] by (simp add: MTick mo_on_tick_def Let_def)
next
  case (MSignal tok)
  assume m: "mo_idle m"
  let ?m = "set_inst tok (inst tok m) m"
  have "mo_idle ?m" using m mo_idle_inst [OF m] by (intro mo_idle_set_inst) auto
  moreover have "\<not> px_ready (size_of_int (i32 (mo_ema_slow ?m + 5))) (it_closes (inst tok ?m))"
    using \<open>mo_idle ?m\<close> mo_idle_inst [OF m]
    by (simp add: px_ready_def mo_idle_def size_of_int_def i32_def)
  ultimately show ?thesis by (simp add: MSignal evaluate_signal_def Let_def)
next
  case MKill
  assume m: "mo_idle m"
  then have "flatten_list cv (mo_states m) (m\<lparr>mo_alive := False\<rparr>) = m\<lparr>mo_alive := False\<rparr>"
    by (intro mo_idle_flatten) (auto simp: mo_idle_def)
  then show ?thesis using m by (simp add: MKill mo_on_kill_signal_def eod_flatten_all_def mo_idle_def)
next
  case MStop
  assume m: "mo_idle m"
  then have "flatten_list cv (mo_states m) (m\<lparr>mo_alive := False\<rparr>) = m\<lparr>mo_alive := False\<rparr>"
    by (intro mo_idle_flatten) (auto simp: mo_idle_def)
  then show ?thesis using m by (simp add: MStop mo_on_stop_def eod_flatten_all_def mo_idle_def)
next
  case (MParams p)
  assume "mo_idle m" and "mo_quiet e"
  then show ?thesis by (simp add: MParams mo_update_params_def mo_param_int_def mo_idle_def)
qed simp

text \<open>
  With the shipped code a started momentum strategy sends no order by itself, whatever ticks,
  signal evaluations, parameter changes that keep the slow period and stops it sees.
\<close>

lemma momentum_never_enters:
  assumes "list_all (\<lambda>(_, e). mo_quiet e) es"
  shows "mo_orders (mo_run es (mo_on_start cv0 None (momentum_new sid))) = []"
proof -
  have "mo_idle m \<Longrightarrow> mo_idle (mo_run es m)" for m
    using assms
  proof (induction es arbitrary: m)
    case (Cons p es)
    then show ?case by (cases p) (simp add: mo_idle_step)
  qed simp
  moreover have "mo_idle (mo_on_start cv0 None (momentum_new sid))"
    by (simp add: mo_on_start_def mo_idle_def momentum_new_def Let_def)
  ultimately show ?thesis by (simp add: mo_idle_def)
qed

lemma momentum_never_enters_witness:
  "mo_orders (mo_run [(\<lparr>cv_now_ns = 1000000000000, cv_capital = 100000, cv_position = (\<lambda>_. position_init)\<rparr>,
        MTick (tick_init\<lparr>tk_token := 7, tk_ltp := 100\<rparr>)),
      (\<lparr>cv_now_ns = 2000000000000, cv_capital = 100000, cv_position = (\<lambda>_. position_init)\<rparr>, MSignal 7)]
    (mo_on_start \<lparr>cv_now_ns = 5, cv_capital = 100000, cv_position = (\<lambda>_. position_init)\<rparr> None
      (momentum_new ''m''))) = []"
  by (rule momentum_never_enters) simp

end
