(* ===== verification/QF_Config.thy ===== *)
theory QF_Config
  imports QF_Types
begin

text \<open>
  The configuration reader and the token reader of \<open>cpp/main/main.cpp\<close>. A file is its content, or
  \<open>None\<close> when it cannot be opened; a line is what \<open>std::getline\<close> delivers.
\<close>

section \<open>Text\<close>

abbreviation newline :: char where "newline \<equiv> CHR 0x0A"

fun getlines :: "string \<Rightarrow> string list" where
  \<comment> \<open>the lines a loop over \<open>std::getline\<close> sees; nothing follows a final newline\<close>
  "getlines [] = []"
| "getlines (c # cs) = (let l = takeWhile (\<lambda>x. x \<noteq> newline) (c # cs)
     in l # getlines (drop (Suc (length l)) (c # cs)))"

declare getlines.simps(2) [simp del]

definition whitespace :: "char \<Rightarrow> bool" where
  \<comment> \<open>the set of \<open>find_first_not_of\<close>\<close>
  "whitespace c \<longleftrightarrow> c \<in> {CHR '' '', CHR 0x09, CHR 0x0D, CHR 0x0A}"

definition trim :: "string \<Rightarrow> string" where
  "trim s = rev (dropWhile whitespace (rev (dropWhile whitespace s)))"

section \<open>The configuration file\<close>

definition config_defaults :: engine_config where
  "config_defaults = engine_config_init\<lparr>ec_threads := (ec_threads engine_config_init)
     \<lparr>tc_market_data_io := 0, tc_tick_normalizer := 1, tc_portfolio := 2, tc_fill_processor := 2,
      tc_risk_gate := 3, tc_oms := 3, tc_kafka_publisher := 4, tc_heartbeat := 5\<rparr>\<rparr>"

definition config_key :: "string \<Rightarrow> string" where
  "config_key line = trim (takeWhile (\<lambda>c. c \<noteq> CHR '':'') line)"

definition config_value :: "string \<Rightarrow> string" where
  "config_value line = trim (drop (Suc (length (takeWhile (\<lambda>c. c \<noteq> CHR '':'') line))) line)"

definition config_skipped :: "string \<Rightarrow> bool" where
  "config_skipped line \<longleftrightarrow> line = [] \<or> hd line = CHR ''#'' \<or> CHR '':'' \<notin> set line"

definition config_line :: "string \<Rightarrow> engine_config \<Rightarrow> engine_config" where
  "config_line line cfg =
     (if config_skipped line then cfg
      else let key = config_key line; val = config_value line;
               cfg = (if key = ''redis_url'' then cfg\<lparr>ec_redis_url := val\<rparr> else cfg);
               cfg = (if key = ''kafka_brokers'' then cfg\<lparr>ec_kafka_brokers := val\<rparr> else cfg);
               cfg = (if key = ''paper_trading'' then cfg\<lparr>ec_paper_trading := (val = ''true'')\<rparr> else cfg);
               cfg = (if key = ''dry_run'' then cfg\<lparr>ec_dry_run := (val = ''true'')\<rparr> else cfg)
           in cfg)"

fun config_lines :: "string list \<Rightarrow> engine_config \<Rightarrow> engine_config" where
  "config_lines [] cfg = cfg"
| "config_lines (l # ls) cfg = config_lines ls (config_line l cfg)"

definition load_config :: "string option \<Rightarrow> engine_config" where
  "load_config file = (case file of None \<Rightarrow> config_defaults
     | Some text \<Rightarrow> config_lines (getlines text) config_defaults)"

section \<open>The access token\<close>

definition first_line :: "string \<Rightarrow> string" where
  \<comment> \<open>one \<open>std::getline\<close> into an empty string\<close>
  "first_line text = takeWhile (\<lambda>c. c \<noteq> newline) text"

function strip_line_end :: "string \<Rightarrow> string" where
  \<comment> \<open>the loop that pops newlines and carriage returns off the end\<close>
  "strip_line_end tok = (if tok \<noteq> [] \<and> (last tok = newline \<or> last tok = CHR 0x0D)
     then strip_line_end (butlast tok) else tok)"
  by pat_completeness auto
termination
  by (relation "measure length") auto

declare strip_line_end.simps [simp del]

definition load_token :: "string option \<Rightarrow> string option \<Rightarrow> string + string" where
  \<comment> \<open>the contents of the token file and of \<open>../quantforge/.token\<close>; \<open>Inl\<close> is the exception\<close>
  "load_token file file2 =
     (case file of
        Some text \<Rightarrow> Inr (strip_line_end (first_line text))
      | None \<Rightarrow> (case file2 of
          Some text \<Rightarrow> Inr (strip_line_end (first_line text))
        | None \<Rightarrow> Inl (''Access token file not found: .token'' @ newline # ''Run: cd ../quantforge  && python src/auth.py'')))"

definition engine_startup_config :: "string option \<Rightarrow> string option \<Rightarrow> string option
    \<Rightarrow> string + engine_config" where
  \<comment> \<open>the first two steps of \<open>main\<close>\<close>
  "engine_startup_config file tok tok2 =
     (case load_token tok tok2 of Inl e \<Rightarrow> Inl e
      | Inr t \<Rightarrow> Inr ((load_config file)\<lparr>ec_access_token := t\<rparr>))"

definition instrument_keys :: "engine_config \<Rightarrow> string list" where
  \<comment> \<open>the keys \<open>main\<close> subscribes to\<close>
  "instrument_keys cfg = concat (map (\<lambda>scfg. map (\<lambda>tok. dec (unat tok)) (sc_instruments scfg)) (ec_strategies cfg))"

section \<open>Lines\<close>

lemma getlines_Cons_newline [simp]: "getlines (newline # s) = [] # getlines s"
  by (simp add: getlines.simps(2))

lemma getlines_line:
  assumes "newline \<notin> set l"
  shows "getlines (l @ newline # s) = l # getlines s"
proof (cases l)
  case (Cons c cs)
  have "takeWhile (\<lambda>x. x \<noteq> newline) (l @ newline # s) = l"
    using assms by (subst takeWhile_append2) auto
  then show ?thesis by (simp add: Cons getlines.simps(2))
qed simp

definition unlines :: "string list \<Rightarrow> string" where
  "unlines ls = concat (map (\<lambda>l. l @ [newline]) ls)"

lemma getlines_of_unlines: "list_all (\<lambda>l. newline \<notin> set l) ls \<Longrightarrow> getlines (unlines ls) = ls"
  by (induction ls) (simp_all add: unlines_def getlines_line)

text \<open>
  The line loop takes a text apart exactly where it was put together: of a text written line by
  line, it sees those lines.
\<close>

lemma getlines_unlines:
  assumes "list_all (\<lambda>l. newline \<notin> set l) ls"
  shows "getlines (unlines ls) = ls"
  using assms by (rule getlines_of_unlines)

lemma getlines_unlines_witness: "getlines (unlines [''a: 1'', [], ''b'']) = [''a: 1'', [], ''b'']"
  by (rule getlines_unlines) simp

lemma trim_no_margin: "trim s = [] \<or> \<not> whitespace (hd (trim s)) \<and> \<not> whitespace (last (trim s))"
proof (cases "trim s")
  case (Cons a as)
  let ?u = "dropWhile whitespace s"
  let ?v = "dropWhile whitespace (rev ?u)"
  have t: "trim s = rev ?v" by (simp add: trim_def)
  then have v: "?v \<noteq> []" using Cons by (metis list.distinct(1) rev.simps(1))
  have "\<not> whitespace (hd ?v)" using v by (rule hd_dropWhile)
  then have l: "\<not> whitespace (last (trim s))" using v by (simp add: t last_rev)
  have u: "?u \<noteq> []" using v by (metis dropWhile.simps(1) rev.simps(1))
  obtain p where "rev ?u = p @ ?v" by (metis takeWhile_dropWhile_id)
  then have "?u = trim s @ rev p" by (metis rev_append rev_rev_ident t)
  then have "hd (trim s) = hd ?u" using Cons by simp
  moreover have "\<not> whitespace (hd ?u)" using u by (rule hd_dropWhile)
  ultimately show ?thesis using l by simp
qed simp

lemma trim_id: "s = [] \<or> \<not> whitespace (hd s) \<and> \<not> whitespace (last s) \<Longrightarrow> trim s = s"
proof (cases s)
  case (Cons a as)
  assume m: "s = [] \<or> \<not> whitespace (hd s) \<and> \<not> whitespace (last s)"
  then have 1: "dropWhile whitespace s = s" using Cons by simp
  have "hd (rev s) = last s" "rev s \<noteq> []" using Cons by (simp_all add: hd_rev)
  then have "dropWhile whitespace (rev s) = rev s" using m Cons
    by (cases "rev s") auto
  then show ?thesis by (simp add: trim_def 1)
qed (simp add: trim_def)

lemma trim_idem: "trim (trim s) = trim s"
  using trim_no_margin by (rule trim_id)

section \<open>What the configuration file can say\<close>

lemma config_lines_append: "config_lines (xs @ ys) cfg = config_lines ys (config_lines xs cfg)"
  by (induction xs arbitrary: cfg) simp_all

lemma config_line_frame [simp]:
  "ec_strategies (config_line l cfg) = ec_strategies cfg"
  "ec_threads (config_line l cfg) = ec_threads cfg"
  "ec_access_token (config_line l cfg) = ec_access_token cfg"
  by (simp_all add: config_line_def Let_def)

lemma config_lines_frame [simp]:
  "ec_strategies (config_lines ls cfg) = ec_strategies cfg"
  "ec_threads (config_lines ls cfg) = ec_threads cfg"
  "ec_access_token (config_lines ls cfg) = ec_access_token cfg"
  by (induction ls arbitrary: cfg) simp_all

definition paper_lines :: "string list \<Rightarrow> string list" where
  \<comment> \<open>the lines that set \<open>paper_trading\<close>\<close>
  "paper_lines ls = filter (\<lambda>l. \<not> config_skipped l \<and> config_key l = ''paper_trading'') ls"

lemma config_line_paper:
  "ec_paper_trading (config_line l cfg)
     = (if \<not> config_skipped l \<and> config_key l = ''paper_trading'' then config_value l = ''true''
        else ec_paper_trading cfg)"
  by (simp add: config_line_def Let_def)

lemma config_lines_paper:
  "ec_paper_trading (config_lines ls cfg)
     = (if paper_lines ls = [] then ec_paper_trading cfg else config_value (last (paper_lines ls)) = ''true'')"
proof (induction ls arbitrary: cfg)
  case (Cons l ls)
  then show ?case by (simp add: paper_lines_def config_line_paper)
qed (simp add: paper_lines_def)

text \<open>
  C28: the engine trades on paper exactly when no line of the file sets \<open>paper_trading\<close> or when the last
  one that does reads \<open>true\<close> and nothing else after the colon: with \<open>True\<close>, quotes or a comment behind
  the value the engine sends real orders.
\<close>

lemma paper_mode_exact:
  "ec_paper_trading (load_config (Some text)) \<longleftrightarrow> paper_lines (getlines text) = []
     \<or> config_value (last (paper_lines (getlines text))) = ''true''"
  by (simp add: load_config_def config_lines_paper config_defaults_def engine_config_init_def)

text \<open>The line of the shipped \<open>config/engine.yaml\<close>, which is meant to trade on paper, does not.\<close>

lemma shipped_paper_line_is_live:
  "\<not> ec_paper_trading (load_config (Some
     (unlines [''  paper_trading: \"$(PAPER TRADING:-True)\" # If true: simulate orders, no real execution''])))"
proof -
  let ?l = "''  paper_trading: \"$(PAPER TRADING:-True)\" # If true: simulate orders, no real execution''"
  have "getlines (unlines [?l]) = [?l]" by (rule getlines_of_unlines) simp
  moreover have "config_key ?l = ''paper_trading''" "\<not> config_skipped ?l" "config_value ?l \<noteq> ''true''"
    by (simp_all add: config_skipped_def config_key_def config_value_def trim_def whitespace_def)
  ultimately show ?thesis
    unfolding load_config_def option.case by (simp only: config_lines.simps config_line_paper) simp
qed

text \<open>
  No file configures a strategy: whatever it holds, the engine starts with an empty list of
  strategies and therefore subscribes to no instrument.
\<close>

lemma no_strategy_configured:
  "ec_strategies (load_config file) = [] \<and> instrument_keys (load_config file) = []"
  by (simp add: load_config_def config_defaults_def engine_config_init_def instrument_keys_def split: option.split)

section \<open>The token\<close>

lemma strip_line_end_butlast:
  "strip_line_end (tok @ [c]) = (if c = newline \<or> c = CHR 0x0D then strip_line_end tok else tok @ [c])"
  by (subst strip_line_end.simps) simp

lemma strip_line_end_rev: "strip_line_end tok = rev (dropWhile (\<lambda>c. c = newline \<or> c = CHR 0x0D) (rev tok))"
proof (induction tok rule: rev_induct)
  case Nil
  show ?case by (subst strip_line_end.simps) simp
qed (simp add: strip_line_end_butlast)

text \<open>
  The token is the first line of the file without its line end, whether the file was written with
  Unix or Windows line ends or without any.
\<close>

lemma load_token_line:
  assumes "newline \<notin> set tok" and "tok = [] \<or> last tok \<noteq> CHR 0x0D"
    and "eol = [] \<or> eol = newline # rest \<or> eol = CHR 0x0D # newline # rest"
  shows "load_token (Some (tok @ eol)) file2 = Inr tok"
proof -
  have "strip_line_end tok = tok"
    using assms(1,2) by (cases tok rule: rev_cases) (auto simp: strip_line_end_rev)
  moreover from this have "strip_line_end (tok @ [CHR 0x0D]) = tok"
    by (simp add: strip_line_end_butlast)
  moreover have t: "takeWhile (\<lambda>c. c \<noteq> newline) (tok @ ys) = tok @ takeWhile (\<lambda>c. c \<noteq> newline) ys" for ys
    using assms(1) by (intro takeWhile_append2) auto
  have "first_line (tok @ eol) = tok \<or> first_line (tok @ eol) = tok @ [CHR 0x0D]"
    using assms(3) by (auto simp: first_line_def t)
  ultimately show ?thesis by (auto simp: load_token_def)
qed

lemma load_token_line_witness: "load_token (Some (''abc'' @ [CHR 0x0D, newline])) None = Inr ''abc''"
  by (rule load_token_line [where rest = "[]"]) simp_all

end
