(* ===== verification/QF_System.thy ===== *)
theory QF_System
  imports QF_Engine_Props QF_Strategy_Props QF_Momentum_Props QF_Config "HOL-Library.Sublist"
begin

text \<open>
  The engine with the momentum strategy in it: the callbacks of \<open>MomentumStrategy\<close> behind the
  interface of the strategy manager, their orders going through \<open>submit_order\<close> of
  \<open>cpp/strategy/strategy_interface.hpp\<close> to the risk gate and the OMS. Every clock reading of a call is
  taken from a sequence of readings. \<open>on_candle\<close>, which the repository declares and does not define, is
  an argument.
\<close>

section \<open>The services of a strategy\<close>

record reading =
  rd_time_t :: int
  rd_now_ns :: u64
  rd_clock :: clock

record world =
  wd_engine :: engine
  wd_readings :: "nat \<Rightarrow> reading"
  wd_next :: nat

definition submit_order :: "strategy_context \<Rightarrow> order_request \<Rightarrow> world \<Rightarrow> bool \<times> world" where
  "submit_order cx req w =
     (let r = wd_readings w (wd_next w);
          (ok, eg) = ctx_submit_order (cx_config cx) req (rd_time_t r) (rd_now_ns r) (rd_clock r) (wd_engine w)
      in (ok, w\<lparr>wd_engine := eg, wd_next := Suc (wd_next w)\<rparr>))"

fun submit_orders :: "strategy_context \<Rightarrow> order_request list \<Rightarrow> world \<Rightarrow> world" where
  \<comment> \<open>the strategy only logs whether an order was accepted\<close>
  "submit_orders cx [] w = w"
| "submit_orders cx (req # reqs) w = submit_orders cx reqs (snd (submit_order cx req w))"

definition ctx_view_of :: "world \<Rightarrow> ctx_view" where
  "ctx_view_of w = \<lparr>cv_now_ns = rd_now_ns (wd_readings w (wd_next w)),
     cv_capital = ctx_available_capital (wd_engine w),
     cv_position = (\<lambda>tok. ctx_get_position tok (wd_engine w))\<rparr>"

section \<open>The momentum strategy as a plugin\<close>

definition momentum_call :: "(ctx_view \<Rightarrow> momentum \<Rightarrow> momentum) \<Rightarrow> strategy_context \<Rightarrow> momentum \<Rightarrow> world
    \<Rightarrow> (momentum, world) outcome" where
  \<comment> \<open>a callback, then the orders it placed, in order\<close>
  "momentum_call act cx m w =
     (let m' = act (ctx_view_of w) (m\<lparr>mo_orders := []\<rparr>)
      in (True, m'\<lparr>mo_orders := []\<rparr>, submit_orders cx (mo_orders m') w))"

definition momentum_plugin :: "(ctx_view \<Rightarrow> candle \<Rightarrow> momentum \<Rightarrow> momentum) \<Rightarrow> (momentum, world) plugin" where
  "momentum_plugin on_candle = \<lparr>pg_set_strategy_id = (\<lambda>sid m. m\<lparr>mo_id := sid, mo_has_ctx := True\<rparr>),
     pg_on_start = (\<lambda>cx. momentum_call (\<lambda>cv. mo_on_start cv (Some (cx_config cx))) cx),
     pg_on_stop = momentum_call mo_on_stop,
     pg_on_tick = (\<lambda>cx t. momentum_call (\<lambda>cv. mo_on_tick cv t) cx),
     pg_on_candle = (\<lambda>cx c. momentum_call (\<lambda>cv. on_candle cv c) cx),
     pg_on_order_fill = (\<lambda>cx f. momentum_call (\<lambda>cv. mo_on_order_fill f) cx),
     pg_on_kill_signal = momentum_call mo_on_kill_signal,
     pg_update_params = (\<lambda>cx p. momentum_call (\<lambda>cv. mo_update_params p) cx)\<rparr>"

section \<open>The whole system\<close>

type_synonym system = "momentum strategy_manager \<times> world"

definition world_disruptor :: "world \<Rightarrow> tick disruptor" where
  "world_disruptor w = nm_disruptor (eg_normalizer (wd_engine w))"

fun dispatch_candles :: "(momentum, world) plugin \<Rightarrow> candle list \<Rightarrow> system \<Rightarrow> system" where
  "dispatch_candles pg [] mw = mw"
| "dispatch_candles pg (c # cs) mw = dispatch_candles pg cs (dispatch_candle pg c mw)"

definition set_normalizer :: "normalizer \<Rightarrow> world \<Rightarrow> world" where
  "set_normalizer nm w = w\<lparr>wd_engine := (wd_engine w)\<lparr>eg_normalizer := nm\<rparr>\<rparr>"

definition price_world :: "tick list \<Rightarrow> world \<Rightarrow> world" where
  "price_world ts w = w\<lparr>wd_engine := (wd_engine w)\<lparr>eg_risk := price_ticks ts (eg_risk (wd_engine w))\<rparr>\<rparr>"

definition new_candles :: "normalizer \<Rightarrow> normalizer \<Rightarrow> candle list" where
  "new_candles nm nm' = map snd (drop (length (cb_out (nm_candle_builder nm))) (cb_out (nm_candle_builder nm')))"

definition system_normalizer_turn :: "(momentum, world) plugin \<Rightarrow> system \<Rightarrow> system" where
  \<comment> \<open>a turn of the normalizer thread: the candle callback runs before the Kafka function\<close>
  "system_normalizer_turn pg = (\<lambda>(m, w).
     let nm = eg_normalizer (wd_engine w); nm' = normalizer_iter nm;
         (m, w) = dispatch_candles pg (new_candles nm nm') (m, set_normalizer nm' w)
     in (m, price_world (drop (length (nm_kafka_out nm)) (nm_kafka_out nm')) w))"

definition system_flush_candles :: "(momentum, world) plugin \<Rightarrow> u64 \<Rightarrow> system \<Rightarrow> system" where
  \<comment> \<open>\<open>candle_builder.flush_all()\<close> of the shutdown\<close>
  "system_flush_candles pg sys_ns = (\<lambda>(m, w).
     let nm = eg_normalizer (wd_engine w);
         nm' = nm\<lparr>nm_candle_builder := flush_all 0 sys_ns (nm_candle_builder nm)\<rparr>
     in dispatch_candles pg (new_candles nm nm') (m, set_normalizer nm' w))"

datatype system_event =
  EngineEvent engine_event
| NormalizerThread
| ManagerEvent manager_event
| FlushCandles u64

fun system_step :: "(ctx_view \<Rightarrow> candle \<Rightarrow> momentum \<Rightarrow> momentum) \<Rightarrow> (string \<Rightarrow> momentum created)
    \<Rightarrow> system_event \<Rightarrow> system \<Rightarrow> system" where
  "system_step on_candle lib (EngineEvent e) (m, w) = (m, w\<lparr>wd_engine := engine_step e (wd_engine w)\<rparr>)"
| "system_step on_candle lib NormalizerThread mw = system_normalizer_turn (momentum_plugin on_candle) mw"
| "system_step on_candle lib (ManagerEvent e) mw =
     manager_step (momentum_plugin on_candle) lib world_disruptor e mw"
| "system_step on_candle lib (FlushCandles sys_ns) mw =
     system_flush_candles (momentum_plugin on_candle) sys_ns mw"

fun system_run :: "(ctx_view \<Rightarrow> candle \<Rightarrow> momentum \<Rightarrow> momentum) \<Rightarrow> (string \<Rightarrow> momentum created)
    \<Rightarrow> system_event list \<Rightarrow> system \<Rightarrow> system" where
  "system_run on_candle lib [] mw = mw"
| "system_run on_candle lib (e # es) mw = system_run on_candle lib es (system_step on_candle lib e mw)"

definition system_start :: "string option \<Rightarrow> string option \<Rightarrow> string option \<Rightarrow> (string \<Rightarrow> momentum created)
    \<Rightarrow> u64 \<Rightarrow> (nat \<Rightarrow> reading) \<Rightarrow> (ctx_view \<Rightarrow> candle \<Rightarrow> momentum \<Rightarrow> momentum) \<Rightarrow> string + system" where
  \<comment> \<open>\<open>main\<close> up to \<open>start_all\<close>; an exception ends the program\<close>
  "system_start file tok tok2 lib now readings on_candle =
     (case engine_startup_config file tok tok2 of
        Inl e \<Rightarrow> Inl e
      | Inr cfg \<Rightarrow> Inr (start_all (momentum_plugin on_candle) lib (strategy_manager_new cfg),
          \<lparr>wd_engine = engine_new cfg now, wd_readings = readings, wd_next = 0\<rparr>))"

definition system_shutdown :: "u64 \<Rightarrow> system_event list" where
  \<comment> \<open>the calls of \<open>main\<close> after the loop, in order\<close>
  "system_shutdown sys_ns = [EngineEvent ShutdownCancel, ManagerEvent StopAll, FlushCandles sys_ns]"

section \<open>Properties of the engine under the whole system\<close>

text \<open>
  What a property of the engine needs in order to survive every step of the system: strategies act on the
  engine through orders only, and a turn of the normalizer thread leaves everything but the normalizer
  and the prices alone. With it, strategies may do what they like.
\<close>

fun allowed_event :: "(engine_event \<Rightarrow> bool) \<Rightarrow> system_event \<Rightarrow> bool" where
  "allowed_event al (EngineEvent e) = al e"
| "allowed_event al _ = True"

lemma allowed_any [simp]: "allowed_event (\<lambda>e. True) e"
  by (cases e) simp_all

locale engine_property =
  fixes keeps :: "engine \<Rightarrow> bool" and al :: "engine_event \<Rightarrow> bool"
  assumes al_order: "al (StrategyOrder scfg req tt now ck)"
    and step: "keeps eg \<Longrightarrow> al e \<Longrightarrow> keeps (engine_step e eg)"
    and turn: "keeps eg \<Longrightarrow> prefix (nm_kafka_out (eg_normalizer eg)) (nm_kafka_out nm) \<Longrightarrow>
      re_global_kill_switch re = re_global_kill_switch (eg_risk eg) \<Longrightarrow>
      keeps (eg\<lparr>eg_normalizer := nm, eg_risk := re\<rparr>)"
begin

lemma submit_keeps: "keeps (wd_engine w) \<Longrightarrow> keeps (wd_engine (snd (submit_order cx req w)))"
  using step [of "wd_engine w", OF _ al_order [of "cx_config cx" req "rd_time_t (wd_readings w (wd_next w))"
      "rd_now_ns (wd_readings w (wd_next w))" "rd_clock (wd_readings w (wd_next w))"]]
  by (simp add: submit_order_def Let_def split_beta)

lemma submits_keep: "keeps (wd_engine w) \<Longrightarrow> keeps (wd_engine (submit_orders cx reqs w))"
  by (induction reqs arbitrary: w) (simp_all add: submit_keeps)

end

sublocale engine_property \<subseteq> plugin: keeping_plugin "momentum_plugin on_candle" "\<lambda>w. keeps (wd_engine w)" for on_candle
  by unfold_locales (simp_all add: momentum_plugin_def momentum_call_def Let_def submits_keep)

lemma normalizer_iter_grow: "prefix (nm_kafka_out nm) (nm_kafka_out (normalizer_iter nm))"
  by (simp add: normalizer_iter_def validate_conv Let_def split: prod.split option.split)

context engine_property
begin

lemma candles_keep:
  "keeps (wd_engine (snd mw)) \<Longrightarrow>
   keeps (wd_engine (snd (dispatch_candles (momentum_plugin on_candle) cs mw)))"
proof (induction cs arbitrary: mw)
  case (Cons c cs)
  have "keeps (wd_engine (snd (dispatch_candle (momentum_plugin on_candle) c mw)))"
    using plugin.manager_step_keeps [of mw on_candle "\<lambda>_. NullStrategy" world_disruptor "DispatchCandle c"] Cons.prems
    by simp
  then show ?case using Cons.IH by simp
qed simp

lemma set_normalizer_keeps:
  assumes "keeps (wd_engine w)" and "prefix (nm_kafka_out (eg_normalizer (wd_engine w))) (nm_kafka_out nm)"
  shows "keeps (wd_engine (set_normalizer nm w))"
  using turn [OF assms refl] by (simp add: set_normalizer_def)

lemma price_world_keeps: "keeps (wd_engine w) \<Longrightarrow> keeps (wd_engine (price_world ts w))"
  using turn [of "wd_engine w" "eg_normalizer (wd_engine w)" "price_ticks ts (eg_risk (wd_engine w))"]
  by (simp add: price_world_def)

lemma system_step_keeps:
  assumes "keeps (wd_engine (snd mw))" and "allowed_event al e"
  shows "keeps (wd_engine (snd (system_step on_candle lib e mw)))"
proof (cases e)
  case (EngineEvent f)
  then show ?thesis using assms step [of "wd_engine (snd mw)" f] by (cases mw) simp
next
  case (ManagerEvent f)
  then show ?thesis using assms plugin.manager_step_keeps [of mw on_candle lib world_disruptor f] by simp
next
  case NormalizerThread
  have "keeps (wd_engine (set_normalizer (normalizer_iter (eg_normalizer (wd_engine (snd mw)))) (snd mw)))"
    using assms(1) normalizer_iter_grow by (rule set_normalizer_keeps)
  from candles_keep [of "(fst mw, _)", simplified, OF this] show ?thesis
    using NormalizerThread by (simp add: system_normalizer_turn_def split_beta Let_def price_world_keeps)
next
  case (FlushCandles t)
  have "keeps (wd_engine (set_normalizer ((eg_normalizer (wd_engine (snd mw)))\<lparr>nm_candle_builder := cb\<rparr>) (snd mw)))" for cb
    using assms(1) by (rule set_normalizer_keeps) simp
  then show ?thesis
    using FlushCandles by (simp add: system_flush_candles_def split_beta Let_def candles_keep)
qed

lemma system_run_keeps:
  "keeps (wd_engine (snd mw)) \<Longrightarrow> list_all (allowed_event al) es \<Longrightarrow>
   keeps (wd_engine (snd (system_run on_candle lib es mw)))"
  by (induction es arbitrary: mw) (simp_all add: system_step_keeps)

end

section \<open>The kill switch\<close>

definition quiet :: "u64 \<Rightarrow> nat \<Rightarrow> engine \<Rightarrow> bool" where
  \<comment> \<open>the switch is on, and this many orders have been created and sent\<close>
  "quiet sq n eg \<longleftrightarrow> re_global_kill_switch (eg_risk eg) \<and> om_seq (eg_oms eg) = sq \<and> orders_sent (eg_oms eg) = n"

interpretation mk: engine_property "quiet sq n" "\<lambda>e. e \<noteq> KillOff" for sq n
proof
  show "quiet sq n eg \<Longrightarrow> e \<noteq> KillOff \<Longrightarrow> quiet sq n (engine_step e eg)" for eg e
    using killed_step [of eg e] by (simp add: quiet_def)
qed (simp_all add: quiet_def)


definition some_readings :: "nat \<Rightarrow> reading" where
  "some_readings n = \<lparr>rd_time_t = 363600, rd_now_ns = of_nat n,
     rd_clock = \<lparr>ck_sys_ms = 0, ck_place_ns = 1, ck_fill_ns = 2\<rparr>\<rparr>"


section \<open>The engine as shipped\<close>

definition unstaffed :: "u64 \<Rightarrow> nat \<Rightarrow> system \<Rightarrow> bool" where
  \<comment> \<open>no strategy is loaded or configured, and this many orders have been created and sent\<close>
  "unstaffed sq n mw \<longleftrightarrow> sm_strategies (fst mw) = [] \<and> ec_strategies (sm_cfg (fst mw)) = []
     \<and> om_seq (eg_oms (wd_engine (snd mw))) = sq \<and> orders_sent (eg_oms (wd_engine (snd mw))) = n"

fun no_strategy_call :: "system_event \<Rightarrow> bool" where
  "no_strategy_call (EngineEvent (StrategyOrder _ _ _ _ _)) = False"
| "no_strategy_call _ = True"

lemma engine_step_no_order:
  assumes "no_strategy_call (EngineEvent e)"
  shows "om_seq (eg_oms (engine_step e eg)) = om_seq (eg_oms eg)
     \<and> orders_sent (eg_oms (engine_step e eg)) = orders_sent (eg_oms eg)"
proof -
  have [simp]: "om_seq (on_place_error oid reason m) = om_seq m" for oid reason m
    by (simp add: on_place_error_def Let_def split: option.split)
  have [simp]: "orders_sent (m\<lparr>om_fill_queue := q\<rparr>) = orders_sent m" for m q
    by (simp add: orders_sent_def)
  show ?thesis
    using assms
    by (cases e) (simp_all add: Let_def ctx_cancel_order_def split_beta portfolio_turn_def normalizer_turn_def
        raw_tick_def cancel_all_open_def)
qed

lemma dispatch_to_nobody: "sm_strategies (fst mw) = [] \<Longrightarrow> dispatch_candle pg c mw = mw"
  by (cases mw) (simp add: dispatch_candle_def)

lemma dispatches_to_nobody: "sm_strategies (fst mw) = [] \<Longrightarrow> dispatch_candles pg cs mw = mw"
  by (induction cs) (simp_all add: dispatch_to_nobody)

lemma manager_step_nobody:
  assumes "sm_strategies m = []" and "ec_strategies (sm_cfg m) = []"
  shows "manager_step pg lib dis e (m, w) = (m, w)"
  using assms
  by (cases e) (simp_all add: start_all_def run_strategy_thread_def dispatch_candle_def dispatch_fill_def
      halt_strategy_def update_params_def stop_all_def Let_def)

lemma unstaffed_step:
  assumes "unstaffed sq n mw" and "no_strategy_call e"
  shows "unstaffed sq n (system_step on_candle lib e mw)"
proof -
  obtain m w where mw: "mw = (m, w)" by (cases mw)
  have u: "sm_strategies m = []" "ec_strategies (sm_cfg m) = []"
    "om_seq (eg_oms (wd_engine w)) = sq" "orders_sent (eg_oms (wd_engine w)) = n"
    using assms(1) by (simp_all add: unstaffed_def mw)
  show ?thesis
  proof (cases e)
    case (EngineEvent f)
    then show ?thesis using engine_step_no_order [of f "wd_engine w"] assms(2) u by (simp add: unstaffed_def mw)
  next
    case (ManagerEvent f)
    then show ?thesis using manager_step_nobody [OF u(1,2), of "momentum_plugin on_candle" lib world_disruptor f w] u by (simp add: unstaffed_def mw)
  qed (use u in \<open>simp_all add: mw unstaffed_def system_normalizer_turn_def system_flush_candles_def
    dispatches_to_nobody set_normalizer_def price_world_def Let_def\<close>)
qed

text \<open>
  C12: the engine as shipped never trades. Whatever the configuration file holds, it starts without a
  strategy, and in no run, whatever ticks arrive and whatever the exchange and the threads do, does it
  create or send an order.
\<close>

lemma shipped_engine_never_trades:
  assumes "system_start file tok tok2 lib now readings on_candle = Inr mw" and "list_all no_strategy_call es"
  shows "sm_strategies (fst mw) = []
     \<and> om_seq (eg_oms (wd_engine (snd (system_run on_candle lib es mw)))) = 0
     \<and> orders_sent (eg_oms (wd_engine (snd (system_run on_candle lib es mw)))) = 0"
proof -
  obtain t where mw: "mw = (start_all (momentum_plugin on_candle) lib (strategy_manager_new ((load_config file)\<lparr>ec_access_token := t\<rparr>)),
      \<lparr>wd_engine = engine_new ((load_config file)\<lparr>ec_access_token := t\<rparr>) now, wd_readings = readings, wd_next = 0\<rparr>)"
    using assms(1) by (auto simp: system_start_def engine_startup_config_def split: sum.splits)
  have none: "ec_strategies (load_config file) = []"
    by (simp add: load_config_def config_defaults_def engine_config_init_def split: option.split)
  have start: "unstaffed 0 0 mw"
    by (simp add: mw unstaffed_def start_all_def strategy_manager_new_def none engine_new_def
        set_fill_callback_def oms_new_def orders_sent_def)
  have "unstaffed sq n mw \<Longrightarrow> unstaffed sq n (system_run on_candle lib es mw)" for sq n mw
    using assms(2) by (induction es arbitrary: mw) (simp_all add: unstaffed_step)
  from this [OF start] start show ?thesis by (simp add: unstaffed_def)
qed

lemma shipped_engine_never_trades_witness:
  "\<exists>mw. system_start None (Some ''tok'') None (\<lambda>p. Created (momentum_new [])) 0 some_readings (\<lambda>cv c m. m) = Inr mw
     \<and> om_seq (eg_oms (wd_engine (snd (system_run (\<lambda>cv c m. m) (\<lambda>p. Created (momentum_new []))
          (EngineEvent (RawTick tick_init) # NormalizerThread # system_shutdown 9) mw)))) = 0"
proof -
  obtain mw where s: "system_start None (Some ''tok'') None (\<lambda>p. Created (momentum_new [])) 0 some_readings (\<lambda>cv c m. m) = Inr mw"
    by (simp add: system_start_def engine_startup_config_def load_token_def)
  have "list_all no_strategy_call (EngineEvent (RawTick tick_init) # NormalizerThread # system_shutdown 9)"
    by (simp add: system_shutdown_def)
  from shipped_engine_never_trades [OF s this] s show ?thesis by blast
qed

text \<open>
  The candles the shutdown flushes reach no strategy: they are emitted after \<open>stop_all\<close> has removed
  all of them, so the flush changes nothing but the candle builder.
\<close>

lemma final_candles_lost:
  assumes "mw = system_step on_candle lib (ManagerEvent StopAll) mw0"
  shows "system_step on_candle lib (FlushCandles sys_ns) mw
     = (fst mw, set_normalizer ((eg_normalizer (wd_engine (snd mw)))\<lparr>nm_candle_builder :=
          flush_all 0 sys_ns (nm_candle_builder (eg_normalizer (wd_engine (snd mw))))\<rparr>) (snd mw))"
proof -
  have "sm_strategies (fst mw) = []" unfolding assms by (simp add: stop_all_def split_beta Let_def)
  then show ?thesis
    by (cases mw) (simp add: system_flush_candles_def dispatches_to_nobody Let_def)
qed

lemma final_candles_lost_witness:
  "let mw = system_step (\<lambda>cv c m. m) (\<lambda>p. NullStrategy) (ManagerEvent StopAll)
         (strategy_manager_new engine_config_init, \<lparr>wd_engine = engine_new engine_config_init 0,
            wd_readings = some_readings, wd_next = 0\<rparr>)
   in fst (system_step (\<lambda>cv c m. m) (\<lambda>p. NullStrategy) (FlushCandles 9) mw) = fst mw"
  unfolding Let_def by (subst final_candles_lost [OF refl]) (simp only: fst_conv)

end
