(* ===== verification/QF_Ems.thy ===== *)
theory QF_Ems
  imports QF_Rest QF_System
begin

text \<open>
  The execution management system of \<open>cpp/ems/ems.cpp\<close>: it hands orders to the REST client, turns the
  answer into an acknowledgement or a rejection for the OMS, and forwards fill events. The JSON parser
  is an argument, \<open>None\<close> for a parse error. The last section puts it between the OMS and the network.
\<close>

section \<open>State and operations\<close>

record ems =
  em_rest :: rest_client
  em_token_to_key :: "(u64 \<times> string) list"
  em_has_fill_cb :: bool

definition ems_new :: "engine_config \<Rightarrow> ems" where
  "ems_new cfg = \<lparr>em_rest = \<lparr>rc_access_token = ec_access_token cfg, rc_paper_mode = ec_paper_trading cfg\<rparr>,
     em_token_to_key = [], em_has_fill_cb = False\<rparr>"

definition register_instruments :: "(u64 \<times> string) list \<Rightarrow> ems \<Rightarrow> ems" where
  "register_instruments token_to_key em = em\<lparr>em_token_to_key := token_to_key\<rparr>"

definition ems_set_fill_callback :: "ems \<Rightarrow> ems" where
  "ems_set_fill_callback em = em\<lparr>em_has_fill_cb := True\<rparr>"

definition resolve_instrument_key :: "u64 \<Rightarrow> ems \<Rightarrow> string" where
  "resolve_instrument_key tok em = (case map_of (em_token_to_key em) tok of
     None \<Rightarrow> dec (unat tok) | Some key \<Rightarrow> key)"

datatype ems_callback = OnAck string | OnReject string

definition exchange_oid :: "json \<Rightarrow> string option" where
  \<comment> \<open>\<open>j.at("data").at("order_ids").at(0)\<close> as a string\<close>
  "exchange_oid j = Option.bind (json_at ''data'' j) (\<lambda>d. Option.bind (json_at ''order_ids'' d)
     (\<lambda>ids. Option.bind (json_nth 0 ids) json_string))"

definition place_callback :: "(string \<Rightarrow> json option) \<Rightarrow> rest_callback \<Rightarrow> ems_callback option" where
  \<comment> \<open>the two functions given to the REST client; \<open>None\<close>: only an error is logged\<close>
  "place_callback parse cb =
     (case cb of
        OnSuccess body \<Rightarrow> map_option OnAck (Option.bind (parse body) exchange_oid)
      | OnError err \<Rightarrow> Some (OnReject err))"

definition ems_place_order :: "(json \<Rightarrow> string) \<Rightarrow> (string \<Rightarrow> json option) \<Rightarrow> order_request \<Rightarrow> string
    \<Rightarrow> net_result \<Rightarrow> ems \<Rightarrow> ems_callback option" where
  "ems_place_order dump parse req oid net em =
     place_callback parse (rest_outcome (rest_place_order dump req oid (em_rest em)) net)"

definition ems_cancel_order :: "string \<Rightarrow> ems \<Rightarrow> rest_call" where
  \<comment> \<open>both callbacks only log\<close>
  "ems_cancel_order ex em = rest_cancel_order ex (em_rest em)"

definition on_fill_event :: "string \<Rightarrow> dbl \<Rightarrow> int \<Rightarrow> string \<Rightarrow> u64 \<Rightarrow> ems \<Rightarrow> engine_event option" where
  \<comment> \<open>the fill callback \<open>main\<close> installs calls \<open>oms.on_fill\<close>\<close>
  "on_fill_event ex price qty tid now em = (if em_has_fill_cb em then Some (EmsFill ex price qty tid now) else None)"

section \<open>Between the OMS and the network\<close>

definition oms_callback :: "string \<Rightarrow> ems_callback \<Rightarrow> engine_event" where
  \<comment> \<open>the functions \<open>OrderManagementSystem::submit\<close> passes to \<open>place_order\<close>\<close>
  "oms_callback oid cb = (case cb of OnAck ex \<Rightarrow> EmsAck ex oid | OnReject reason \<Rightarrow> EmsError oid reason)"

definition network_answers :: "(json \<Rightarrow> string) \<Rightarrow> (string \<Rightarrow> json option) \<Rightarrow> order_request \<Rightarrow> string
    \<Rightarrow> net_result \<Rightarrow> ems \<Rightarrow> engine \<Rightarrow> engine" where
  "network_answers dump parse req oid net em eg =
     (case ems_place_order dump parse req oid net em of
        None \<Rightarrow> eg | Some cb \<Rightarrow> engine_step (oms_callback oid cb) eg)"

text \<open>
  C29: a live order is acknowledged exactly when the answer has a 2xx status and a body with an order id,
  rejected exactly when the network fails or the status is another one, and in the remaining case, a
  2xx answer without a readable id, the OMS hears nothing.
\<close>

lemma ems_answer_exact:
  assumes "\<not> rc_paper_mode (em_rest em)"
  shows "(ems_place_order dump parse req oid net em = Some (OnAck ex) \<longleftrightarrow>
        (\<exists>status body j. net = Response status body \<and> 200 \<le> status \<and> status < 300
           \<and> parse body = Some j \<and> exchange_oid j = Some ex))
     \<and> ((\<exists>err. ems_place_order dump parse req oid net em = Some (OnReject err)) \<longleftrightarrow>
        \<not> (\<exists>status body. net = Response status body \<and> 200 \<le> status \<and> status < 300))
     \<and> (ems_place_order dump parse req oid net em = None \<longleftrightarrow>
        (\<exists>status body. net = Response status body \<and> 200 \<le> status \<and> status < 300
           \<and> Option.bind (parse body) exchange_oid = None))"
proof -
  have "ems_place_order dump parse req oid net em = place_callback parse (do_request net)"
    using assms by (simp add: ems_place_order_def rest_place_order_def rest_outcome_def)
  then show ?thesis
    by (cases net) (auto simp: place_callback_def do_request_def bind_eq_Some_conv)
qed

lemma ems_answer_exact_witness:
  "ems_place_order (\<lambda>j. ''body'') (\<lambda>s. Some (JObj [(''data'', JObj [(''order_ids'', JArr [JStr ''X1''])])]))
     (order_request_init 7) ''QF-1'' (Response 200 ''ok'') (ems_new (engine_config_init\<lparr>ec_paper_trading := False\<rparr>))
   = Some (OnAck ''X1'')"
proof -
  have "\<not> rc_paper_mode (em_rest (ems_new (engine_config_init\<lparr>ec_paper_trading := False\<rparr>)))"
    by (simp add: ems_new_def)
  from ems_answer_exact [OF this, THEN conjunct1] show ?thesis
    by (simp add: exchange_oid_def)
qed

text \<open>
  An accepted order whose answer cannot be read is stranded: the OMS is not told, so the order keeps
  its slot, stays \<open>PENDING\<close> and cannot be cancelled, although the exchange has it.
\<close>

lemma unreadable_answer_strands_order:
  assumes "\<not> rc_paper_mode (em_rest em)" and "200 \<le> status" and "status < 300"
    and "Option.bind (parse body) exchange_oid = None"
    and "map_of (om_orders (eg_oms eg)) oid = Some i" and "po_sm (slot_of (eg_oms eg) i) = PENDING"
    and "eg' = network_answers dump parse req oid (Response status body) em eg"
  shows "map_of (om_orders (eg_oms eg')) oid = Some i \<and> po_sm (slot_of (eg_oms eg') i) = PENDING
     \<and> cancel oid (eg_oms eg') = (False, eg_oms eg')"
proof -
  have "eg' = eg"
    using assms(1-4,7)
    by (simp add: network_answers_def ems_place_order_def rest_place_order_def rest_outcome_def
        place_callback_def do_request_def)
  then show ?thesis using assms(5,6) by (simp add: cancel_def is_cancellable_def)
qed

text \<open>A JSON parser that knows two answers, for the examples.\<close>

definition two_answers :: "string \<Rightarrow> json option" where
  "two_answers s = (if s = ''{}'' then Some (JObj [])
     else if s = paper_body ''QF-5-0'' then Some (JObj
       [(''data'', JObj [(''order_ids'', JArr [JStr ''PAPER-QF-5-0''])]), (''status'', JStr ''success'')])
     else None)"

lemma unreadable_answer_strands_order_witness:
  "let eg' = network_answers (\<lambda>j. []) two_answers (order_request_init 7) ''QF-5-0'' (Response 200 ''<html>'')
         (ems_new (engine_config_init\<lparr>ec_paper_trading := False\<rparr>)) ((engine_new engine_config_init 0)\<lparr>eg_oms := pending_oms\<rparr>)
   in cancel ''QF-5-0'' (eg_oms eg') = (False, eg_oms eg')"
proof -
  let ?em = "ems_new (engine_config_init\<lparr>ec_paper_trading := False\<rparr>)"
  let ?eg = "(engine_new engine_config_init 0)\<lparr>eg_oms := pending_oms\<rparr>"
  have h: "\<not> rc_paper_mode (em_rest ?em)" "(200::nat) \<le> 200" "(200::nat) < 300"
    "Option.bind (two_answers ''<html>'') exchange_oid = None"
    "map_of (om_orders (eg_oms ?eg)) ''QF-5-0'' = Some 0" "po_sm (slot_of (eg_oms ?eg) 0) = PENDING"
    by (simp_all add: ems_new_def two_answers_def paper_body_def pending_oms_def live_oms_def)
  show ?thesis
    unfolding Let_def by (rule unreadable_answer_strands_order [where parse = two_answers and body = "''<html>''" and eg = ?eg,
      OF h refl, THEN conjunct2, THEN conjunct2])
qed

section \<open>Paper orders\<close>

text \<open>
  The answer a paper client makes up is read back as what it was made from: with a JSON parser that
  reads the literal, the OMS is acknowledged \<open>PAPER-\<close> and the internal id.
\<close>

lemma paper_echo_acknowledged:
  assumes "rc_paper_mode (em_rest em)"
    and "parse (paper_body oid) = Some (JObj [(''data'', JObj [(''order_ids'', JArr [JStr (''PAPER-'' @ oid)])]),
           (''status'', JStr ''success'')])"
  shows "ems_place_order dump parse req oid net em = Some (OnAck (''PAPER-'' @ oid))"
  using assms by (simp add: ems_place_order_def rest_place_order_def rest_outcome_def place_callback_def exchange_oid_def)

lemma paper_echo_acknowledged_witness:
  "ems_place_order (\<lambda>j. []) two_answers (order_request_init 7) ''QF-5-0'' (ReadFailed []) (ems_new engine_config_init)
     = Some (OnAck ''PAPER-QF-5-0'')"
  using paper_echo_acknowledged [of "ems_new engine_config_init" two_answers "''QF-5-0''" "\<lambda>j. []"
      "order_request_init 7" "ReadFailed []"]
  by (simp add: ems_new_def engine_config_init_def two_answers_def paper_body_def)

section \<open>Instrument keys\<close>

text \<open>
  Registering the exchange's keys changes no order: the request names the instrument by its decimal
  token, whatever key the EMS was given for it.
\<close>

lemma registered_key_never_sent:
  "rest_place_order dump req oid (em_rest (register_instruments keys em)) = rest_place_order dump req oid (em_rest em)
   \<and> json_at ''instrument_token'' (build_place_order_body req oid) = Some (JStr (dec (unat (rq_token req))))"
  by (simp add: register_instruments_def build_place_order_body_def)

end
