(* ===== verification/QF_Live.thy ===== *)
theory QF_Live
  imports QF_Ems
begin

text \<open>
  Live trading from end to end: the system, the orders on their way to the exchange and the answers that
  come back in any order. A live step is a step of the system, which may send orders, or the answer to one
  of the requests under way. The repository gives the EMS no other input: nothing calls
  \<open>ExecutionManagementSystem::on_fill_event\<close>, so there is no fill step.
\<close>

section \<open>State and steps\<close>

record live =
  lv_system :: system
  lv_ems :: ems
  lv_under_way :: "(order_request \<times> string) list"
  lv_refused :: nat \<comment> \<open>answers that ended in \<open>on_reject\<close>\<close>

fun placed :: "oms_out list \<Rightarrow> (order_request \<times> string) list" where
  \<comment> \<open>the calls of \<open>ems_.place_order\<close>\<close>
  "placed [] = []"
| "placed (EmsPlace req oid # outs) = (req, oid) # placed outs"
| "placed (_ # outs) = placed outs"

definition live_engine :: "live \<Rightarrow> engine" where
  "live_engine lv = wd_engine (snd (lv_system lv))"

definition set_engine :: "engine \<Rightarrow> live \<Rightarrow> live" where
  "set_engine eg lv = lv\<lparr>lv_system := (fst (lv_system lv), (snd (lv_system lv))\<lparr>wd_engine := eg\<rparr>)\<rparr>"

definition drop_nth :: "nat \<Rightarrow> 'a list \<Rightarrow> 'a list" where
  "drop_nth i xs = take i xs @ drop (Suc i) xs"

definition live_local :: "(ctx_view \<Rightarrow> candle \<Rightarrow> momentum \<Rightarrow> momentum) \<Rightarrow> (string \<Rightarrow> momentum created)
    \<Rightarrow> system_event \<Rightarrow> live \<Rightarrow> live" where
  "live_local on_candle lib e lv =
     (let mw = system_step on_candle lib e (lv_system lv);
          sent = drop (length (om_out (eg_oms (live_engine lv)))) (om_out (eg_oms (wd_engine (snd mw))))
      in lv\<lparr>lv_system := mw, lv_under_way := lv_under_way lv @ placed sent\<rparr>)"

definition live_answer :: "(json \<Rightarrow> string) \<Rightarrow> (string \<Rightarrow> json option) \<Rightarrow> nat \<Rightarrow> net_result \<Rightarrow> live \<Rightarrow> live" where
  \<comment> \<open>the answer to the \<open>i\<close>-th request under way\<close>
  "live_answer dump parse i net lv =
     (if i < length (lv_under_way lv)
      then let (req, oid) = lv_under_way lv ! i;
               refused = (case ems_place_order dump parse req oid net (lv_ems lv) of Some (OnReject _) \<Rightarrow> 1 | _ \<Rightarrow> 0)
           in (set_engine (network_answers dump parse req oid net (lv_ems lv) (live_engine lv)) lv)
              \<lparr>lv_under_way := drop_nth i (lv_under_way lv), lv_refused := lv_refused lv + refused\<rparr>
      else lv)"

datatype live_event = Local system_event | Answer nat net_result

fun live_step :: "(json \<Rightarrow> string) \<Rightarrow> (string \<Rightarrow> json option) \<Rightarrow> (ctx_view \<Rightarrow> candle \<Rightarrow> momentum \<Rightarrow> momentum)
    \<Rightarrow> (string \<Rightarrow> momentum created) \<Rightarrow> live_event \<Rightarrow> live \<Rightarrow> live" where
  "live_step dump parse on_candle lib (Local e) lv = live_local on_candle lib e lv"
| "live_step dump parse on_candle lib (Answer i net) lv = live_answer dump parse i net lv"

fun live_run :: "(json \<Rightarrow> string) \<Rightarrow> (string \<Rightarrow> json option) \<Rightarrow> (ctx_view \<Rightarrow> candle \<Rightarrow> momentum \<Rightarrow> momentum)
    \<Rightarrow> (string \<Rightarrow> momentum created) \<Rightarrow> live_event list \<Rightarrow> live \<Rightarrow> live" where
  "live_run dump parse on_candle lib [] lv = lv"
| "live_run dump parse on_candle lib (e # es) lv =
     live_run dump parse on_candle lib es (live_step dump parse on_candle lib e lv)"

definition live_start :: "engine_config \<Rightarrow> u64 \<Rightarrow> (nat \<Rightarrow> reading) \<Rightarrow> live" where
  "live_start cfg now readings = \<lparr>lv_system = (strategy_manager_new cfg,
       \<lparr>wd_engine = engine_new cfg now, wd_readings = readings, wd_next = 0\<rparr>),
     lv_ems = ems_set_fill_callback (ems_new cfg), lv_under_way = [], lv_refused = 0\<rparr>"

fun no_ems_event :: "engine_event \<Rightarrow> bool" where
  "no_ems_event (EmsAck ex oid) = False"
| "no_ems_event (EmsError oid reason) = False"
| "no_ems_event (EmsFill ex price qty tid now) = False"
| "no_ems_event _ = True"

fun live_event_ok :: "live_event \<Rightarrow> bool" where
  \<comment> \<open>what the EMS tells the OMS comes from answers only\<close>
  "live_event_ok (Local e) = allowed_event no_ems_event e"
| "live_event_ok (Answer i net) = True"

section \<open>The order book of a live engine\<close>

definition live_book :: "nat \<Rightarrow> string list \<Rightarrow> oms \<Rightarrow> bool" where
  "live_book r waiting m \<longleftrightarrow> oms_inv 10000 12 m \<and> \<not> om_paper m \<and> \<not> om_has_reject_cb m
     \<and> map_of (om_ex2int m) [] = None \<and> length (om_orders m) + r = unat (om_seq m) \<and> r < 2 ^ 63
     \<and> (\<forall>(oid, i) \<in> set (om_orders m). po_sm (slot_of m i) \<in> {PENDING, OPEN})
     \<and> distinct waiting \<and> set waiting \<subseteq> fst ` set (om_orders m)
     \<and> spsc_items (om_fill_queue m) = []"

lemma live_book_cong:
  assumes "live_book r waiting m" and "om_pool m' = om_pool m" and "om_orders m' = om_orders m"
    and "om_seq m' = om_seq m" and "om_ex2int m' = om_ex2int m" and "om_fill_queue m' = om_fill_queue m"
    and "om_paper m' = om_paper m" and "om_has_reject_cb m' = om_has_reject_cb m"
  shows "live_book r waiting m'"
  using assms oms_inv_cong [of 10000 12 m m'] by (simp add: live_book_def)

lemma live_book_room: "live_book r waiting m \<Longrightarrow> unat (om_seq m) + 1 < 2 ^ 64"
  using slots_conserved [of 10000 12 m] by (simp add: live_book_def)

lemma live_book_emit [simp]: "live_book r waiting (emit e m) = live_book r waiting m"
  by (auto elim: live_book_cong)

lemma live_submit:
  assumes lb: "live_book r waiting m"
  shows "submit req ck m = (False, m)
     \<or> (\<exists>oid m'. submit req ck m = (True, emit (EmsPlace req oid) m') \<and> om_out m' = om_out m
          \<and> live_book r (waiting @ [oid]) m')"
proof (cases "pool_acquire (om_pool m)")
  case (Pair p pl)
  show ?thesis
  proof (cases p)
    case None
    with Pair show ?thesis by (simp add: submit_None)
  next
    case (Some i)
    with Pair have acq: "pool_acquire (om_pool m) = (Some i, pl)" by simp
    let ?oid = "order_id_string (ck_sys_ms ck) (om_seq m)"
    let ?m = "entered req ck i pl m"
    have one: "om_seq m + 1 \<noteq> 0" "unat (om_seq m + 1) = unat (om_seq m) + 1"
      using unat_plus_one [OF live_book_room [OF lb]] by simp_all
    have inv: "oms_inv 10000 12 m" and b: "book_inv 10000 (om_pool m) (om_orders m) (om_seq m)"
      using lb by (simp_all add: live_book_def oms_inv_def)
    have fresh: "?oid \<notin> fst ` set (om_orders m)"
      using book_inv_insert(2) [OF b acq one(1), where po = "pooled_order_init\<lparr>po_order := order_init
          \<lparr>od_order_id := strncpy_buf MAX_ORDER_ID_LEN (order_id_string (ck_sys_ms ck) (om_seq m))\<rparr>\<rparr>"]
      by (simp add: pooled_order_init_def is_terminal_def map_of_eq_None_iff)
    have new: "i \<notin> snd ` set (om_orders m)"
      using opool.acquire_splits [OF _ _ acq, of "{..<10000}" "snd ` set (om_orders m)"] b by (simp add: book_inv_def)
    have sub: "submit req ck m = (True, emit (EmsPlace req ?oid) ?m)"
      using lb by (simp add: submit_Some [OF acq refl] live_book_def)
    have ord: "om_orders ?m = om_orders m @ [(?oid, i)]"
      by (simp add: entered_def Let_def keys_alist_update_fresh [OF fresh])
    have sm: "po_sm (slot_of ?m j) = (if j = i then PENDING else po_sm (slot_of m j))" for j
      using pool_acquire_zeroed [OF acq] pool_acquire_others [OF acq, of j]
      by (simp add: entered_def Let_def upd_slot_def pooled_order_init_def)
    have "oms_inv 10000 12 ?m" using inv acq one(1) by (rule oms_inv_entered)
    moreover have "\<forall>(oid, j) \<in> set (om_orders ?m). po_sm (slot_of ?m j) \<in> {PENDING, OPEN}"
      using lb by (auto simp: ord sm live_book_def)
    moreover have "om_paper ?m = om_paper m" "om_has_reject_cb ?m = om_has_reject_cb m"
      "om_ex2int ?m = om_ex2int m" "om_fill_queue ?m = om_fill_queue m" "om_out ?m = om_out m"
      by (simp_all add: entered_def Let_def)
    moreover have "distinct (waiting @ [?oid])" "set (waiting @ [?oid]) \<subseteq> fst ` set (om_orders ?m)"
      using lb fresh by (auto simp: live_book_def ord)
    ultimately have "live_book r (waiting @ [?oid]) ?m" "om_out ?m = om_out m"
      using lb one(2) by (simp_all add: live_book_def ord)
    with sub show ?thesis by blast
  qed
qed

lemma live_cancel: "live_book r waiting m \<Longrightarrow> live_book r waiting (snd (cancel oid m))
     \<and> (\<exists>outs. om_out (snd (cancel oid m)) = om_out m @ outs \<and> placed outs = [] \<and> (\<forall>f. FillCb f \<notin> set outs))"
  by (rule cancel_cases [of oid m]) auto

lemma live_ack:
  assumes lb: "live_book r waiting m" and ex: "ex \<noteq> []"
  shows "live_book r waiting (on_order_ack ex oid m)"
proof (cases "map_of (om_orders m) oid")
  case (Some i)
  let ?m = "on_order_ack ex oid m"
  have sm: "po_sm (slot_of ?m j) = (if j = i then snd (transition (po_sm (slot_of m i)) OPEN) else po_sm (slot_of m j))" for j
    by (simp add: on_order_ack_def Some)
  have "po_sm (slot_of m i) \<in> {PENDING, OPEN}"
    using lb map_of_SomeD [OF Some] by (auto simp: live_book_def)
  then have "snd (transition (po_sm (slot_of m i)) OPEN) = OPEN" by (auto simp: transition_eq)
  moreover have "om_orders ?m = om_orders m" "om_paper ?m = om_paper m" "om_has_reject_cb ?m = om_has_reject_cb m"
    "om_fill_queue ?m = om_fill_queue m" "map_of (om_ex2int ?m) [] = map_of (om_ex2int m) []"
    using ex by (simp_all add: on_order_ack_def Some update_conv')
  ultimately show ?thesis
    using lb oms_inv_ack [of 10000 12 m ex oid] by (auto simp: live_book_def sm)
qed (use lb in \<open>simp add: on_order_ack_def\<close>)

lemma live_error:
  assumes lb: "live_book r (ws @ oid # ws') m" and r: "Suc r < 2 ^ 63"
  shows "live_book (Suc r) (ws @ ws') (on_place_error oid reason m) \<and> om_out (on_place_error oid reason m) = om_out m"
proof -
  have inv: "oms_inv 10000 12 m" and own: "owned_table (om_orders m)"
    using lb by (simp_all add: live_book_def oms_inv_def book_inv_def)
  have "map_of (om_orders m) [] = None"
    using inv by (auto simp: oms_inv_def book_inv_def book_entry_ok_def map_of_eq_None_iff)
  then have none: "on_reject [] reason m = m"
    using lb by (simp add: on_reject_def live_book_def)
  obtain i where i: "map_of (om_orders m) oid = Some i"
    using lb by (cases "map_of (om_orders m) oid") (auto simp: live_book_def map_of_eq_None_iff)
  let ?m = "on_place_error oid reason m"
  have m: "?m = m\<lparr>om_pool := pool_release (Some i) (om_pool m), om_orders := AList.delete oid (om_orders m)\<rparr>"
    by (simp add: on_place_error_def none i)
  have "oms_inv 10000 12 ?m" using inv by (rule oms_inv_place_error)
  moreover have "Suc (length (om_orders ?m)) = length (om_orders m)"
    using length_alist_delete [OF _ i] own by (simp add: m owned_table_def)
  moreover have "\<forall>(oid, j) \<in> set (om_orders ?m). po_sm (slot_of ?m j) \<in> {PENDING, OPEN}"
  proof -
    have "\<forall>(oid, j) \<in> set (om_orders m). po_sm (slot_of m j) \<in> {PENDING, OPEN}"
      using lb by (simp add: live_book_def)
    then show ?thesis using set_alist_delete_subset [of oid "om_orders m"] by (simp only: m oms.select_convs oms.update_convs) auto
  qed
  moreover have "fst ` set (om_orders ?m) = fst ` set (om_orders m) - {oid}"
    using arg_cong [OF AList.delete_keys [of oid "om_orders m"], of set] by (simp add: m)
  ultimately show ?thesis
    using lb r by (auto simp: live_book_def m)
qed

section \<open>Steps of the engine\<close>

lemma placed_append [simp]: "placed (xs @ ys) = placed xs @ placed ys"
  by (induction xs rule: placed.induct) simp_all

definition live_to :: "nat \<Rightarrow> string list \<Rightarrow> oms \<Rightarrow> oms \<Rightarrow> bool" where
  \<comment> \<open>the book stays in order, with what was sent added to what is under way, and nothing was filled\<close>
  "live_to r waiting m m' \<longleftrightarrow> (\<exists>outs. om_out m' = om_out m @ outs \<and> (\<forall>f. FillCb f \<notin> set outs)
     \<and> live_book r (waiting @ map snd (placed outs)) m')"

lemma live_to_refl: "live_book r waiting m \<Longrightarrow> live_to r waiting m m"
  by (simp add: live_to_def)

lemma live_to_submit: "live_book r waiting m \<Longrightarrow> live_to r waiting m (snd (submit req ck m))"
  using live_submit [of r waiting m req ck] by (auto simp: live_to_def)

lemma live_to_cancel: "live_book r waiting m \<Longrightarrow> live_to r waiting m (snd (cancel oid m))"
  using live_cancel [of r waiting m oid] by (auto simp: live_to_def)

lemma live_to_cancel_list: "live_book r waiting m \<Longrightarrow> live_to r waiting m (cancel_list oids m)"
proof (induction oids arbitrary: m)
  case (Cons oid oids)
  obtain outs where o: "om_out (snd (cancel oid m)) = om_out m @ outs" "placed outs = []" "\<forall>f. FillCb f \<notin> set outs"
    "live_book r waiting (snd (cancel oid m))" using live_cancel [OF Cons.prems, of oid] by blast
  from Cons.IH [OF o(4)] obtain outs' where "om_out (cancel_list oids (snd (cancel oid m))) = om_out (snd (cancel oid m)) @ outs'"
    "\<forall>f. FillCb f \<notin> set outs'" "live_book r (waiting @ map snd (placed outs')) (cancel_list oids (snd (cancel oid m)))"
    by (auto simp: live_to_def)
  with o show ?case unfolding live_to_def by (intro exI [of _ "outs @ outs'"]) auto
qed (simp add: live_to_refl)

definition live_ok :: "nat \<Rightarrow> string list \<Rightarrow> oms_out list \<Rightarrow> portfolio \<Rightarrow> engine \<Rightarrow> bool" where
  "live_ok r waiting base pf eg \<longleftrightarrow> (\<exists>outs. om_out (eg_oms eg) = base @ outs
       \<and> live_book r (waiting @ map snd (placed outs)) (eg_oms eg))
     \<and> eg_published_fills eg = [] \<and> eg_portfolio eg = pf"

lemma run_callbacks_no_fill:
  "\<forall>f. FillCb f \<notin> set outs \<Longrightarrow> eg_published_fills (run_callbacks outs eg) = eg_published_fills eg"
  by (induction outs eg rule: run_callbacks.induct) auto

lemma live_ok_with_oms:
  assumes "live_ok r waiting base pf eg"
    and "\<And>ws. live_book r ws (eg_oms eg) \<Longrightarrow> live_to r ws (eg_oms eg) m"
    and "eg_oms eg' = eg_oms eg" "eg_published_fills eg' = eg_published_fills eg" "eg_portfolio eg' = eg_portfolio eg"
  shows "live_ok r waiting base pf (with_oms m eg')"
proof -
  obtain outs where o: "om_out (eg_oms eg) = base @ outs" "live_book r (waiting @ map snd (placed outs)) (eg_oms eg)"
    using assms(1) by (auto simp: live_ok_def)
  obtain outs' where o': "om_out m = om_out (eg_oms eg) @ outs'" "\<forall>f. FillCb f \<notin> set outs'"
    "live_book r ((waiting @ map snd (placed outs)) @ map snd (placed outs')) m"
    using assms(2) [OF o(2)] by (auto simp: live_to_def)
  have "eg_published_fills (with_oms m eg') = []"
    using assms(1,4) run_callbacks_no_fill [OF o'(2), of "eg'\<lparr>eg_oms := m\<rparr>"]
    by (simp add: with_oms_def assms(3) o'(1) live_ok_def)
  then show ?thesis
    using o o' assms(1,5) unfolding live_ok_def by (intro conjI exI [of _ "outs @ outs'"]) (auto simp: live_ok_def)
qed

lemma live_turn:
  assumes "live_ok r waiting base pf eg"
  shows "portfolio_turn eg = eg"
proof -
  obtain ws where "live_book r ws (eg_oms eg)" using assms by (auto simp: live_ok_def)
  then have "spsc_inv 12 (om_fill_queue (eg_oms eg))" "spsc_items (om_fill_queue (eg_oms eg)) = []"
    by (simp_all add: live_book_def oms_inv_def)
  from ring.deq_nil [OF this] show ?thesis by (simp add: portfolio_turn_def fill_loop_iter_def)
qed

lemma live_ok_frame:
  "live_ok r waiting base pf eg \<Longrightarrow> eg_oms eg' = eg_oms eg \<Longrightarrow> eg_published_fills eg' = eg_published_fills eg
   \<Longrightarrow> eg_portfolio eg' = eg_portfolio eg \<Longrightarrow> live_ok r waiting base pf eg'"
  by (simp add: live_ok_def)

interpretation lv: engine_property "live_ok r waiting base pf" no_ems_event for r waiting base pf
proof
  show "live_ok r waiting base pf eg \<Longrightarrow> no_ems_event e \<Longrightarrow> live_ok r waiting base pf (engine_step e eg)" for eg e
    by (cases e) (auto simp: ctx_submit_order_eq Let_def ctx_cancel_order_def split_beta cancel_all_open_def live_turn
        normalizer_turn_def raw_tick_def
        intro: live_to_submit live_to_cancel live_to_cancel_list
        intro!: live_ok_with_oms elim: live_ok_frame)
  show "live_ok r waiting base pf eg \<Longrightarrow> live_ok r waiting base pf (eg\<lparr>eg_normalizer := nm, eg_risk := re\<rparr>)" for eg nm re
    by (simp add: live_ok_def)
qed simp_all

section \<open>Runs\<close>

definition live_inv :: "portfolio \<Rightarrow> live \<Rightarrow> bool" where
  "live_inv pf lv \<longleftrightarrow> live_book (lv_refused lv) (map snd (lv_under_way lv)) (eg_oms (live_engine lv))
     \<and> eg_published_fills (live_engine lv) = [] \<and> eg_portfolio (live_engine lv) = pf
     \<and> \<not> rc_paper_mode (em_rest (lv_ems lv))"

lemma live_inv_local:
  assumes "live_inv pf lv" and "allowed_event no_ems_event e"
  shows "live_inv pf (live_local on_candle lib e lv) \<and> lv_refused (live_local on_candle lib e lv) = lv_refused lv"
proof -
  have "live_ok (lv_refused lv) (map snd (lv_under_way lv)) (om_out (eg_oms (live_engine lv))) pf
      (wd_engine (snd (lv_system lv)))"
    using assms(1) by (simp add: live_inv_def live_ok_def live_engine_def)
  from lv.system_step_keeps [OF this assms(2), of on_candle lib] show ?thesis
    using assms(1) by (auto simp: live_inv_def live_ok_def live_local_def Let_def live_engine_def)
qed

lemma drop_nth_split: "i < length xs \<Longrightarrow> xs = take i xs @ xs ! i # drop (Suc i) xs"
  by (rule id_take_nth_drop)

lemma live_book_forget: "live_book r (ws @ oid # ws') m \<Longrightarrow> live_book r (ws @ ws') m"
  by (auto simp: live_book_def)

lemma live_engine_set [simp]: "live_engine (set_engine eg lv) = eg" "lv_ems (set_engine eg lv) = lv_ems lv"
  by (simp_all add: live_engine_def set_engine_def)

lemma live_engine_frame [simp]: "live_engine (lv\<lparr>lv_under_way := u\<rparr>) = live_engine lv"
  "live_engine (lv\<lparr>lv_refused := n\<rparr>) = live_engine lv"
  by (simp_all add: live_engine_def)

lemma quiet_ems_step:
  assumes "om_out m = om_out (eg_oms eg)"
  shows "eg_published_fills (with_oms m eg) = eg_published_fills eg"
  using assms by (simp add: with_oms_def)

lemma live_inv_answer:
  assumes inv: "live_inv pf lv" and r: "Suc (lv_refused lv) < 2 ^ 63"
    and ids: "\<forall>body j. parse body = Some j \<longrightarrow> exchange_oid j \<noteq> Some []"
  shows "live_inv pf (live_answer dump parse i net lv)
     \<and> lv_refused (live_answer dump parse i net lv) \<le> Suc (lv_refused lv)"
proof (cases "i < length (lv_under_way lv)")
  case True
  obtain req oid where ro: "lv_under_way lv ! i = (req, oid)" by fastforce
  let ?ws = "map snd (take i (lv_under_way lv))" and ?ws' = "map snd (drop (Suc i) (lv_under_way lv))"
  let ?eg = "live_engine lv" and ?cb = "ems_place_order dump parse req oid net (lv_ems lv)"
  have split: "map snd (lv_under_way lv) = ?ws @ oid # ?ws'"
    using arg_cong [OF drop_nth_split [OF True], of "map snd"] by (simp add: ro)
  have lb: "live_book (lv_refused lv) (?ws @ oid # ?ws') (eg_oms ?eg)"
    using inv by (simp add: live_inv_def split)
  have lv': "live_answer dump parse i net lv = (set_engine (network_answers dump parse req oid net (lv_ems lv) ?eg) lv)
      \<lparr>lv_under_way := drop_nth i (lv_under_way lv),
       lv_refused := lv_refused lv + (case ?cb of Some (OnReject _) \<Rightarrow> 1 | _ \<Rightarrow> 0)\<rparr>"
    using True by (simp add: live_answer_def ro)
  have rest: "map snd (drop_nth i (lv_under_way lv)) = ?ws @ ?ws'" by (simp add: drop_nth_def)
  consider "?cb = None" | ex where "?cb = Some (OnAck ex)" | reason where "?cb = Some (OnReject reason)"
    by (metis ems_callback.exhaust option.exhaust)
  then show ?thesis
  proof cases
    case 1
    then show ?thesis
      using inv live_book_forget [OF lb] by (simp add: lv' network_answers_def live_inv_def rest)
  next
    case (2 ex)
    then have "ex \<noteq> []"
      using ids by (auto simp: ems_place_order_def place_callback_def bind_eq_Some_conv rest_place_order_def rest_outcome_def
          split: rest_callback.splits if_splits rest_call.splits)
    from live_ack [OF live_book_forget [OF lb] this, of oid] show ?thesis
      using inv 2 quiet_ems_step [of "on_order_ack ex oid (eg_oms ?eg)" ?eg]
      by (simp add: lv' network_answers_def oms_callback_def live_inv_def rest on_order_ack_def split: option.split)
  next
    case (3 reason)
    from live_error [OF lb r, of reason] show ?thesis
      using inv 3 quiet_ems_step [of "on_place_error oid reason (eg_oms ?eg)" ?eg]
      by (simp add: lv' network_answers_def oms_callback_def live_inv_def rest)
  qed
qed (use inv in \<open>simp add: live_answer_def\<close>)

lemma live_inv_run:
  "live_inv pf lv \<Longrightarrow> list_all live_event_ok es \<Longrightarrow> lv_refused lv + length es < 2 ^ 63 \<Longrightarrow>
   \<forall>body j. parse body = Some j \<longrightarrow> exchange_oid j \<noteq> Some [] \<Longrightarrow>
   live_inv pf (live_run dump parse on_candle lib es lv)"
proof (induction es arbitrary: lv)
  case (Cons e es)
  have "live_inv pf (live_step dump parse on_candle lib e lv)
      \<and> lv_refused (live_step dump parse on_candle lib e lv) \<le> Suc (lv_refused lv)"
    using Cons.prems live_inv_local [of pf lv _ on_candle lib] live_inv_answer [of pf lv parse dump]
    by (cases e) fastforce+
  with Cons show ?case by simp
qed simp

lemma live_inv_start:
  assumes "\<not> ec_paper_trading cfg"
  shows "live_inv (set_update_callback portfolio_new) (live_start cfg now readings)"
proof -
  let ?m = "set_fill_callback (oms_new 10000 (2 ^ 12) False)"
  have "oms_inv 10000 12 ?m"
    using oms_inv_new [of 12 10000 False] by (rule oms_inv_cong) (simp_all add: set_fill_callback_def)
  moreover have "spsc_items (om_fill_queue ?m) = []"
    by (simp add: set_fill_callback_def oms_new_def)
  moreover have "eg_oms (engine_new cfg now) = ?m"
    using assms by (simp add: engine_new_def ORDER_POOL_SIZE_def FILL_QUEUE_CAPACITY_def)
  ultimately show ?thesis
    using assms by (simp add: live_inv_def live_start_def live_engine_def live_book_def set_fill_callback_def oms_new_def
        ems_new_def ems_set_fill_callback_def engine_new_def)
qed

text \<open>
  C30: live orders never complete. In every live run, whatever the strategies, the network and the exchange
  do and in whatever order answers come, no fill is reported and the portfolio stays as it was at the start;
  every order the exchange has not refused is in the table, pending or open, for ever. So the engine sends
  at most 10000 orders that are not refused, and rejects every order after that.
\<close>

lemma live_orders_never_complete:
  assumes "\<not> ec_paper_trading cfg" and "list_all live_event_ok es" and "length es < 2 ^ 63"
    and "\<forall>body j. parse body = Some j \<longrightarrow> exchange_oid j \<noteq> Some []"
    and "lv = live_run dump parse on_candle lib es (live_start cfg now readings)" and "m = eg_oms (live_engine lv)"
  shows "eg_published_fills (live_engine lv) = []
     \<and> eg_portfolio (live_engine lv) = set_update_callback portfolio_new
     \<and> length (om_orders m) + lv_refused lv = unat (om_seq m)
     \<and> (\<forall>(oid, i) \<in> set (om_orders m). po_sm (slot_of m i) \<in> {PENDING, OPEN})
     \<and> (fst (submit req ck m) \<longleftrightarrow> unat (om_seq m) < 10000 + lv_refused lv)"
proof -
  have "lv_refused (live_start cfg now readings) + length es < 2 ^ 63"
    using assms(3) by (simp add: live_start_def)
  from live_inv_run [OF live_inv_start [OF assms(1)] assms(2) this assms(4), of dump on_candle lib]
  have inv: "live_inv (set_update_callback portfolio_new) lv" by (simp add: assms(5))
  then have lb: "live_book (lv_refused lv) (map snd (lv_under_way lv)) m" by (simp add: live_inv_def assms(6))
  then have "fst (submit req ck m) \<longleftrightarrow> length (om_orders m) < 10000"
    by (intro submit_accepts_iff [where k = 12]) (simp add: live_book_def)
  with inv lb show ?thesis by (auto simp: live_inv_def live_book_def)
qed

definition some_live_events :: "live_event list" where
  \<comment> \<open>an order, its answer, and a second order that is refused\<close>
  "some_live_events =
     [Local (EngineEvent (StrategyOrder strategy_config_init (momentum_order 5) 363600 0
        \<lparr>ck_sys_ms = 0, ck_place_ns = 1, ck_fill_ns = 2\<rparr>)), Answer 0 (Response 200 ''{}''),
      Local (EngineEvent (StrategyOrder strategy_config_init (momentum_order 5) 363601 1
        \<lparr>ck_sys_ms = 1, ck_place_ns = 3, ck_fill_ns = 4\<rparr>)), Answer 0 (ReadFailed ''reset'')]"

lemma live_orders_never_complete_witness:
  "let lv = live_run (\<lambda>j. []) two_answers (\<lambda>cv c m. m) (\<lambda>p. NullStrategy) some_live_events
         (live_start (engine_config_init\<lparr>ec_paper_trading := False\<rparr>) 0 some_readings)
   in eg_published_fills (live_engine lv) = []
      \<and> length (om_orders (eg_oms (live_engine lv))) + lv_refused lv = unat (om_seq (eg_oms (live_engine lv)))"
proof -
  have "\<not> ec_paper_trading (engine_config_init\<lparr>ec_paper_trading := False\<rparr>)" by simp
  moreover have "list_all live_event_ok some_live_events" by (simp add: some_live_events_def)
  moreover have "length some_live_events < 2 ^ 63" by (simp add: some_live_events_def)
  moreover have "\<forall>body j. two_answers body = Some j \<longrightarrow> exchange_oid j \<noteq> Some []"
    by (auto simp: two_answers_def exchange_oid_def)
  ultimately show ?thesis
    using live_orders_never_complete [OF _ _ _ _ refl refl] unfolding Let_def by blast
qed

end
