(* ===== verification/QF_Kafka.thy ===== *)
theory QF_Kafka
  imports QF_Types
begin

text \<open>
  The Kafka publisher of \<open>cpp/transport/kafka_publisher.cpp\<close>, as it is when built with Kafka: what each
  call produces, and the byte layouts of ticks and fills on a little-endian machine. The bits of a
  double and the text \<open>operator<<\<close> prints for one are arguments, and so is what librdkafka answers to
  \<open>produce\<close>. A message is a list of bytes.
\<close>

type_synonym byte = "8 word"

section \<open>Bytes\<close>

fun le_bytes :: "nat \<Rightarrow> nat \<Rightarrow> byte list" where
  \<comment> \<open>the \<open>n\<close> low bytes of a number as \<open>memcpy\<close> lays them out\<close>
  "le_bytes 0 v = []"
| "le_bytes (Suc n) v = of_nat (v mod 256) # le_bytes n (v div 256)"

definition u64_bytes :: "u64 \<Rightarrow> byte list" where
  "u64_bytes w = le_bytes 8 (unat w)"

definition i32_bytes :: "int \<Rightarrow> byte list" where
  "i32_bytes x = le_bytes 4 (nat (x mod 4294967296))"

definition char_bytes :: "string \<Rightarrow> byte list" where
  "char_bytes s = map (\<lambda>c. of_nat (of_char c)) s"

definition buffer_bytes :: "nat \<Rightarrow> string \<Rightarrow> byte list" where
  \<comment> \<open>a zeroed \<open>char[n]\<close> that holds \<open>s\<close>\<close>
  "buffer_bytes n s = take n (char_bytes s @ replicate n 0)"

section \<open>Serializers\<close>

definition serialize_tick :: "(dbl \<Rightarrow> u64) \<Rightarrow> tick \<Rightarrow> byte list" where
  "serialize_tick bits t = u64_bytes (tk_token t) @ u64_bytes (bits (tk_ltp t)) @ u64_bytes (tk_volume t)
     @ u64_bytes (tk_recv_ts_ns t)"

definition serialize_fill :: "(dbl \<Rightarrow> u64) \<Rightarrow> fill \<Rightarrow> byte list" where
  \<comment> \<open>89 bytes are written into a buffer of 100\<close>
  "serialize_fill bits f = (let written = buffer_bytes MAX_ORDER_ID_LEN (fl_order_id f)
       @ buffer_bytes MAX_STRATEGY_LEN (fl_strategy_id f) @ u64_bytes (fl_token f)
       @ u64_bytes (bits (fl_price f)) @ i32_bytes (fl_quantity f) @ [side_code (fl_side f)]
     in written @ replicate (32 + MAX_ORDER_ID_LEN + MAX_STRATEGY_LEN - length written) 0)"

definition serialize_portfolio :: "(dbl \<Rightarrow> string) \<Rightarrow> snapshot \<Rightarrow> byte list" where
  "serialize_portfolio fmt s = char_bytes
     (''{\"available_capital\":'' @ fmt (sn_available_capital s)
      @ '',\"realized_pnl\":'' @ fmt (sn_total_realized_pnl s)
      @ '',\"unrealized_pnl\":'' @ fmt (sn_total_unrealized_pnl s)
      @ '',\"ts\":'' @ dec (unat (sn_ts_ns s)) @ ''}'')"

definition serialize_alert :: "risk_alert \<Rightarrow> byte list" where
  "serialize_alert a = char_bytes
     (''{\"level\":'' @ dec (unat (alert_level_code (ra_level a)))
      @ '',\"strategy\":\"'' @ ra_strategy_id a @ ''\"''
      @ '',\"message\":\"'' @ ra_message a @ ''\"''
      @ '',\"ts\":'' @ dec (unat (ra_ts_ns a)) @ ''}'')"

section \<open>State and operations\<close>

datatype topic = Ticks | Fills | Portfolio | Alerts

primrec topic_name :: "topic \<Rightarrow> string" where
  "topic_name Ticks = ''market.ticks''"
| "topic_name Fills = ''order.fills''"
| "topic_name Portfolio = ''portfolio.updates''"
| "topic_name Alerts = ''risk.alerts''"

record kafka_message =
  km_topic :: topic
  km_partition :: "nat option" \<comment> \<open>\<open>None\<close>: unassigned\<close>
  km_payload :: "byte list"
  km_key :: "byte list"

record kafka =
  kf_healthy :: bool
  kf_topics :: "topic set"
  kf_published :: u64
  kf_errors :: u64
  kf_queued :: "kafka_message list" \<comment> \<open>what the client library has accepted\<close>

definition kafka_new :: "bool \<Rightarrow> topic set \<Rightarrow> kafka" where
  \<comment> \<open>whether the producer could be created, and for which topics a handle was\<close>
  "kafka_new created handles = \<lparr>kf_healthy = created, kf_topics = (if created then handles else {}),
     kf_published = 0, kf_errors = 0, kf_queued = []\<rparr>"

definition produce :: "bool \<Rightarrow> kafka_message \<Rightarrow> kafka \<Rightarrow> kafka" where
  \<comment> \<open>the returned error code is not looked at; a full queue refuses the message\<close>
  "produce accepted msg kf = (if accepted then kf\<lparr>kf_queued := kf_queued kf @ [msg]\<rparr> else kf)"

definition publish_tick :: "(dbl \<Rightarrow> u64) \<Rightarrow> bool \<Rightarrow> tick \<Rightarrow> kafka \<Rightarrow> kafka" where
  "publish_tick bits accepted t kf =
     (if \<not> kf_healthy kf \<or> Ticks \<notin> kf_topics kf then kf
      else let kf = produce accepted \<lparr>km_topic = Ticks, km_partition = None,
             km_payload = serialize_tick bits t, km_key = le_bytes 4 (unat (tk_token t) mod 4294967296)\<rparr> kf
           in kf\<lparr>kf_published := kf_published kf + 1\<rparr>)"

definition publish_fill :: "(dbl \<Rightarrow> u64) \<Rightarrow> bool \<Rightarrow> fill \<Rightarrow> kafka \<Rightarrow> kafka" where
  "publish_fill bits accepted f kf =
     (if \<not> kf_healthy kf \<or> Fills \<notin> kf_topics kf then kf
      else let kf = produce accepted \<lparr>km_topic = Fills, km_partition = None,
             km_payload = serialize_fill bits f, km_key = char_bytes (c_str (fl_strategy_id f))\<rparr> kf
           in kf\<lparr>kf_published := kf_published kf + 1\<rparr>)"

definition publish_portfolio :: "(dbl \<Rightarrow> string) \<Rightarrow> bool \<Rightarrow> snapshot \<Rightarrow> kafka \<Rightarrow> kafka" where
  "publish_portfolio fmt accepted s kf =
     (if \<not> kf_healthy kf \<or> Portfolio \<notin> kf_topics kf then kf
      else let kf = produce accepted \<lparr>km_topic = Portfolio, km_partition = Some 0,
             km_payload = serialize_portfolio fmt s, km_key = []\<rparr> kf
           in kf\<lparr>kf_published := kf_published kf + 1\<rparr>)"

definition publish_alert :: "bool \<Rightarrow> risk_alert \<Rightarrow> kafka \<Rightarrow> kafka" where
  "publish_alert accepted a kf =
     (if \<not> kf_healthy kf \<or> Alerts \<notin> kf_topics kf then kf
      else produce accepted \<lparr>km_topic = Alerts, km_partition = None,
             km_payload = serialize_alert a, km_key = []\<rparr> kf)"

definition delivery_report :: "bool \<Rightarrow> kafka \<Rightarrow> kafka" where
  "delivery_report failed kf = (if failed then kf\<lparr>kf_errors := kf_errors kf + 1\<rparr> else kf)"

section \<open>Reading back\<close>

fun le_value :: "byte list \<Rightarrow> nat" where
  "le_value [] = 0"
| "le_value (b # bs) = unat b + 256 * le_value bs"

definition read_u64 :: "byte list \<Rightarrow> u64" where "read_u64 bs = of_nat (le_value bs)"

definition read_i32 :: "byte list \<Rightarrow> int" where "read_i32 bs = i32 (int (le_value bs))"

definition read_buffer :: "byte list \<Rightarrow> string" where
  "read_buffer bs = c_str (map (\<lambda>b. char_of (unat b)) bs)"

definition slice :: "nat \<Rightarrow> nat \<Rightarrow> byte list \<Rightarrow> byte list" where
  "slice off n bs = take n (drop off bs)"

record wire_fill =
  wf_order_id :: string
  wf_strategy_id :: string
  wf_token :: u64
  wf_price_bits :: u64
  wf_quantity :: int
  wf_side :: byte

definition read_fill :: "byte list \<Rightarrow> wire_fill" where
  "read_fill bs = \<lparr>wf_order_id = read_buffer (slice 0 36 bs), wf_strategy_id = read_buffer (slice 36 32 bs),
     wf_token = read_u64 (slice 68 8 bs), wf_price_bits = read_u64 (slice 76 8 bs),
     wf_quantity = read_i32 (slice 84 4 bs), wf_side = bs ! 88\<rparr>"

lemma length_le_bytes [simp]: "length (le_bytes n v) = n"
  by (induction n arbitrary: v) simp_all

lemma le_value_bytes: "le_value (le_bytes n v) = v mod 256 ^ n"
proof (induction n arbitrary: v)
  case (Suc n)
  have "unat (of_nat (v mod 256) :: byte) = v mod 256" by (simp add: unat_of_nat)
  then show ?case using Suc by (simp add: mod_mult2_eq)
qed simp

lemma read_u64_bytes [simp]: "read_u64 (u64_bytes w) = w"
proof -
  have "unat w mod 256 ^ 8 = unat w" using unsigned_less [of w] by (intro mod_less) simp
  then show ?thesis by (simp add: read_u64_def u64_bytes_def le_value_bytes del: power_numeral)
qed

lemma read_i32_bytes: "read_i32 (i32_bytes x) = i32 x"
proof -
  have "int (nat (x mod 4294967296) mod 256 ^ 4) = x mod 4294967296"
    by (simp add: zmod_int)
  then have "read_i32 (i32_bytes x) = i32 (x mod 4294967296)"
    by (simp add: read_i32_def i32_bytes_def le_value_bytes)
  also have "\<dots> = i32 x" unfolding i32_def by (simp add: mod_simps)
  finally show ?thesis .
qed

lemma length_u64_bytes [simp]: "length (u64_bytes w) = 8"
  by (simp add: u64_bytes_def)

lemma length_i32_bytes [simp]: "length (i32_bytes x) = 4"
  by (simp add: i32_bytes_def)

lemma length_buffer_bytes [simp]: "length (buffer_bytes n s) = n"
  by (simp add: buffer_bytes_def char_bytes_def)

lemma char_byte_roundtrip: "char_of (unat (of_nat (of_char c) :: byte)) = c"
  by (simp add: unat_of_nat)

lemma char_of_zero: "char_of (0 :: nat) = CHR 0x00"
  by (simp add: char_of_def)

lemma read_buffer_bytes:
  assumes "CHR 0x00 \<notin> set s" and "length s \<le> n"
  shows "read_buffer (buffer_bytes n s) = s"
proof -
  have "map (\<lambda>b. char_of (unat b)) (buffer_bytes n s) = s @ replicate (n - length s) (CHR 0x00)"
    using assms(2)
    by (simp add: buffer_bytes_def char_bytes_def take_map comp_def char_byte_roundtrip min_def char_of_zero)
  moreover have "c_str (s @ replicate k (CHR 0x00)) = s" for k
    using assms(1) unfolding c_str_def by (subst takeWhile_append2) (auto simp: takeWhile_replicate)
  ultimately show ?thesis by (simp add: read_buffer_def)
qed


text \<open>
  A tick survives the wire: from the 32 bytes of the message one reads back its token, the bits of
  its price, its volume and its receive time.
\<close>

lemma tick_wire_roundtrip:
  "length (serialize_tick bits t) = 32
   \<and> read_u64 (slice 0 8 (serialize_tick bits t)) = tk_token t
   \<and> read_u64 (slice 8 8 (serialize_tick bits t)) = bits (tk_ltp t)
   \<and> read_u64 (slice 16 8 (serialize_tick bits t)) = tk_volume t
   \<and> read_u64 (slice 24 8 (serialize_tick bits t)) = tk_recv_ts_ns t"
  by (simp add: serialize_tick_def slice_def)

definition wire_of :: "(dbl \<Rightarrow> u64) \<Rightarrow> fill \<Rightarrow> wire_fill" where
  \<comment> \<open>what a consumer can know of a fill\<close>
  "wire_of bits f = \<lparr>wf_order_id = fl_order_id f, wf_strategy_id = fl_strategy_id f,
     wf_token = fl_token f, wf_price_bits = bits (fl_price f), wf_quantity = i32 (fl_quantity f),
     wf_side = side_code (fl_side f)\<rparr>"

text \<open>
  A fill whose texts fit their buffers survives the wire: from the message, which always has 100 bytes,
  one reads back the order, the strategy, the instrument, the bits of the price, the quantity and the side.
\<close>

lemma fill_wire_roundtrip:
  assumes "CHR 0x00 \<notin> set (fl_order_id f)" and "length (fl_order_id f) < MAX_ORDER_ID_LEN"
    and "CHR 0x00 \<notin> set (fl_strategy_id f)" and "length (fl_strategy_id f) < MAX_STRATEGY_LEN"
  shows "length (serialize_fill bits f) = 100 \<and> read_fill (serialize_fill bits f) = wire_of bits f"
proof -
  have b: "read_buffer (buffer_bytes 36 (fl_order_id f)) = fl_order_id f"
    "read_buffer (buffer_bytes 32 (fl_strategy_id f)) = fl_strategy_id f"
    using assms by (simp_all add: limit_defs read_buffer_bytes)
  show ?thesis
    by (simp add: serialize_fill_def Let_def limit_defs read_fill_def slice_def b read_i32_bytes nth_append wire_of_def)
qed

text \<open>
  The message of a fill leaves out the trade id and the time: fills that differ in nothing else
  become the same message, so no consumer can tell a second fill from a repeated one.
\<close>

lemma fill_message_anonymous:
  "serialize_fill bits (f\<lparr>fl_trade_id := tid, fl_ts_ns := ts\<rparr>) = serialize_fill bits f"
  by (simp add: serialize_fill_def)

section \<open>A full queue\<close>

text \<open>
  When the client library refuses a message because its queue is full, it is the new message that is
  lost, the old ones stay, and it is counted as published all the same.
\<close>

lemma full_queue_drops_newest:
  assumes "kf_healthy kf" and "Fills \<in> kf_topics kf"
  shows "kf_queued (publish_fill bits False f kf) = kf_queued kf
     \<and> kf_published (publish_fill bits False f kf) = kf_published kf + 1"
  using assms by (simp add: publish_fill_def produce_def Let_def)

lemma full_queue_drops_newest_witness:
  "kf_published (publish_fill (\<lambda>x. 0) False fill_init (kafka_new True {Fills})) = 1"
  by (subst full_queue_drops_newest [THEN conjunct2]) (simp_all add: kafka_new_def)

end
