(* ===== verification/QF_Redis.thy ===== *)
theory QF_Redis
  imports QF_Types
begin

text \<open>
  The Redis client of \<open>cpp/transport/redis_client.cpp\<close>, as it is when built with hiredis: the URL it
  parses, the commands it appends to the pipeline, and the flush. A command is the list of its
  arguments. What hiredis answers is an argument: whether a connection can be made, and the answer of
  the \<open>n\<close>-th \<open>redisGetReply\<close> of a flush. So is the text \<open>%.4f\<close> prints for a double.
\<close>

section \<open>The URL\<close>

definition host_port :: "string \<Rightarrow> (string \<times> string) option" where
  \<comment> \<open>the expression \<open>([^:]+):(\d+)\<close> for a whole text\<close>
  "host_port s =
     (let host = takeWhile (\<lambda>c. c \<noteq> CHR '':'') s; port = drop (Suc (length host)) s
      in if host \<noteq> [] \<and> length host < length s \<and> port \<noteq> [] \<and> list_all (\<lambda>c. c \<in> set ''0123456789'') port
         then Some (host, port) else None)"

definition redis_url :: "string \<Rightarrow> (string \<times> string \<times> string) option" where
  \<comment> \<open>password, host and port of \<open>redis://(?:([^@]*)@)?([^:]+):(\d+)\<close>; the optional group is tried first\<close>
  "redis_url url =
     (let r = drop 8 url; pw = takeWhile (\<lambda>c. c \<noteq> CHR ''@'') r
      in if take 8 url \<noteq> ''redis://'' then None
         else case (if length pw < length r then host_port (drop (Suc (length pw)) r) else None) of
           Some (host, port) \<Rightarrow> Some (pw, host, port)
         | None \<Rightarrow> (case host_port r of Some (host, port) \<Rightarrow> Some ([], host, port) | None \<Rightarrow> None))"

fun digits_value :: "nat \<Rightarrow> string \<Rightarrow> nat" where
  "digits_value n [] = n"
| "digits_value n (c # cs) = digits_value (10 * n + (of_char c - 48)) cs"

section \<open>State\<close>

record redis =
  rs_connected :: bool
  rs_host :: string
  rs_port :: int
  rs_password :: string
  rs_pipeline :: "string list list"
  rs_connects :: nat \<comment> \<open>calls of \<open>redisConnectWithTimeout\<close>\<close>
  rs_auths :: "string list" \<comment> \<open>passwords sent with \<open>AUTH\<close>\<close>

definition redis_connect :: "bool \<Rightarrow> redis \<Rightarrow> redis" where
  "redis_connect up rs =
     (let rs = rs\<lparr>rs_connects := Suc (rs_connects rs), rs_pipeline := []\<rparr>
      in if \<not> up then rs\<lparr>rs_connected := False\<rparr>
         else rs\<lparr>rs_connected := True,
                 rs_auths := rs_auths rs @ (if rs_password rs \<noteq> [] then [rs_password rs] else [])\<rparr>)"

definition redis_new :: "bool \<Rightarrow> string \<Rightarrow> string + redis" where
  \<comment> \<open>\<open>std::stoi\<close> throws when the number does not fit an \<open>int\<close>\<close>
  "redis_new up url =
     (let (pw, host, port) = (case redis_url url of None \<Rightarrow> ([], ''127.0.0.1'', ''6379'') | Some m \<Rightarrow> m)
      in if digits_value 0 port > 2147483647 then Inl ''stoi''
         else Inr (redis_connect up \<lparr>rs_connected = False, rs_host = host, rs_port = int (digits_value 0 port),
                rs_password = pw, rs_pipeline = [], rs_connects = 0, rs_auths = []\<rparr>))"

definition reconnect :: "bool \<Rightarrow> redis \<Rightarrow> bool \<times> redis" where
  "reconnect up rs = (let rs = redis_connect up (rs\<lparr>rs_connected := False\<rparr>) in (rs_connected rs, rs))"

section \<open>Commands\<close>

definition append_command :: "string list \<Rightarrow> redis \<Rightarrow> redis" where
  "append_command args rs = rs\<lparr>rs_pipeline := rs_pipeline rs @ [args]\<rparr>"

definition dec_int :: "int \<Rightarrow> string" where
  \<comment> \<open>\<open>%d\<close>\<close>
  "dec_int x = (if x < 0 then CHR ''-'' # dec (nat (- x)) else dec (nat x))"

definition redis_publish_position :: "(dbl \<Rightarrow> string) \<Rightarrow> string \<Rightarrow> position \<Rightarrow> redis \<Rightarrow> redis" where
  "redis_publish_position fmt sid pos rs =
     (if \<not> rs_connected rs then rs
      else let key = ''positions:'' @ sid; tok = dec (unat (ps_token pos))
        in append_command [''HSET'', key, tok @ '':rpnl'', fmt (ps_realized_pnl pos)]
           (append_command [''HSET'', key, tok @ '':upnl'', fmt (ps_unrealized_pnl pos)]
           (append_command [''HSET'', key, tok @ '':avg_price'', fmt (ps_avg_price pos)]
           (append_command [''HSET'', key, tok @ '':qty'', dec_int (ps_quantity pos)] rs))))"

definition redis_publish_tick :: "(dbl \<Rightarrow> string) \<Rightarrow> tick \<Rightarrow> redis \<Rightarrow> redis" where
  "redis_publish_tick fmt t rs =
     (if \<not> rs_connected rs then rs
      else append_command [''HSET'', ''ticks:'' @ dec (unat (tk_token t)), ''ltp'', fmt (tk_ltp t),
             ''volume'', dec (unat (tk_volume t)), ''bid1_price'', fmt (dl_price (tk_bid t ! 0)),
             ''bid1_qty'', dec (unat (dl_qty (tk_bid t ! 0))), ''ask1_price'', fmt (dl_price (tk_ask t ! 0)),
             ''ask1_qty'', dec (unat (dl_qty (tk_ask t ! 0))), ''ts'', dec (unat (tk_recv_ts_ns t))] rs)"

definition publish_risk_counters :: "(dbl \<Rightarrow> string) \<Rightarrow> string \<Rightarrow> dbl \<Rightarrow> int \<Rightarrow> dbl \<Rightarrow> redis \<Rightarrow> redis" where
  "publish_risk_counters fmt sid daily_pnl order_count exposure rs =
     (if \<not> rs_connected rs then rs
      else append_command [''HSET'', ''risk:'' @ sid, ''daily_pnl'', fmt daily_pnl,
             ''order_count'', dec_int order_count, ''exposure'', fmt exposure] rs)"

definition set_kill_switch :: "bool \<Rightarrow> redis \<Rightarrow> redis" where
  "set_kill_switch engaged rs =
     (if \<not> rs_connected rs then rs
      else append_command [''SET'', ''kill_switch'', if engaged then ''1'' else ''0''] rs)"

section \<open>Flushing\<close>

partial_function (option) drain_replies :: "(nat \<Rightarrow> bool) \<Rightarrow> nat \<Rightarrow> nat option" where
  \<comment> \<open>the loop over \<open>redisGetReply\<close>: the number of the first answer that is not \<open>REDIS_OK\<close>\<close>
  "drain_replies replies n = (if replies n then drain_replies replies (Suc n) else Some n)"

definition redis_flush :: "(nat \<Rightarrow> bool) \<Rightarrow> (nat \<Rightarrow> bool) \<Rightarrow> bool \<Rightarrow> redis \<Rightarrow> redis option" where
  \<comment> \<open>\<open>replies n\<close>: the \<open>n\<close>-th answer is \<open>REDIS_OK\<close>; \<open>err n\<close>: the context's error flag after it;
     \<open>None\<close> when the loop does not end\<close>
  "redis_flush replies err up rs =
     (if \<not> rs_connected rs then Some rs
      else Option.bind (drain_replies replies 0) (\<lambda>n.
        if err n then Some (redis_connect up (rs\<lparr>rs_connected := False\<rparr>))
        else Some (rs\<lparr>rs_pipeline := []\<rparr>)))"

section \<open>Facts\<close>

lemma drain_until:
  "\<forall>i. n \<le> i \<and> i < n + k \<longrightarrow> replies i \<Longrightarrow> \<not> replies (n + k) \<Longrightarrow> drain_replies replies n = Some (n + k)"
proof (induction k arbitrary: n)
  case 0
  then show ?case by (subst drain_replies.simps) simp
next
  case (Suc k)
  have "drain_replies replies (Suc n) = Some (Suc n + k)" using Suc.prems by (intro Suc.IH) auto
  moreover have "replies n" using Suc.prems(1) by simp
  ultimately show ?case by (subst drain_replies.simps) simp
qed

lemma drain_stops:
  assumes "drain_replies replies n = Some m"
  shows "\<not> replies m \<and> n \<le> m"
  using assms
  by (rule drain_replies.raw_induct [rotated]) (fastforce split: if_splits)

lemma drain_some: "drain_replies replies 0 \<noteq> None \<longleftrightarrow> (\<exists>n. \<not> replies n)"
proof
  assume "\<exists>n. \<not> replies n"
  then obtain n where "\<not> replies n" "\<forall>i < n. replies i"
    using exists_least_iff [of "\<lambda>n. \<not> replies n"] by auto
  then show "drain_replies replies 0 \<noteq> None" using drain_until [of 0 n replies] by simp
next
  assume "drain_replies replies 0 \<noteq> None"
  then obtain m where "drain_replies replies 0 = Some m" by auto
  from drain_stops [OF this] show "\<exists>n. \<not> replies n" by blast
qed

text \<open>
  A flush on a live connection returns exactly if \<open>redisGetReply\<close> fails at some point, and since a
  failed reply sets the error flag, every flush that returns has thrown the connection away and opened
  another one.
\<close>

lemma flush_always_reconnects:
  assumes "rs_connected rs" and "\<forall>n. \<not> replies n \<longrightarrow> err n"
  shows "(redis_flush replies err up rs \<noteq> None \<longleftrightarrow> (\<exists>n. \<not> replies n))
     \<and> (\<forall>rs'. redis_flush replies err up rs = Some rs' \<longrightarrow>
          rs_connects rs' = Suc (rs_connects rs) \<and> rs_connected rs' = up \<and> rs_pipeline rs' = [])"
proof -
  have "redis_flush replies err up rs = (case drain_replies replies 0 of None \<Rightarrow> None
      | Some n \<Rightarrow> Some (redis_connect up (rs\<lparr>rs_connected := False\<rparr>)))"
    using assms drain_stops [of replies 0] by (auto simp: redis_flush_def split: option.split)
  moreover note drain_some [of replies]
  ultimately show ?thesis by (auto simp: redis_connect_def Let_def split: option.splits)
qed

definition a_redis :: redis where
  "a_redis = \<lparr>rs_connected = True, rs_host = ''h'', rs_port = 6379, rs_password = [],
     rs_pipeline = [[''SET'', ''kill_switch'', ''1'']], rs_connects = 1, rs_auths = []\<rparr>"

lemma flush_always_reconnects_witness:
  "map_option rs_connects (redis_flush (\<lambda>n. n < 1) (\<lambda>n. n \<ge> 1) True a_redis) = Some 2"
proof -
  have c: "rs_connected a_redis" "rs_connects a_redis = 1" by (simp_all add: a_redis_def)
  have "\<forall>n::nat. \<not> n < 1 \<longrightarrow> 1 \<le> n" by auto
  from flush_always_reconnects [OF c(1) this, of True]
  have "redis_flush (\<lambda>n. n < 1) (\<lambda>n. n \<ge> 1) True a_redis \<noteq> None"
    "redis_flush (\<lambda>n. n < 1) (\<lambda>n. n \<ge> 1) True a_redis = Some rs' \<Longrightarrow> rs_connects rs' = 2" for rs'
    using c(2) by (auto intro: exI [of _ 1])
  then show ?thesis by auto
qed

text \<open>
  In a URL of the documented form \<open>redis://:password@host:port\<close> the colon is taken as part of the
  password, and it is what \<open>AUTH\<close> sends.
\<close>

lemma url_password_keeps_colon:
  assumes "CHR ''@'' \<notin> set pw" and "host \<noteq> []" and "CHR '':'' \<notin> set host" and "CHR ''@'' \<notin> set host"
    and "port \<noteq> []" and "list_all (\<lambda>c. c \<in> set ''0123456789'') port" and "digits_value 0 port \<le> 2147483647"
    and "redis_new True (''redis://:'' @ pw @ ''@'' @ host @ '':'' @ port) = Inr rs"
  shows "rs_auths rs = [CHR '':'' # pw] \<and> rs_host rs = host \<and> rs_port rs = int (digits_value 0 port)"
proof -
  let ?r = "(CHR '':'' # pw) @ CHR ''@'' # host @ CHR '':'' # port"
  have t: "takeWhile (\<lambda>c. c \<noteq> CHR ''@'') ?r = CHR '':'' # pw"
    using assms(1) by (subst takeWhile_append2) auto
  have h: "takeWhile (\<lambda>c. c \<noteq> CHR '':'') (host @ CHR '':'' # port) = host"
    using assms(3) by (subst takeWhile_append2) auto
  then have "host_port (host @ CHR '':'' # port) = Some (host, port)"
    using assms(2,5,6) by (simp add: host_port_def Let_def)
  then have "redis_url (''redis://:'' @ pw @ ''@'' @ host @ '':'' @ port) = Some (CHR '':'' # pw, host, port)"
    using t by (simp add: redis_url_def Let_def)
  then show ?thesis
    using assms(7,8) by (auto simp: redis_new_def redis_connect_def Let_def)
qed

lemma url_password_keeps_colon_witness:
  "\<exists>rs. redis_new True (''redis://:'' @ ''pw'' @ ''@'' @ ''h'' @ '':'' @ ''1'') = Inr rs \<and> rs_auths rs = ['':pw'']"
proof -
  obtain rs where r: "redis_new True (''redis://:'' @ ''pw'' @ ''@'' @ ''h'' @ '':'' @ ''1'') = Inr rs"
    by (simp add: redis_new_def redis_url_def host_port_def Let_def)
  have d: "digits_value 0 ''1'' \<le> 2147483647" by simp
  have "rs_auths rs = ['':pw'']"
    using url_password_keeps_colon [OF _ _ _ _ _ _ d r] by simp
  with r show ?thesis by blast
qed

end
