(* ===== verification/QF_Publish.thy ===== *)
theory QF_Publish
  imports QF_System QF_Kafka QF_Redis
begin

text \<open>
  The last part of \<open>cpp/main/main.cpp\<close>: the callbacks that copy fills, ticks and portfolio updates to
  Kafka and Redis, around the system of \<open>QF_System\<close>, and the heartbeat. \<open>deployed_step\<close> is a step of the
  system followed by the calls its callbacks make; one step never produces two kinds of output in an
  order other than fills, ticks, updates. A flush that does not return makes the step \<open>None\<close>.
\<close>

section \<open>State\<close>

record outside =
  \<comment> \<open>what the client libraries answer, by the number of the call, and how doubles are represented\<close>
  os_bits :: "dbl \<Rightarrow> u64"
  os_text :: "dbl \<Rightarrow> string" \<comment> \<open>\<open>operator<<\<close>\<close>
  os_fixed :: "dbl \<Rightarrow> string" \<comment> \<open>\<open>%.4f\<close>\<close>
  os_kafka :: bool \<comment> \<open>whether the producer could be created\<close>
  os_topics :: "topic set"
  os_accept :: "nat \<Rightarrow> bool"
  os_redis :: bool \<comment> \<open>whether the first connection could be made\<close>
  os_replies :: "nat \<Rightarrow> nat \<Rightarrow> bool"
  os_err :: "nat \<Rightarrow> nat \<Rightarrow> bool"
  os_up :: "nat \<Rightarrow> bool"

record outlet =
  ot_kafka :: kafka
  ot_redis :: redis
  ot_produced :: nat \<comment> \<open>calls to publish\<close>
  ot_flushes :: nat \<comment> \<open>calls of \<open>redis.flush\<close>\<close>

record deployed =
  dp_system :: system
  dp_outlet :: outlet

section \<open>The callbacks of main\<close>

definition on_fill_callback :: "outside \<Rightarrow> fill \<Rightarrow> outlet \<Rightarrow> outlet" where
  "on_fill_callback out f ot =
     ot\<lparr>ot_kafka := publish_fill (os_bits out) (os_accept out (ot_produced ot)) f (ot_kafka ot),
        ot_produced := Suc (ot_produced ot)\<rparr>"

definition on_tick_callback :: "outside \<Rightarrow> tick \<Rightarrow> outlet \<Rightarrow> outlet" where
  "on_tick_callback out t ot =
     ot\<lparr>ot_kafka := publish_tick (os_bits out) (os_accept out (ot_produced ot)) t (ot_kafka ot),
        ot_produced := Suc (ot_produced ot),
        ot_redis := redis_publish_tick (os_fixed out) t (ot_redis ot)\<rparr>"

fun publish_positions :: "(dbl \<Rightarrow> string) \<Rightarrow> (u64 \<times> position) list \<Rightarrow> redis \<Rightarrow> redis" where
  "publish_positions fmt [] rs = rs"
| "publish_positions fmt ((_, pos) # ps) rs =
     publish_positions fmt ps (redis_publish_position fmt (c_str (ps_strategy_id pos)) pos rs)"

definition flush_outlet :: "outside \<Rightarrow> outlet \<Rightarrow> outlet option" where
  "flush_outlet out ot = map_option (\<lambda>rs. ot\<lparr>ot_redis := rs, ot_flushes := Suc (ot_flushes ot)\<rparr>)
     (redis_flush (os_replies out (ot_flushes ot)) (os_err out (ot_flushes ot)) (os_up out (ot_flushes ot))
        (ot_redis ot))"

definition on_update_callback :: "outside \<Rightarrow> snapshot \<Rightarrow> outlet \<Rightarrow> outlet option" where
  "on_update_callback out snap ot =
     flush_outlet out (ot\<lparr>ot_kafka := publish_portfolio (os_text out) (os_accept out (ot_produced ot)) snap (ot_kafka ot),
        ot_produced := Suc (ot_produced ot),
        ot_redis := publish_positions (os_fixed out) (sn_positions snap) (ot_redis ot)\<rparr>)"

fun publish_fills :: "outside \<Rightarrow> fill list \<Rightarrow> outlet \<Rightarrow> outlet" where
  "publish_fills out [] ot = ot"
| "publish_fills out (f # fs) ot = publish_fills out fs (on_fill_callback out f ot)"

fun publish_ticks :: "outside \<Rightarrow> tick list \<Rightarrow> outlet \<Rightarrow> outlet" where
  "publish_ticks out [] ot = ot"
| "publish_ticks out (t # ts) ot = publish_ticks out ts (on_tick_callback out t ot)"

fun publish_updates :: "outside \<Rightarrow> snapshot list \<Rightarrow> outlet \<Rightarrow> outlet option" where
  "publish_updates out [] ot = Some ot"
| "publish_updates out (s # ss) ot = Option.bind (on_update_callback out s ot) (publish_updates out ss)"

section \<open>The running program\<close>

definition published_fills :: "world \<Rightarrow> fill list" where
  "published_fills w = eg_published_fills (wd_engine w)"

definition published_ticks :: "world \<Rightarrow> tick list" where
  "published_ticks w = nm_kafka_out (eg_normalizer (wd_engine w))"

definition published_updates :: "world \<Rightarrow> snapshot list" where
  "published_updates w = pf_updates (eg_portfolio (wd_engine w))"

definition fresh :: "('w \<Rightarrow> 'a list) \<Rightarrow> 'w \<Rightarrow> 'w \<Rightarrow> 'a list" where
  \<comment> \<open>what a step has added to an output\<close>
  "fresh outputs w w' = drop (length (outputs w)) (outputs w')"

definition deployed_step :: "outside \<Rightarrow> (ctx_view \<Rightarrow> candle \<Rightarrow> momentum \<Rightarrow> momentum) \<Rightarrow> (string \<Rightarrow> momentum created)
    \<Rightarrow> system_event \<Rightarrow> deployed \<Rightarrow> deployed option" where
  "deployed_step out on_candle lib e d =
     (let mw = dp_system d; mw' = system_step on_candle lib e mw; w = snd mw; w' = snd mw';
          ot = publish_ticks out (fresh published_ticks w w')
                 (publish_fills out (fresh published_fills w w') (dp_outlet d))
      in map_option (\<lambda>ot. \<lparr>dp_system = mw', dp_outlet = ot\<rparr>)
           (publish_updates out (fresh published_updates w w') ot))"

fun deployed_run :: "outside \<Rightarrow> (ctx_view \<Rightarrow> candle \<Rightarrow> momentum \<Rightarrow> momentum) \<Rightarrow> (string \<Rightarrow> momentum created)
    \<Rightarrow> system_event list \<Rightarrow> deployed \<Rightarrow> deployed option" where
  "deployed_run out on_candle lib [] d = Some d"
| "deployed_run out on_candle lib (e # es) d =
     Option.bind (deployed_step out on_candle lib e d) (deployed_run out on_candle lib es)"

definition deployed_start :: "outside \<Rightarrow> string option \<Rightarrow> string option \<Rightarrow> string option
    \<Rightarrow> (string \<Rightarrow> momentum created) \<Rightarrow> u64 \<Rightarrow> (nat \<Rightarrow> reading)
    \<Rightarrow> (ctx_view \<Rightarrow> candle \<Rightarrow> momentum \<Rightarrow> momentum) \<Rightarrow> string + deployed" where
  \<comment> \<open>the publisher and the Redis client are built first; a port that is no \<open>int\<close> ends the program\<close>
  "deployed_start out file tok tok2 lib now readings on_candle =
     (case engine_startup_config file tok tok2 of
        Inl e \<Rightarrow> Inl e
      | Inr cfg \<Rightarrow> (case redis_new (os_redis out) (ec_redis_url cfg) of
          Inl e \<Rightarrow> Inl e
        | Inr rs \<Rightarrow> (case system_start file tok tok2 lib now readings on_candle of
            Inl e \<Rightarrow> Inl e
          | Inr mw \<Rightarrow> Inr \<lparr>dp_system = mw, dp_outlet = \<lparr>ot_kafka = kafka_new (os_kafka out) (os_topics out),
              ot_redis = rs, ot_produced = 0, ot_flushes = 0\<rparr>\<rparr>)))"

definition deployed_shutdown :: "outside \<Rightarrow> (ctx_view \<Rightarrow> candle \<Rightarrow> momentum \<Rightarrow> momentum)
    \<Rightarrow> (string \<Rightarrow> momentum created) \<Rightarrow> u64 \<Rightarrow> deployed \<Rightarrow> deployed option" where
  \<comment> \<open>the calls after the loop; \<open>kafka.flush\<close> only waits for the client library\<close>
  "deployed_shutdown out on_candle lib sys_ns d =
     Option.bind (deployed_run out on_candle lib (system_shutdown sys_ns) d)
       (\<lambda>d. map_option (\<lambda>ot. d\<lparr>dp_outlet := ot\<rparr>) (flush_outlet out (dp_outlet d)))"

record heartbeat =
  hb_beat :: u64
  hb_ticks :: u64
  hb_open_orders :: nat
  hb_capital :: dbl
  hb_realized :: dbl
  hb_unrealized :: dbl

definition heartbeat_of :: "u64 \<Rightarrow> engine \<Rightarrow> u64 \<times> heartbeat" where
  \<comment> \<open>a turn of the loop of \<open>main\<close>: the next beat, and the numbers it logs\<close>
  "heartbeat_of beat eg =
     (let beat = beat + 1; snap = get_snapshot (eg_portfolio eg)
      in (beat, \<lparr>hb_beat = beat, hb_ticks = nm_ticks_processed (eg_normalizer eg),
           hb_open_orders = open_order_count (eg_oms eg), hb_capital = sn_available_capital snap,
           hb_realized = sn_total_realized_pnl snap, hb_unrealized = sn_total_unrealized_pnl snap\<rparr>))"

section \<open>Outputs only grow\<close>

definition grown :: "fill list \<Rightarrow> tick list \<Rightarrow> snapshot list \<Rightarrow> engine \<Rightarrow> bool" where
  "grown fs ts ss eg \<longleftrightarrow> prefix fs (eg_published_fills eg) \<and> prefix ts (nm_kafka_out (eg_normalizer eg))
     \<and> prefix ss (pf_updates (eg_portfolio eg))"

lemma run_callbacks_grow: "prefix (eg_published_fills eg) (eg_published_fills (run_callbacks outs eg))"
  by (induction outs eg rule: run_callbacks.induct) (auto simp: fill_callback_def intro: prefix_order.trans append_prefixD)

lemma with_oms_grow: "prefix (eg_published_fills eg) (eg_published_fills (with_oms m eg))"
  using run_callbacks_grow [of "eg\<lparr>eg_oms := m\<rparr>"] by (simp add: with_oms_def)

lemma fill_loop_grow: "prefix (pf_updates pf) (pf_updates (snd (fill_loop_iter (q, pf))))"
  by (simp add: fill_loop_iter_def process_fill_def emit_update_def Let_def split_beta split: prod.split option.split)

lemma engine_step_grow:
  "prefix (eg_published_fills eg) (eg_published_fills (engine_step e eg))
   \<and> prefix (nm_kafka_out (eg_normalizer eg)) (nm_kafka_out (eg_normalizer (engine_step e eg)))
   \<and> prefix (pf_updates (eg_portfolio eg)) (pf_updates (eg_portfolio (engine_step e eg)))"
proof -
  have w: "eg_published_fills eg' = eg_published_fills eg \<Longrightarrow> prefix (eg_published_fills eg) (eg_published_fills (with_oms m eg'))"
    for eg' m using with_oms_grow [of eg' m] by simp
  show ?thesis
    using normalizer_iter_grow [of "eg_normalizer eg"] fill_loop_grow [of "eg_portfolio eg" "om_fill_queue (eg_oms eg)"]
    by (cases e) (simp_all add: ctx_submit_order_eq Let_def ctx_cancel_order_def split_beta
        portfolio_turn_def normalizer_turn_def raw_tick_def w)
qed

interpretation mg: engine_property "grown fs ts ss" "\<lambda>e. True" for fs ts ss
proof
  show "grown fs ts ss eg \<Longrightarrow> True \<Longrightarrow> grown fs ts ss (engine_step e eg)" for eg e
    using engine_step_grow [of eg e] prefix_order.trans unfolding grown_def by metis
  show "grown fs ts ss eg \<Longrightarrow> prefix (nm_kafka_out (eg_normalizer eg)) (nm_kafka_out nm) \<Longrightarrow>
      re_global_kill_switch re = re_global_kill_switch (eg_risk eg) \<Longrightarrow>
      grown fs ts ss (eg\<lparr>eg_normalizer := nm, eg_risk := re\<rparr>)" for eg nm re
    using prefix_order.trans by (fastforce simp: grown_def)
qed simp

lemma fresh_append: "prefix (outputs w) (outputs w') \<Longrightarrow> outputs w @ fresh outputs w w' = outputs w'"
  by (auto simp: fresh_def prefix_def)

lemmas output_defs = published_fills_def published_ticks_def published_updates_def

lemma fresh_outputs:
  assumes "w = snd mw" and "w' = snd (system_step on_candle lib e mw)"
  shows "published_fills w' = published_fills w @ fresh published_fills w w'"
    and "published_ticks w' = published_ticks w @ fresh published_ticks w w'"
    and "published_updates w' = published_updates w @ fresh published_updates w w'"
proof -
  have "prefix (published_fills w) (published_fills w') \<and> prefix (published_ticks w) (published_ticks w')
      \<and> prefix (published_updates w) (published_updates w')"
    using mg.system_step_keeps [of "published_fills w" "published_ticks w" "published_updates w" mw e on_candle lib] assms
    by (simp add: grown_def output_defs)
  then show "published_fills w' = published_fills w @ fresh published_fills w w'"
    and "published_ticks w' = published_ticks w @ fresh published_ticks w w'"
    and "published_updates w' = published_updates w @ fresh published_updates w w'"
    by (simp_all add: fresh_append)
qed

section \<open>What the topics carry\<close>

definition payloads :: "topic \<Rightarrow> kafka \<Rightarrow> byte list list" where
  "payloads tp kf = map km_payload (filter (\<lambda>m. km_topic m = tp) (kf_queued kf))"

definition gained :: "bool \<Rightarrow> topic \<Rightarrow> byte list list \<Rightarrow> outlet \<Rightarrow> outlet \<Rightarrow> bool" where
  \<comment> \<open>the topic has been given these messages, less those that the client library refused\<close>
  "gained all tp xs ot ot' \<longleftrightarrow> kf_healthy (ot_kafka ot') = kf_healthy (ot_kafka ot)
     \<and> kf_topics (ot_kafka ot') = kf_topics (ot_kafka ot)
     \<and> (\<exists>ys. payloads tp (ot_kafka ot') = payloads tp (ot_kafka ot) @ ys \<and> subseq ys xs \<and> (all \<longrightarrow> ys = xs))"

fun stream :: "outside \<Rightarrow> topic \<Rightarrow> fill list \<Rightarrow> tick list \<Rightarrow> snapshot list \<Rightarrow> byte list list" where
  "stream out Fills fs ts ss = map (serialize_fill (os_bits out)) fs"
| "stream out Ticks fs ts ss = map (serialize_tick (os_bits out)) ts"
| "stream out Portfolio fs ts ss = map (serialize_portfolio (os_text out)) ss"
| "stream out Alerts fs ts ss = []"

definition world_stream :: "outside \<Rightarrow> topic \<Rightarrow> world \<Rightarrow> byte list list" where
  "world_stream out tp w = stream out tp (published_fills w) (published_ticks w) (published_updates w)"

abbreviation all_topics :: "outlet \<Rightarrow> bool" where
  "all_topics ot \<equiv> kf_healthy (ot_kafka ot) \<and> {Ticks, Fills, Portfolio} \<subseteq> kf_topics (ot_kafka ot)"

lemma stream_append: "stream out tp (fs @ fs') (ts @ ts') (ss @ ss') = stream out tp fs ts ss @ stream out tp fs' ts' ss'"
  by (cases tp) simp_all

lemma gained_refl: "gained all tp [] ot ot"
  by (simp add: gained_def)

lemma gained_trans:
  assumes "gained all tp xs ot ot1" and "gained all tp ys ot1 ot2"
  shows "gained all tp (xs @ ys) ot ot2"
  using assms unfolding gained_def by (auto intro: list_emb_append_mono)

lemma gained_topics: "gained all tp xs ot ot' \<Longrightarrow> all_topics ot \<Longrightarrow> all_topics ot'"
  by (simp add: gained_def)

lemma produce_frame [simp]:
  "kf_healthy (produce accepted msg kf) = kf_healthy kf"
  "kf_topics (produce accepted msg kf) = kf_topics kf"
  "kf_queued (produce accepted msg kf) = kf_queued kf @ (if accepted then [msg] else [])"
  by (simp_all add: produce_def)

lemma fill_gained:
  "all_topics ot \<Longrightarrow> gained (\<forall>n. os_accept out n) tp (stream out tp [f] [] []) ot (on_fill_callback out f ot)"
  by (cases tp) (auto simp: gained_def on_fill_callback_def publish_fill_def payloads_def Let_def)

lemma tick_gained:
  "all_topics ot \<Longrightarrow> gained (\<forall>n. os_accept out n) tp (stream out tp [] [t] []) ot (on_tick_callback out t ot)"
  by (cases tp) (auto simp: gained_def on_tick_callback_def publish_tick_def payloads_def Let_def)

lemma update_gained:
  "all_topics ot \<Longrightarrow> on_update_callback out s ot = Some ot' \<Longrightarrow>
   gained (\<forall>n. os_accept out n) tp (stream out tp [] [] [s]) ot ot'"
  by (cases tp) (auto simp: gained_def on_update_callback_def flush_outlet_def publish_portfolio_def
      payloads_def Let_def)

lemma fills_gained:
  "all_topics ot \<Longrightarrow> gained (\<forall>n. os_accept out n) tp (stream out tp fs [] []) ot (publish_fills out fs ot)"
proof (induction fs arbitrary: ot)
  case Nil
  then show ?case by (cases tp) (simp_all add: gained_refl)
next
  case (Cons f fs)
  note g = fill_gained [OF Cons.prems, of out tp f]
  from gained_trans [OF g Cons.IH [OF gained_topics [OF g Cons.prems]]] show ?case
    by (cases tp) simp_all
qed

lemma ticks_gained:
  "all_topics ot \<Longrightarrow> gained (\<forall>n. os_accept out n) tp (stream out tp [] ts []) ot (publish_ticks out ts ot)"
proof (induction ts arbitrary: ot)
  case Nil
  then show ?case by (cases tp) (simp_all add: gained_refl)
next
  case (Cons t ts)
  note g = tick_gained [OF Cons.prems, of out tp t]
  from gained_trans [OF g Cons.IH [OF gained_topics [OF g Cons.prems]]] show ?case
    by (cases tp) simp_all
qed

lemma updates_gained:
  "all_topics ot \<Longrightarrow> publish_updates out ss ot = Some ot' \<Longrightarrow>
   gained (\<forall>n. os_accept out n) tp (stream out tp [] [] ss) ot ot'"
proof (induction ss arbitrary: ot)
  case Nil
  then show ?case by (cases tp) (simp_all add: gained_refl)
next
  case (Cons s ss)
  then obtain ot1 where o: "on_update_callback out s ot = Some ot1" "publish_updates out ss ot1 = Some ot'"
    by (auto simp: bind_eq_Some_conv)
  note g = update_gained [OF Cons.prems(1) o(1), of tp]
  from gained_trans [OF g Cons.IH [OF gained_topics [OF g Cons.prems(1)] o(2)]] show ?case
    by (cases tp) simp_all
qed

definition follows :: "outside \<Rightarrow> topic \<Rightarrow> deployed \<Rightarrow> bool" where
  "follows out tp d \<longleftrightarrow> all_topics (dp_outlet d)
     \<and> subseq (payloads tp (ot_kafka (dp_outlet d))) (world_stream out tp (snd (dp_system d)))
     \<and> ((\<forall>n. os_accept out n) \<longrightarrow>
          payloads tp (ot_kafka (dp_outlet d)) = world_stream out tp (snd (dp_system d)))"

lemma follows_gained:
  assumes "follows out tp d" and "gained (\<forall>n. os_accept out n) tp xs (dp_outlet d) (dp_outlet d')"
    and "world_stream out tp (snd (dp_system d')) = world_stream out tp (snd (dp_system d)) @ xs"
  shows "follows out tp d'"
  using assms unfolding follows_def gained_def by (auto intro: list_emb_append_mono)

lemma follows_step:
  assumes "follows out tp d" and "deployed_step out on_candle lib e d = Some d'"
  shows "follows out tp d'"
proof -
  define w w' where "w = snd (dp_system d)" and "w' = snd (system_step on_candle lib e (dp_system d))"
  let ?fs = "fresh published_fills w w'" and ?ts = "fresh published_ticks w w'"
  let ?ss = "fresh published_updates w w'"
  have top: "all_topics (dp_outlet d)" using assms(1) by (simp add: follows_def)
  obtain ot where u: "publish_updates out ?ss (publish_ticks out ?ts (publish_fills out ?fs (dp_outlet d))) = Some ot"
    and d': "d' = \<lparr>dp_system = system_step on_candle lib e (dp_system d), dp_outlet = ot\<rparr>"
    using assms(2) by (auto simp: deployed_step_def Let_def w_def w'_def)
  note f = fills_gained [OF top, of out tp ?fs]
  note t = ticks_gained [OF gained_topics [OF f top], of out tp ?ts]
  note s = updates_gained [OF gained_topics [OF t gained_topics [OF f top]] u, of tp]
  have "gained (\<forall>n. os_accept out n) tp (stream out tp ?fs ?ts ?ss) (dp_outlet d) ot"
    using gained_trans [OF gained_trans [OF f t] s] by (cases tp) simp_all
  moreover have "world_stream out tp w' = world_stream out tp w @ stream out tp ?fs ?ts ?ss"
    unfolding world_stream_def using fresh_outputs [OF w_def w'_def] by (metis stream_append)
  ultimately show ?thesis
    using follows_gained [OF assms(1), of "stream out tp ?fs ?ts ?ss" d'] by (simp add: d' w_def w'_def)
qed

lemma deployed_run_induct:
  assumes "deployed_run out on_candle lib es d = Some d'" and "P d"
    and "\<And>e d d'. P d \<Longrightarrow> deployed_step out on_candle lib e d = Some d' \<Longrightarrow> P d'"
  shows "P d'"
  using assms(1,2) by (induction es arbitrary: d) (auto simp: bind_eq_Some_conv intro: assms(3))

lemma engine_new_silent:
  "published_fills \<lparr>wd_engine = engine_new cfg now, wd_readings = rd, wd_next = n\<rparr> = []"
  "published_ticks \<lparr>wd_engine = engine_new cfg now, wd_readings = rd, wd_next = n\<rparr> = []"
  "published_updates \<lparr>wd_engine = engine_new cfg now, wd_readings = rd, wd_next = n\<rparr> = []"
  by (simp_all add: output_defs engine_new_def set_kafka_fn_def
      set_update_callback_def portfolio_new_def)

lemma deployed_start_cases:
  assumes "deployed_start out file tok tok2 lib now readings on_candle = Inr d"
  obtains cfg rs where "snd (dp_system d) = \<lparr>wd_engine = engine_new cfg now, wd_readings = readings, wd_next = 0\<rparr>"
    and "redis_new (os_redis out) (ec_redis_url cfg) = Inr rs"
    and "dp_outlet d = \<lparr>ot_kafka = kafka_new (os_kafka out) (os_topics out), ot_redis = rs, ot_produced = 0, ot_flushes = 0\<rparr>"
  using assms by (auto simp: deployed_start_def system_start_def split: sum.splits)

lemma run_follows:
  assumes "deployed_start out file tok tok2 lib now readings on_candle = Inr d"
    and "os_kafka out" and "{Ticks, Fills, Portfolio} \<subseteq> os_topics out"
    and "deployed_run out on_candle lib es d = Some d'"
  shows "follows out tp d'"
proof -
  obtain cfg rs where d: "snd (dp_system d) = \<lparr>wd_engine = engine_new cfg now, wd_readings = readings, wd_next = 0\<rparr>"
    "dp_outlet d = \<lparr>ot_kafka = kafka_new (os_kafka out) (os_topics out), ot_redis = rs, ot_produced = 0, ot_flushes = 0\<rparr>"
    using assms(1) by (rule deployed_start_cases)
  have "follows out tp d"
    using assms(2,3) by (cases tp) (simp_all add: follows_def d payloads_def kafka_new_def world_stream_def engine_new_silent)
  with assms(4) show ?thesis by (rule deployed_run_induct) (rule follows_step)
qed

section \<open>The Redis connection\<close>

lemma redis_writes_frame [simp]:
  "rs_connected (redis_publish_tick fmt t rs) = rs_connected rs"
  "rs_connects (redis_publish_tick fmt t rs) = rs_connects rs"
  "rs_connected (redis_publish_position fmt sid pos rs) = rs_connected rs"
  "rs_connects (redis_publish_position fmt sid pos rs) = rs_connects rs"
  by (simp_all add: redis_publish_tick_def redis_publish_position_def append_command_def Let_def)

lemma publish_positions_frame [simp]:
  "rs_connected (publish_positions fmt ps rs) = rs_connected rs"
  "rs_connects (publish_positions fmt ps rs) = rs_connects rs"
  by (induction fmt ps rs rule: publish_positions.induct) simp_all

lemma publish_fills_redis [simp]:
  "ot_redis (publish_fills out fs ot) = ot_redis ot"
  "ot_flushes (publish_fills out fs ot) = ot_flushes ot"
  by (induction out fs ot rule: publish_fills.induct) (simp_all add: on_fill_callback_def)

lemma publish_ticks_frame [simp]:
  "rs_connected (ot_redis (publish_ticks out ts ot)) = rs_connected (ot_redis ot)"
  "rs_connects (ot_redis (publish_ticks out ts ot)) = rs_connects (ot_redis ot)"
  "ot_flushes (publish_ticks out ts ot) = ot_flushes ot"
  by (induction out ts ot rule: publish_ticks.induct) (simp_all add: on_tick_callback_def)

definition reads_time_out :: "outside \<Rightarrow> bool" where
  \<comment> \<open>in every flush some read fails, after the timeout of a second at the latest, and a failed read
     marks the connection\<close>
  "reads_time_out out \<longleftrightarrow> (\<forall>n. (\<exists>k. \<not> os_replies out n k) \<and> (\<forall>k. \<not> os_replies out n k \<longrightarrow> os_err out n k))"

definition link :: "bool \<Rightarrow> nat \<Rightarrow> outside \<Rightarrow> outlet \<Rightarrow> bool" where
  \<comment> \<open>the connection, as the flushes since a connection that was made (or not) leave it\<close>
  "link c k out ot \<longleftrightarrow> rs_connected (ot_redis ot) = (c \<and> (\<forall>i < ot_flushes ot. os_up out i))
     \<and> (rs_connected (ot_redis ot) \<longrightarrow> rs_connects (ot_redis ot) = k + ot_flushes ot)"

lemma update_link:
  assumes "reads_time_out out" and "link c k out ot"
  shows "\<exists>ot'. on_update_callback out s ot = Some ot' \<and> link c k out ot' \<and> ot_flushes ot' = Suc (ot_flushes ot)"
proof -
  let ?n = "ot_flushes ot"
  let ?rs = "publish_positions (os_fixed out) (sn_positions s) (ot_redis ot)"
  have t: "\<exists>k. \<not> os_replies out ?n k" "\<forall>k. \<not> os_replies out ?n k \<longrightarrow> os_err out ?n k"
    using assms(1) by (auto simp: reads_time_out_def)
  obtain rs where rs: "redis_flush (os_replies out ?n) (os_err out ?n) (os_up out ?n) ?rs = Some rs"
    "rs_connected rs = (rs_connected (ot_redis ot) \<and> os_up out ?n)"
    "rs_connected (ot_redis ot) \<Longrightarrow> rs_connects rs = Suc (rs_connects (ot_redis ot))"
  proof (cases "rs_connected ?rs")
    case True
    from flush_always_reconnects [OF True t(2), of "os_up out ?n"] t(1) True that show thesis by auto
  next
    case False
    then show thesis using that by (simp add: redis_flush_def)
  qed
  have "(\<forall>i < Suc ?n. os_up out i) \<longleftrightarrow> (\<forall>i < ?n. os_up out i) \<and> os_up out ?n"
    by (auto simp: less_Suc_eq)
  then show ?thesis
    using rs assms(2) by (auto simp: on_update_callback_def flush_outlet_def link_def)
qed

lemma updates_link:
  assumes "reads_time_out out"
  shows "link c k out ot \<Longrightarrow> \<exists>ot'. publish_updates out ss ot = Some ot' \<and> link c k out ot'
     \<and> ot_flushes ot' = ot_flushes ot + length ss"
proof (induction ss arbitrary: ot)
  case (Cons s ss)
  obtain ot1 where o: "on_update_callback out s ot = Some ot1" "link c k out ot1" "ot_flushes ot1 = Suc (ot_flushes ot)"
    using update_link [OF assms Cons.prems] by blast
  from Cons.IH [OF o(2)] o(1,3) show ?case by auto
qed simp

definition linked :: "bool \<Rightarrow> nat \<Rightarrow> outside \<Rightarrow> deployed \<Rightarrow> bool" where
  "linked c k out d \<longleftrightarrow> link c k out (dp_outlet d)
     \<and> ot_flushes (dp_outlet d) = length (published_updates (snd (dp_system d)))"

lemma linked_step:
  assumes "reads_time_out out" and "linked c k out d"
  shows "\<exists>d'. deployed_step out on_candle lib e d = Some d' \<and> linked c k out d'"
proof -
  define w w' where "w = snd (dp_system d)" and "w' = snd (system_step on_candle lib e (dp_system d))"
  let ?ot = "publish_ticks out (fresh published_ticks w w') (publish_fills out (fresh published_fills w w') (dp_outlet d))"
  have l: "link c k out ?ot" "ot_flushes ?ot = length (published_updates w)"
    using assms(2) by (simp_all add: linked_def link_def w_def)
  obtain ot' where u: "publish_updates out (fresh published_updates w w') ?ot = Some ot'" "link c k out ot'"
    "ot_flushes ot' = ot_flushes ?ot + length (fresh published_updates w w')"
    using updates_link [OF assms(1) l(1)] by blast
  have "length (published_updates w') = length (published_updates w) + length (fresh published_updates w w')"
    using arg_cong [OF fresh_outputs(3) [OF w_def w'_def], of length] by simp
  with u l show ?thesis
    by (auto simp: deployed_step_def Let_def w_def [symmetric] w'_def [symmetric] linked_def)
qed

lemma linked_run:
  assumes "reads_time_out out"
  shows "linked c k out d \<Longrightarrow> \<exists>d'. deployed_run out on_candle lib es d = Some d' \<and> linked c k out d'"
proof (induction es arbitrary: d)
  case (Cons e es)
  obtain d1 where d1: "deployed_step out on_candle lib e d = Some d1" "linked c k out d1"
    using linked_step [OF assms Cons.prems] by blast
  from Cons.IH [OF d1(2)] d1(1) show ?case by auto
qed simp

lemma redis_new_connects: "redis_new up url = Inr rs \<Longrightarrow> rs_connected rs = up \<and> rs_connects rs = 1 \<and> rs_pipeline rs = []"
  by (auto simp: redis_new_def redis_connect_def Let_def split_beta split: if_splits)

lemma deployed_start_linked:
  assumes "deployed_start out file tok tok2 lib now readings on_candle = Inr d"
  shows "linked (os_redis out) 1 out d"
proof -
  obtain cfg rs where d: "snd (dp_system d) = \<lparr>wd_engine = engine_new cfg now, wd_readings = readings, wd_next = 0\<rparr>"
    "redis_new (os_redis out) (ec_redis_url cfg) = Inr rs"
    "dp_outlet d = \<lparr>ot_kafka = kafka_new (os_kafka out) (os_topics out), ot_redis = rs, ot_produced = 0, ot_flushes = 0\<rparr>"
    using assms by (rule deployed_start_cases)
  from redis_new_connects [OF d(2)] show ?thesis
    by (simp add: linked_def link_def d(1,3) engine_new_silent)
qed

section \<open>Ticks on their way to Redis\<close>

definition tick_command :: "(dbl \<Rightarrow> string) \<Rightarrow> tick \<Rightarrow> string list" where
  "tick_command fmt t = [''HSET'', ''ticks:'' @ dec (unat (tk_token t)), ''ltp'', fmt (tk_ltp t),
     ''volume'', dec (unat (tk_volume t)), ''bid1_price'', fmt (dl_price (tk_bid t ! 0)),
     ''bid1_qty'', dec (unat (dl_qty (tk_bid t ! 0))), ''ask1_price'', fmt (dl_price (tk_ask t ! 0)),
     ''ask1_qty'', dec (unat (dl_qty (tk_ask t ! 0))), ''ts'', dec (unat (tk_recv_ts_ns t))]"

lemma publish_ticks_pipeline:
  "rs_connected (ot_redis ot) \<Longrightarrow>
   rs_pipeline (ot_redis (publish_ticks out ts ot)) = rs_pipeline (ot_redis ot) @ map (tick_command (os_fixed out)) ts"
  by (induction out ts ot rule: publish_ticks.induct)
    (simp_all add: on_tick_callback_def redis_publish_tick_def append_command_def tick_command_def)

definition waiting :: "outside \<Rightarrow> deployed \<Rightarrow> deployed \<Rightarrow> bool" where
  "waiting out d0 d \<longleftrightarrow> rs_connected (ot_redis (dp_outlet d))
     \<and> ot_flushes (dp_outlet d) = ot_flushes (dp_outlet d0)
     \<and> (\<exists>ts. published_ticks (snd (dp_system d)) = published_ticks (snd (dp_system d0)) @ ts
          \<and> rs_pipeline (ot_redis (dp_outlet d)) = rs_pipeline (ot_redis (dp_outlet d0)) @ map (tick_command (os_fixed out)) ts)"

lemma waiting_step:
  assumes "waiting out d0 d" and "deployed_step out on_candle lib e d = Some d'"
    and "published_updates (snd (dp_system d')) = published_updates (snd (dp_system d))"
  shows "waiting out d0 d'"
proof -
  define w w' where "w = snd (dp_system d)" and "w' = snd (system_step on_candle lib e (dp_system d))"
  let ?fs = "fresh published_fills w w'" and ?ts = "fresh published_ticks w w'"
  have sys: "dp_system d' = system_step on_candle lib e (dp_system d)"
    using assms(2) by (auto simp: deployed_step_def Let_def)
  then have none: "fresh published_updates w w' = []"
    using assms(3) by (simp add: fresh_def w_def w'_def)
  have ot: "dp_outlet d' = publish_ticks out ?ts (publish_fills out ?fs (dp_outlet d))"
    using assms(2) none by (auto simp: deployed_step_def Let_def w_def w'_def)
  have c: "rs_connected (ot_redis (publish_fills out ?fs (dp_outlet d)))"
    using assms(1) by (simp add: waiting_def)
  have "published_ticks (snd (dp_system d')) = published_ticks (snd (dp_system d)) @ ?ts"
    using fresh_outputs(2) [OF w_def w'_def] by (simp add: sys w_def w'_def)
  then show ?thesis
    using assms(1) publish_ticks_pipeline [OF c, of out ?ts] unfolding waiting_def ot by auto
qed

lemma updates_grow_run:
  "deployed_run out on_candle lib es d = Some d' \<Longrightarrow>
   prefix (published_updates (snd (dp_system d))) (published_updates (snd (dp_system d')))"
proof (induction es arbitrary: d)
  case (Cons e es)
  then obtain d1 where d1: "deployed_step out on_candle lib e d = Some d1" "deployed_run out on_candle lib es d1 = Some d'"
    by (auto simp: bind_eq_Some_conv)
  have "dp_system d1 = system_step on_candle lib e (dp_system d)"
    using d1(1) by (auto simp: deployed_step_def Let_def)
  then have "prefix (published_updates (snd (dp_system d))) (published_updates (snd (dp_system d1)))"
    using fresh_outputs(3) [OF refl refl, of on_candle lib e "dp_system d"] by (metis prefixI)
  with Cons.IH [OF d1(2)] show ?case by (blast intro: prefix_order.trans)
qed simp

lemma waiting_run:
  "waiting out d0 d \<Longrightarrow> deployed_run out on_candle lib es d = Some d' \<Longrightarrow>
   published_updates (snd (dp_system d')) = published_updates (snd (dp_system d)) \<Longrightarrow> waiting out d0 d'"
proof (induction es arbitrary: d)
  case (Cons e es)
  then obtain d1 where d1: "deployed_step out on_candle lib e d = Some d1" "deployed_run out on_candle lib es d1 = Some d'"
    by (auto simp: bind_eq_Some_conv)
  have "prefix (published_updates (snd (dp_system d1))) (published_updates (snd (dp_system d)))"
    "prefix (published_updates (snd (dp_system d))) (published_updates (snd (dp_system d1)))"
    using updates_grow_run [OF d1(2)] updates_grow_run [of out on_candle lib "[e]" d d1] d1(1) Cons.prems(3) by simp_all
  then have same: "published_updates (snd (dp_system d1)) = published_updates (snd (dp_system d))"
    by (rule prefix_order.antisym)
  from Cons.IH [OF waiting_step [OF Cons.prems(1) d1(1) same] d1(2)] same Cons.prems(3) show ?case by simp
qed simp

section \<open>A run\<close>

text \<open>An order on paper, and the portfolio's turn that applies its fill and reports it.\<close>

definition order_and_turn :: "system_event list" where
  "order_and_turn = [EngineEvent (StrategyOrder strategy_config_init (momentum_order 5) 363600 0
     \<lparr>ck_sys_ms = 0, ck_place_ns = 1, ck_fill_ns = 2\<rparr>), EngineEvent PortfolioTurn]"

lemma order_and_turn_updates:
  assumes "ec_paper_trading cfg" and "ec_strategies cfg = []"
    and "deployed_run out on_candle lib order_and_turn d = Some d'"
    and "snd (dp_system d) = \<lparr>wd_engine = engine_new cfg 0, wd_readings = rd, wd_next = 0\<rparr>"
  shows "length (published_updates (snd (dp_system d'))) = 1 \<and> length (published_fills (snd (dp_system d'))) = 1"
proof -
  let ?eg = "engine_step first_order (engine_new cfg 0)"
  obtain f where f: "spsc_inv 12 (om_fill_queue (eg_oms ?eg))" "spsc_items (om_fill_queue (eg_oms ?eg)) = [f]"
    "eg_published_fills ?eg = [f]" "eg_portfolio ?eg = set_update_callback portfolio_new"
    using first_order_fill [OF assms(1,2)] .
  have "eg_portfolio (portfolio_turn ?eg) = process_fill f (set_update_callback portfolio_new)"
    using fill_loop_iter_items [OF f(1), of "eg_portfolio ?eg"] f(2,4) by (simp add: portfolio_turn_def split_beta)
  moreover have "wd_engine (snd (dp_system d')) = portfolio_turn ?eg"
    using assms(3,4) by (cases "dp_system d") (auto simp: order_and_turn_def deployed_step_def Let_def bind_eq_Some_conv
        simp del: engine_step.simps(1))
  moreover have "eg_published_fills (portfolio_turn ?eg) = [f]"
    using f(3) by (simp add: portfolio_turn_def split_beta)
  ultimately show ?thesis
    by (simp add: output_defs process_fill_def Let_def split_beta emit_update_def set_update_callback_def
        portfolio_new_def)
qed

definition some_outside :: outside where
  \<comment> \<open>everything is accepted, each flush gets two replies, the third reconnection fails\<close>
  "some_outside = \<lparr>os_bits = (\<lambda>x. of_int \<lfloor>x\<rfloor>), os_text = (\<lambda>x. dec (nat \<lfloor>x\<rfloor>)), os_fixed = (\<lambda>x. dec (nat \<lfloor>x\<rfloor>)),
     os_kafka = True, os_topics = {Ticks, Fills, Portfolio}, os_accept = (\<lambda>n. True), os_redis = True,
     os_replies = (\<lambda>n k. k < 2), os_err = (\<lambda>n k. 2 \<le> k), os_up = (\<lambda>n. n < 3)\<rparr>"

abbreviation no_candles :: "ctx_view \<Rightarrow> candle \<Rightarrow> momentum \<Rightarrow> momentum" where
  "no_candles cv c m \<equiv> m"

abbreviation momentum_library :: "string \<Rightarrow> momentum created" where
  "momentum_library p \<equiv> Created (momentum_new [])"

lemma some_start:
  obtains d where "deployed_start some_outside None (Some ''tok'') None momentum_library 0 some_readings no_candles = Inr d"
    and "rs_connected (ot_redis (dp_outlet d))"
    and "\<And>out d'. deployed_run out no_candles momentum_library order_and_turn d = Some d' \<Longrightarrow>
      length (published_updates (snd (dp_system d'))) = 1 \<and> length (published_fills (snd (dp_system d'))) = 1"
proof -
  obtain cfg where cfg: "engine_startup_config None (Some ''tok'') None = Inr cfg"
    "ec_redis_url cfg = ''redis://127.0.0.1:6379''" "ec_paper_trading cfg" "ec_strategies cfg = []"
    by (simp add: engine_startup_config_def load_token_def load_config_def config_defaults_def engine_config_init_def)
  obtain rs where rs: "redis_new True ''redis://127.0.0.1:6379'' = Inr rs"
    by (simp add: redis_new_def redis_url_def host_port_def Let_def)
  have up: "os_redis some_outside" by (simp add: some_outside_def)
  obtain d where d: "deployed_start some_outside None (Some ''tok'') None momentum_library 0 some_readings no_candles = Inr d"
    by (simp only: deployed_start_def system_start_def cfg sum.case up rs)
  have l: "linked True 1 some_outside d"
    using deployed_start_linked [OF d] up by simp
  have none: "published_updates (snd (dp_system d)) = []"
    using d by (rule deployed_start_cases) (simp add: engine_new_silent)
  have w: "snd (dp_system d) = \<lparr>wd_engine = engine_new cfg 0, wd_readings = some_readings, wd_next = 0\<rparr>"
    using d by (simp add: deployed_start_def system_start_def cfg(1) split: sum.splits) (metis deployed.select_convs(1) snd_conv)
  have "length (published_updates (snd (dp_system d'))) = 1 \<and> length (published_fills (snd (dp_system d'))) = 1"
    if "deployed_run out no_candles momentum_library order_and_turn d = Some d'" for out d'
    using order_and_turn_updates [OF cfg(3,4) that w] .
  then show thesis using l none d that by (simp add: linked_def link_def)
qed

lemma some_outside_times_out: "reads_time_out some_outside"
  by (auto simp: reads_time_out_def some_outside_def intro: exI [of _ 2])

lemma some_run:
  assumes "deployed_start some_outside None (Some ''tok'') None momentum_library 0 some_readings no_candles = Inr d"
  obtains d' where "deployed_run some_outside no_candles momentum_library es d = Some d'"
  using linked_run [OF some_outside_times_out deployed_start_linked [OF assms]] by blast

section \<open>Properties\<close>

text \<open>
  C21: in every run of the program, each Kafka topic carries exactly the messages of its stream, in
  order: the fills the OMS has reported, the ticks that passed the normalizer and the updates of the
  portfolio. Messages that the client library refuses are missing, none is repeated or out of order.
\<close>

lemma topics_follow_streams:
  assumes "deployed_start out file tok tok2 lib now readings on_candle = Inr d"
    and "os_kafka out" and "{Ticks, Fills, Portfolio} \<subseteq> os_topics out"
    and "deployed_run out on_candle lib es d = Some d'"
  shows "subseq (payloads tp (ot_kafka (dp_outlet d'))) (world_stream out tp (snd (dp_system d')))
     \<and> ((\<forall>n. os_accept out n) \<longrightarrow>
          payloads tp (ot_kafka (dp_outlet d')) = world_stream out tp (snd (dp_system d')))"
  using run_follows [OF assms, of tp] by (simp add: follows_def)

lemma topics_follow_streams_witness:
  "\<exists>d d'. deployed_start some_outside None (Some ''tok'') None momentum_library 0 some_readings no_candles = Inr d
     \<and> deployed_run some_outside no_candles momentum_library order_and_turn d = Some d'
     \<and> length (payloads Portfolio (ot_kafka (dp_outlet d'))) = 1"
proof -
  obtain d where d: "deployed_start some_outside None (Some ''tok'') None momentum_library 0 some_readings no_candles = Inr d"
    and one: "\<And>out d'. deployed_run out no_candles momentum_library order_and_turn d = Some d' \<Longrightarrow>
      length (published_updates (snd (dp_system d'))) = 1 \<and> length (published_fills (snd (dp_system d'))) = 1" using some_start by metis
  obtain d' where d': "deployed_run some_outside no_candles momentum_library order_and_turn d = Some d'"
    using d by (rule some_run)
  have o: "os_kafka some_outside" "{Ticks, Fills, Portfolio} \<subseteq> os_topics some_outside" "\<forall>n. os_accept some_outside n"
    by (simp_all add: some_outside_def)
  have "payloads Portfolio (ot_kafka (dp_outlet d')) = world_stream some_outside Portfolio (snd (dp_system d'))"
    using topics_follow_streams [OF d o(1,2) d', of Portfolio] o(3) by blast
  with one [OF d'] d d' show ?thesis by (auto simp: world_stream_def)
qed

text \<open>
  C40: if reads from Redis time out, no run of the program hangs in a flush, and every portfolio update
  costs a connection: after \<open>n\<close> updates the client is connected exactly if the first connection and all
  \<open>n\<close> reconnections succeeded, and then it has connected \<open>n + 1\<close> times. One failed reconnection ends
  the publishing to Redis for the rest of the run.
\<close>

lemma updates_cost_connections:
  assumes "deployed_start out file tok tok2 lib now readings on_candle = Inr d" and "reads_time_out out"
  shows "\<exists>d'. deployed_run out on_candle lib es d = Some d'
     \<and> (let n = length (published_updates (snd (dp_system d'))); rs = ot_redis (dp_outlet d') in
         (rs_connected rs \<longleftrightarrow> os_redis out \<and> (\<forall>i < n. os_up out i))
         \<and> (rs_connected rs \<longrightarrow> rs_connects rs = n + 1))"
  using linked_run [OF assms(2) deployed_start_linked [OF assms(1)], of on_candle lib es]
  by (auto simp: linked_def link_def Let_def)

lemma updates_cost_connections_witness:
  "\<exists>d d'. deployed_start some_outside None (Some ''tok'') None momentum_library 0 some_readings no_candles = Inr d
     \<and> deployed_run some_outside no_candles momentum_library order_and_turn d = Some d'
     \<and> rs_connected (ot_redis (dp_outlet d')) \<and> rs_connects (ot_redis (dp_outlet d')) = 2"
proof -
  obtain d where d: "deployed_start some_outside None (Some ''tok'') None momentum_library 0 some_readings no_candles = Inr d"
    and one: "\<And>out d'. deployed_run out no_candles momentum_library order_and_turn d = Some d' \<Longrightarrow>
      length (published_updates (snd (dp_system d'))) = 1 \<and> length (published_fills (snd (dp_system d'))) = 1" using some_start by metis
  from updates_cost_connections [OF d some_outside_times_out, of order_and_turn] obtain d' where
    d': "deployed_run some_outside no_candles momentum_library order_and_turn d = Some d'"
    and c: "let n = length (published_updates (snd (dp_system d'))); rs = ot_redis (dp_outlet d') in
         (rs_connected rs \<longleftrightarrow> os_redis some_outside \<and> (\<forall>i < n. os_up some_outside i))
         \<and> (rs_connected rs \<longrightarrow> rs_connects rs = n + 1)" by blast
  have "os_redis some_outside" "os_up some_outside 0" by (simp_all add: some_outside_def)
  with c have "rs_connected (ot_redis (dp_outlet d'))" "rs_connects (ot_redis (dp_outlet d')) = 2"
    by (simp_all add: one [OF d'] Let_def)
  with d d' show ?thesis by blast
qed

text \<open>
  Ticks reach Redis only with the next portfolio update. In a run without one, whatever else
  happens and however long it takes, nothing is sent: the commands of all ticks that pass the
  normalizer pile up, in order, behind those that were waiting.
\<close>

lemma ticks_wait_for_update:
  assumes "rs_connected (ot_redis (dp_outlet d))" and "deployed_run out on_candle lib es d = Some d'"
    and "published_updates (snd (dp_system d')) = published_updates (snd (dp_system d))"
  shows "\<exists>ts. published_ticks (snd (dp_system d')) = published_ticks (snd (dp_system d)) @ ts
     \<and> rs_pipeline (ot_redis (dp_outlet d')) = rs_pipeline (ot_redis (dp_outlet d)) @ map (tick_command (os_fixed out)) ts
     \<and> ot_flushes (dp_outlet d') = ot_flushes (dp_outlet d)"
proof -
  have "waiting out d d" using assms(1) by (simp add: waiting_def)
  from waiting_run [OF this assms(2,3)] show ?thesis by (auto simp: waiting_def)
qed

lemma ticks_wait_for_update_witness:
  "\<exists>d d' ts. deployed_run some_outside no_candles momentum_library [EngineEvent (RawTick tick_init), EngineEvent NormalizerTurn] d = Some d'
     \<and> rs_connected (ot_redis (dp_outlet d))
     \<and> rs_pipeline (ot_redis (dp_outlet d')) = rs_pipeline (ot_redis (dp_outlet d)) @ map (tick_command (os_fixed some_outside)) ts"
proof -
  obtain d where d: "deployed_start some_outside None (Some ''tok'') None momentum_library 0 some_readings no_candles = Inr d"
    "rs_connected (ot_redis (dp_outlet d))" by (rule some_start)
  obtain d' where d': "deployed_run some_outside no_candles momentum_library
      [EngineEvent (RawTick tick_init), EngineEvent NormalizerTurn] d = Some d'"
    using d(1) by (rule some_run)
  have "dp_system d' = system_run no_candles momentum_library [EngineEvent (RawTick tick_init), EngineEvent NormalizerTurn] (dp_system d)"
    using d' by (auto simp: deployed_step_def Let_def bind_eq_Some_conv simp del: system_step.simps)
  then have "published_updates (snd (dp_system d')) = published_updates (snd (dp_system d))"
    by (cases "dp_system d") (simp add: published_updates_def raw_tick_def normalizer_turn_def Let_def)
  from ticks_wait_for_update [OF d(2) d' this] d(2) d' show ?thesis by blast
qed

text \<open>
  The heartbeat of the engine as shipped: whatever ticks and exchange events arrive, it reports no open
  order, the starting capital and no profit, for ever.
\<close>

definition untouched :: "system \<Rightarrow> bool" where
  "untouched mw \<longleftrightarrow> sm_strategies (fst mw) = [] \<and> ec_strategies (sm_cfg (fst mw)) = []
     \<and> om_orders (eg_oms (wd_engine (snd mw))) = []
     \<and> spsc_inv 12 (om_fill_queue (eg_oms (wd_engine (snd mw))))
     \<and> spsc_items (om_fill_queue (eg_oms (wd_engine (snd mw)))) = []
     \<and> eg_portfolio (wd_engine (snd mw)) = set_update_callback portfolio_new"

lemma no_order_events:
  assumes "om_orders m = []"
  shows "on_order_ack ex oid m = m"
    and "om_orders (on_fill ex p q tid now m) = [] \<and> om_fill_queue (on_fill ex p q tid now m) = om_fill_queue m"
    and "om_orders (on_place_error oid reason m) = [] \<and> om_fill_queue (on_place_error oid reason m) = om_fill_queue m"
  using assms by (simp_all add: on_order_ack_def on_fill_def dedup_guard_eq apply_fill_def on_place_error_def
      on_reject_def emit_def Let_def split_beta)

lemma untouched_engine_step:
  assumes "no_strategy_call (EngineEvent e)" and "om_orders (eg_oms eg) = []"
    and "spsc_inv 12 (om_fill_queue (eg_oms eg))" and "spsc_items (om_fill_queue (eg_oms eg)) = []"
    and "eg' = engine_step e eg"
  shows "om_orders (eg_oms eg') = [] \<and> om_fill_queue (eg_oms eg') = om_fill_queue (eg_oms eg)
     \<and> eg_portfolio eg' = eg_portfolio eg"
proof -
  have "portfolio_turn eg = eg"
    using ring.deq_nil [OF assms(3,4)] by (simp add: portfolio_turn_def fill_loop_iter_def)
  then show ?thesis
    using assms(1,2) unfolding assms(5)
    by (cases e) (simp_all add: ctx_cancel_order_def split_beta no_open_cancel no_order_events
        normalizer_turn_def raw_tick_def Let_def)
qed

lemma untouched_step:
  assumes "untouched mw" and "no_strategy_call e"
  shows "untouched (system_step on_candle lib e mw)"
proof -
  obtain m w where mw: "mw = (m, w)" by (cases mw)
  have u: "sm_strategies m = []" "ec_strategies (sm_cfg m) = []" using assms(1) by (simp_all add: untouched_def mw)
  show ?thesis
  proof (cases e)
    case (EngineEvent f)
    then show ?thesis
      using untouched_engine_step [of f "wd_engine w"] assms by (simp add: untouched_def mw)
  next
    case (ManagerEvent f)
    then show ?thesis
      using manager_step_nobody [OF u, of "momentum_plugin on_candle" lib world_disruptor f w] assms(1) by (simp add: mw)
  qed (use assms u in \<open>simp_all add: mw untouched_def system_normalizer_turn_def system_flush_candles_def
    dispatches_to_nobody set_normalizer_def price_world_def Let_def\<close>)
qed

lemma shipped_heartbeat:
  assumes "system_start file tok tok2 lib now readings on_candle = Inr mw" and "list_all no_strategy_call es"
  shows "(let hb = snd (heartbeat_of beat (wd_engine (snd (system_run on_candle lib es mw))))
     in hb_beat hb = beat + 1 \<and> hb_open_orders hb = 0 \<and> hb_capital hb = 100000 \<and> hb_realized hb = 0 \<and> hb_unrealized hb = 0)"
proof -
  obtain t where mw: "mw = (start_all (momentum_plugin on_candle) lib (strategy_manager_new ((load_config file)\<lparr>ec_access_token := t\<rparr>)),
      \<lparr>wd_engine = engine_new ((load_config file)\<lparr>ec_access_token := t\<rparr>) now, wd_readings = readings, wd_next = 0\<rparr>)"
    using assms(1) by (auto simp: system_start_def engine_startup_config_def split: sum.splits)
  have none: "ec_strategies (load_config file) = []"
    by (simp add: load_config_def config_defaults_def engine_config_init_def split: option.split)
  have q: "spsc_inv 12 (spsc_new 4096 d)" "spsc_items (spsc_new 4096 d) = []" for d :: fill
    using spsc_inv_new [of 12 d] by (simp_all add: spsc_items_def spsc_new_def ring_count_def)
  have start: "untouched mw"
    by (simp add: mw untouched_def start_all_def strategy_manager_new_def none engine_new_def
        set_fill_callback_def oms_new_def FILL_QUEUE_CAPACITY_def q)
  have "untouched mw \<Longrightarrow> untouched (system_run on_candle lib es mw)" for mw
    using assms(2) by (induction es arbitrary: mw) (simp_all add: untouched_step)
  from this [OF start] show ?thesis
    by (simp add: untouched_def heartbeat_of_def Let_def get_snapshot_def set_update_callback_def portfolio_new_def
        snapshot_init_def open_order_count_def)
qed

section \<open>Two threads on one connection\<close>

text \<open>
  \<open>publish_tick\<close> looks at \<open>ctx_\<close> before it takes the lock, and the portfolio thread's flush may replace
  it in between. The normalizer's call is therefore two steps; \<open>RcCrashed\<close> is a command appended to a
  null context.
\<close>

datatype redis_pc = RcIdle | RcChecked tick | RcCrashed

inductive redis_race :: "(dbl \<Rightarrow> string) \<Rightarrow> bool \<Rightarrow> redis_pc \<times> redis \<Rightarrow> redis_pc \<times> redis \<Rightarrow> bool" for fmt up where
  rc_absent: "\<not> rs_connected rs \<Longrightarrow> redis_race fmt up (RcIdle, rs) (RcIdle, rs)"
| rc_check: "rs_connected rs \<Longrightarrow> redis_race fmt up (RcIdle, rs) (RcChecked t, rs)"
| rc_append: "rs_connected rs \<Longrightarrow> redis_race fmt up (RcChecked t, rs) (RcIdle, redis_publish_tick fmt t rs)"
| rc_crash: "\<not> rs_connected rs \<Longrightarrow> redis_race fmt up (RcChecked t, rs) (RcCrashed, rs)"
| rc_flush: "redis_flush replies err up rs = Some rs' \<Longrightarrow> \<forall>n. \<not> replies n \<longrightarrow> err n
    \<Longrightarrow> redis_race fmt up (pc, rs) (pc, rs')"

inductive_cases redis_raceE: "redis_race fmt up s s'"

text \<open>
  The null context is reached from a live connection exactly if a reconnection can fail: then the tick
  that was let through before the flush is appended to nothing.
\<close>

lemma null_context_iff:
  assumes "rs_connected rs"
  shows "(\<exists>rs'. (redis_race fmt up)\<^sup>*\<^sup>* (RcIdle, rs) (RcCrashed, rs')) \<longleftrightarrow> \<not> up"
proof
  assume "\<not> up"
  have flush: "redis_flush (\<lambda>n. False) (\<lambda>n. True) up rs = Some (redis_connect up (rs\<lparr>rs_connected := False\<rparr>))"
    using assms by (subst redis_flush_def, subst drain_replies.simps) simp
  let ?rs = "redis_connect up (rs\<lparr>rs_connected := False\<rparr>)"
  have "\<not> rs_connected ?rs" using \<open>\<not> up\<close> by (simp add: redis_connect_def)
  then have "redis_race fmt up (RcChecked tick_init, ?rs) (RcCrashed, ?rs)" by (rule rc_crash)
  moreover have "redis_race fmt up (RcChecked tick_init, rs) (RcChecked tick_init, ?rs)"
    using flush by (rule rc_flush) simp
  moreover have "redis_race fmt up (RcIdle, rs) (RcChecked tick_init, rs)" using assms by (rule rc_check)
  ultimately show "\<exists>rs'. (redis_race fmt up)\<^sup>*\<^sup>* (RcIdle, rs) (RcCrashed, rs')"
    by (meson rtranclp.rtrancl_refl converse_rtranclp_into_rtranclp)
next
  assume "\<exists>rs'. (redis_race fmt up)\<^sup>*\<^sup>* (RcIdle, rs) (RcCrashed, rs')"
  then obtain rs' where run: "(redis_race fmt up)\<^sup>*\<^sup>* (RcIdle, rs) (RcCrashed, rs')" ..
  show "\<not> up"
  proof
    assume up
    have step: "rs_connected (snd s') \<and> fst s' \<noteq> RcCrashed"
      if "redis_race fmt up s s'" "rs_connected (snd s) \<and> fst s \<noteq> RcCrashed" for s s'
      using that \<open>up\<close> flush_always_reconnects by (elim redis_raceE) auto
    have "rs_connected (snd s') \<and> fst s' \<noteq> RcCrashed" if "(redis_race fmt up)\<^sup>*\<^sup>* (RcIdle, rs) s'" for s'
      using that by (induction rule: rtranclp_induct) (use assms step in \<open>simp, blast\<close>)
    from this [OF run] show False by simp
  qed
qed

end
