(* ===== verification/QF_Oms_Typing.thy ===== *)
theory QF_Oms_Typing
  imports QF_Oms_Props
begin

text \<open>
  The types of the data in the order management system, as far as HOL's types are wider than C++'s: a
  \<open>char[n]\<close> holds a text of less than \<open>n\<close> characters without a terminator, an \<open>int32_t\<close> is in its range.
  Values of these types go in, and in every run only such values are stored, queued and reported.
\<close>

section \<open>The types\<close>

definition fits :: "nat \<Rightarrow> string \<Rightarrow> bool" where
  "fits n s \<longleftrightarrow> CHR 0x00 \<notin> set s \<and> length s < n"

definition request_typed :: "order_request \<Rightarrow> bool" where
  "request_typed req \<longleftrightarrow> in_i32 (rq_quantity req)"

definition order_typed :: "order \<Rightarrow> bool" where
  "order_typed od \<longleftrightarrow> fits MAX_ORDER_ID_LEN (od_order_id od) \<and> fits MAX_STRATEGY_LEN (od_strategy_id od)
     \<and> fits MAX_TAG_LEN (od_tag od) \<and> in_i32 (od_quantity od) \<and> in_i32 (od_filled_qty od)"

definition fill_texts :: "fill \<Rightarrow> bool" where
  "fill_texts f \<longleftrightarrow> fits MAX_ORDER_ID_LEN (fl_order_id f) \<and> fits MAX_ORDER_ID_LEN (fl_trade_id f)
     \<and> fits MAX_STRATEGY_LEN (fl_strategy_id f)"

definition fill_typed :: "fill \<Rightarrow> bool" where
  "fill_typed f \<longleftrightarrow> fill_texts f \<and> in_i32 (fl_quantity f)"

fun out_typed :: "oms_out \<Rightarrow> bool" where
  "out_typed (FillCb f) = fill_typed f"
| "out_typed (EmsPlace req oid) = request_typed req"
| "out_typed _ = True"

fun event_typed :: "oms_event \<Rightarrow> bool" where
  "event_typed (Submit req ck) = request_typed req"
| "event_typed (FillEvent ex price qty tid now) = in_i32 qty"
| "event_typed _ = True"

definition oms_typed :: "oms \<Rightarrow> bool" where
  "oms_typed m \<longleftrightarrow> (\<forall>i. order_typed (po_order (slot_of m i)))
     \<and> list_all fill_typed (sq_data (om_fill_queue m)) \<and> list_all out_typed (om_out m)"

section \<open>Every operation keeps them\<close>

lemma fits_strncpy: "0 < n \<Longrightarrow> fits n (strncpy_buf n s)"
  using length_strncpy [of n s] by (simp add: fits_def)

lemma fits_buffers [simp]: "fits MAX_ORDER_ID_LEN (strncpy_buf MAX_ORDER_ID_LEN s)"
  "fits MAX_STRATEGY_LEN (strncpy_buf MAX_STRATEGY_LEN s)" "fits MAX_TAG_LEN (strncpy_buf MAX_TAG_LEN s)"
  by (rule fits_strncpy, simp add: limit_defs)+

lemma build_fill_texts [simp]: "fill_texts (build_fill oid tid price qty now od)"
  by (simp add: fill_texts_def build_fill_def)

lemma build_fill_typed [simp]: "fill_typed (build_fill oid tid price qty now od) \<longleftrightarrow> in_i32 qty"
  by (simp add: fill_typed_def) (simp add: build_fill_def)

lemma order_init_typed: "order_typed order_init"
  by (simp add: order_typed_def order_init_def fits_def limit_defs in_i32_def)

lemma request_order_typed: "request_typed req \<Longrightarrow> order_typed od \<Longrightarrow> order_typed (request_order oid now req od)"
  by (simp add: order_typed_def request_typed_def request_order_def)

lemma fill_order_typed: "order_typed (po_order po) \<Longrightarrow> order_typed (po_order (fill_order f po))"
  by (simp add: order_typed_def fill_order_def Let_def wrap_simps)

lemma list_all_update: "list_all P xs \<Longrightarrow> P x \<Longrightarrow> list_all P (xs[i := x])"
  by (auto simp: list_all_iff dest!: set_update_subset_insert [THEN subsetD])

lemma push_typed:
  "list_all fill_typed (sq_data q) \<Longrightarrow> fill_typed f \<Longrightarrow> list_all fill_typed (sq_data (snd (spsc_push f q)))"
  by (simp add: spsc_push_def Let_def list_all_update)

lemma oms_typed_cong:
  assumes "oms_typed m" and "pl_slots (om_pool m') = pl_slots (om_pool m)"
    and "om_fill_queue m' = om_fill_queue m" and "om_out m' = om_out m"
  shows "oms_typed m'"
  using assms by (simp add: oms_typed_def)

lemma upd_slot_typed:
  "oms_typed m \<Longrightarrow> (order_typed (po_order (slot_of m i)) \<Longrightarrow> order_typed (po_order (f (slot_of m i)))) \<Longrightarrow>
   oms_typed (upd_slot i f m)"
  by (simp add: oms_typed_def)

lemma emit_typed: "oms_typed m \<Longrightarrow> out_typed e \<Longrightarrow> oms_typed (emit e m)"
  by (simp add: oms_typed_def)

lemma deliver_typed: "oms_typed m \<Longrightarrow> fill_typed f \<Longrightarrow> oms_typed (deliver_fill f m)"
  by (simp add: oms_typed_def push_typed)

lemma retire_typed: "oms_typed m \<Longrightarrow> oms_typed (retire i oid ex m)"
  by (simp add: oms_typed_def)

lemma ack_typed: "oms_typed m \<Longrightarrow> oms_typed (on_order_ack ex oid m)"
  by (auto simp: on_order_ack_def order_typed_def intro!: upd_slot_typed split: option.split
      elim: oms_typed_cong)

lemma on_fill_typed: "oms_typed m \<Longrightarrow> in_i32 qty \<Longrightarrow> oms_typed (on_fill ex price qty tid now m)"
proof -
  assume "oms_typed m" and q: "in_i32 qty"
  then have "oms_typed (snd (dedup_guard tid m))"
    by (auto simp: dedup_guard_eq elim: oms_typed_cong)
  then show ?thesis
    using q by (auto simp: on_fill_def split_beta apply_fill_def Let_def fill_order_typed split: option.split
        intro!: deliver_typed retire_typed upd_slot_typed)
qed

lemma on_reject_typed: "oms_typed m \<Longrightarrow> oms_typed (on_reject ex reason m)"
  by (auto simp: on_reject_def Let_def split: option.split intro!: emit_typed retire_typed upd_slot_typed)

lemma place_error_typed: "oms_typed m \<Longrightarrow> oms_typed (on_place_error oid reason m)"
  using on_reject_typed [of m "[]" reason]
  by (auto simp: on_place_error_def Let_def split: option.split elim: oms_typed_cong)

lemma cancel_typed: "oms_typed m \<Longrightarrow> oms_typed (snd (cancel oid m))"
  by (rule cancel_cases [of oid m]) (auto intro: emit_typed)

lemma cancel_list_typed: "oms_typed m \<Longrightarrow> oms_typed (cancel_list oids m)"
  by (induction oids arbitrary: m) (auto intro: cancel_typed)

lemma entered_typed:
  assumes "oms_typed m" and "pool_acquire (om_pool m) = (Some i, pl)" and "request_typed req"
  shows "oms_typed (entered req ck i pl m)"
proof -
  have "oms_typed (m\<lparr>om_pool := pl, om_seq := om_seq m + 1\<rparr>)"
    using assms(1) pool_acquire_zeroed [OF assms(2)] pool_acquire_others [OF assms(2)] order_init_typed
    by (auto simp: oms_typed_def pooled_order_init_def) (metis pooled_order.select_convs(1))
  then have "oms_typed (upd_slot i (\<lambda>po. po\<lparr>po_order := request_order oid (ck_place_ns ck) req (po_order po)\<rparr>)
      (m\<lparr>om_pool := pl, om_seq := om_seq m + 1\<rparr>))" for oid
    by (rule upd_slot_typed) (simp add: request_order_typed assms(3))
  then show ?thesis
    unfolding entered_def Let_def by (rule oms_typed_cong) simp_all
qed

lemma submit_typed:
  assumes "oms_typed m" and "request_typed req"
  shows "oms_typed (snd (submit req ck m))"
proof (cases "pool_acquire (om_pool m)")
  case (Pair r pl)
  show ?thesis
  proof (cases r)
    case None
    with Pair assms(1) show ?thesis by (simp add: submit_None)
  next
    case (Some i)
    with Pair have acq: "pool_acquire (om_pool m) = (Some i, pl)" by simp
    note e = entered_typed [OF assms(1) acq assms(2), of ck]
    then show ?thesis
      using assms(2) by (auto simp: submit_Some [OF acq refl] request_typed_def intro!: on_fill_typed ack_typed emit_typed)
  qed
qed

lemma oms_step_typed: "oms_typed m \<Longrightarrow> event_typed e \<Longrightarrow> oms_typed (oms_step e m)"
  by (cases e) (auto simp: cancel_all_open_def reset_for_eod_def
      intro: submit_typed ack_typed place_error_typed on_fill_typed on_reject_typed cancel_typed cancel_list_typed
      elim: oms_typed_cong)

lemma oms_run_typed: "oms_typed m \<Longrightarrow> list_all event_typed es \<Longrightarrow> oms_typed (oms_run es m)"
  by (induction es arbitrary: m) (simp_all add: oms_step_typed)

lemma oms_new_typed: "oms_typed (oms_new n cap paper)"
  by (simp add: oms_typed_def oms_new_def pool_new_def pooled_order_init_def order_init_typed spsc_new_def list_all_iff
      fill_typed_def fill_texts_def fill_init_def fits_def limit_defs in_i32_def)

text \<open>
  C16: type preservation. In every run of the OMS on typed requests and fill quantities, whatever texts and
  prices they carry, every order record of the pool holds terminated texts within its buffers and
  quantities within \<open>int32_t\<close>, and so does every fill that is queued for the portfolio or reported.
\<close>

lemma oms_well_typed:
  assumes "list_all event_typed es" and "m = oms_run es (oms_new n cap paper)"
  shows "order_typed (po_order (slot_of m i)) \<and> list_all fill_typed (sq_data (om_fill_queue m))
     \<and> list_all out_typed (om_out m)"
  using oms_run_typed [OF oms_new_typed assms(1), of n cap paper] assms(2) by (simp add: oms_typed_def)

lemma oms_well_typed_witness:
  "order_typed (po_order (slot_of (oms_run [Submit ((order_request_init 7)\<lparr>rq_quantity := 2147483647,
        rq_strategy_id := replicate 99 CHR ''s''\<rparr>) \<lparr>ck_sys_ms = 5, ck_place_ns = 1, ck_fill_ns = 2\<rparr>,
      PlaceOk ''X1'' ''QF-5-0'', FillEvent ''X1'' 10 2147483647 ''T1'' 3, FillEvent ''X1'' 10 2147483647 ''T2'' 4]
     (oms_new 2 4 False)) 1))"
  by (rule oms_well_typed [THEN conjunct1, OF _ refl]) (simp add: request_typed_def in_i32_def)

end
