(* ===== verification/QF_Wire.thy ===== *)
theory QF_Wire
  imports QF_Publish QF_Oms_Typing
begin

text \<open>
  From the OMS to a consumer of the topic \<open>order.fills\<close>: in every run of the program the messages can be
  read back as the fills the OMS has reported, because \<open>on_fill\<close> builds every fill with texts that fit
  their buffers.
\<close>

section \<open>The texts of reported fills\<close>

fun out_texts :: "oms_out \<Rightarrow> bool" where
  "out_texts (FillCb f) = fill_texts f"
| "out_texts _ = True"

abbreviation outs_ok :: "oms \<Rightarrow> bool" where
  "outs_ok m \<equiv> list_all out_texts (om_out m)"

lemma on_fill_texts: "outs_ok m \<Longrightarrow> outs_ok (on_fill ex price qty tid now m)"
  by (auto simp: on_fill_def split_beta dedup_guard_eq apply_fill_def Let_def split: option.split)

lemma on_ack_texts: "outs_ok m \<Longrightarrow> outs_ok (on_order_ack ex oid m)"
  by (auto simp: on_order_ack_def split: option.split)

lemma on_reject_texts: "outs_ok m \<Longrightarrow> outs_ok (on_reject ex reason m)"
  by (auto simp: on_reject_def Let_def split: option.split)

lemma place_error_texts: "outs_ok m \<Longrightarrow> outs_ok (on_place_error oid reason m)"
  using on_reject_texts [of m "[]" reason] by (auto simp: on_place_error_def Let_def split: option.split)

lemma cancel_texts: "outs_ok m \<Longrightarrow> outs_ok (snd (cancel oid m))"
  by (rule cancel_cases [of oid m]) auto

lemma cancel_list_texts: "outs_ok m \<Longrightarrow> outs_ok (cancel_list oids m)"
  by (induction oids arbitrary: m) (auto intro: cancel_texts)

lemma submit_texts: "outs_ok m \<Longrightarrow> outs_ok (snd (submit req ck m))"
proof (cases "pool_acquire (om_pool m)")
  case (Pair r pl)
  assume ok: "outs_ok m"
  show ?thesis
  proof (cases r)
    case None
    with Pair ok show ?thesis by (simp add: submit_None)
  next
    case (Some i)
    have "outs_ok (entered req ck i pl m)" using ok by (simp add: entered_def Let_def)
    then show ?thesis
      using Pair Some by (auto simp: submit_Some intro!: on_fill_texts on_ack_texts)
  qed
qed

lemmas oms_texts = on_fill_texts on_ack_texts place_error_texts cancel_texts cancel_list_texts submit_texts

section \<open>Published fills\<close>

definition fills_ok :: "engine \<Rightarrow> bool" where
  "fills_ok eg \<longleftrightarrow> outs_ok (eg_oms eg) \<and> list_all fill_texts (eg_published_fills eg)"

lemma run_callbacks_texts:
  "list_all out_texts outs \<Longrightarrow> list_all fill_texts (eg_published_fills eg) \<Longrightarrow>
   list_all fill_texts (eg_published_fills (run_callbacks outs eg))"
  by (induction outs eg rule: run_callbacks.induct) (simp_all add: fill_callback_def)

lemma with_oms_texts:
  "outs_ok m \<Longrightarrow> list_all fill_texts (eg_published_fills eg) \<Longrightarrow>
   list_all fill_texts (eg_published_fills (with_oms m eg))"
  unfolding with_oms_def by (rule run_callbacks_texts) (auto simp: list_all_iff dest: in_set_dropD)

interpretation ft: engine_property fills_ok "\<lambda>e. True"
proof
  show "fills_ok eg \<Longrightarrow> True \<Longrightarrow> fills_ok (engine_step e eg)" for eg e
    by (cases e) (auto simp: fills_ok_def ctx_submit_order_eq Let_def ctx_cancel_order_def split_beta
        portfolio_turn_def normalizer_turn_def raw_tick_def cancel_all_open_def
        intro!: with_oms_texts oms_texts)
qed (simp_all add: fills_ok_def)

lemma fills_ok_run:
  assumes "deployed_start out file tok tok2 lib now readings on_candle = Inr d"
    and "deployed_run out on_candle lib es d = Some d'"
  shows "list_all fill_texts (published_fills (snd (dp_system d')))"
proof -
  obtain cfg where "snd (dp_system d) = \<lparr>wd_engine = engine_new cfg now, wd_readings = readings, wd_next = 0\<rparr>"
    using assms(1) by (rule deployed_start_cases)
  then have "fills_ok (wd_engine (snd (dp_system d)))"
    by (simp add: fills_ok_def engine_new_def set_fill_callback_def oms_new_def)
  with assms(2) have "fills_ok (wd_engine (snd (dp_system d')))"
    by (rule deployed_run_induct [where P = "\<lambda>d. fills_ok (wd_engine (snd (dp_system d)))"])
      (auto simp: deployed_step_def Let_def ft.system_step_keeps)
  then show ?thesis by (simp add: fills_ok_def published_fills_def)
qed



end
