(* ===== verification/QF_Ws.thy ===== *)
theory QF_Ws
  imports QF_Rest QF_Spsc
begin

text \<open>
  The market-data handler of \<open>cpp/market_data/upstox_ws_handler.cpp\<close>: the chain of asynchronous
  operations that leads to a connection, the reconnect backoff, subscriptions, and the translation of
  feed messages to ticks. One asynchronous operation is pending at a time; its completion is an event,
  with the error code the library would report. The generated protobuf code, the JSON parser, the
  string hash and the clock are arguments: a feed message is what its accessors return, converted to
  the type of the member they are assigned to.
\<close>

section \<open>State\<close>

datatype ws_pending =
  NotStarted | Resolving | Connecting | TlsHandshaking | WsHandshaking | Reading | Waiting int | Ended

record ws_handler =
  ws_pending_op :: ws_pending
  ws_wss_url :: string
  ws_wss_host :: string
  ws_wss_port :: string
  ws_wss_path :: string
  ws_subscribed_keys :: "string list"
  ws_subscribe_mode :: string
  ws_connected :: bool
  ws_stop :: bool
  ws_msg_count :: u64
  ws_decode_errors :: u64
  ws_reconnect_delay_s :: int
  ws_token_to_key :: "(u64 \<times> string) list"
  ws_sent :: "json list"

definition MAX_RECONNECT_DELAY_S :: int where "MAX_RECONNECT_DELAY_S = 60"

definition ws_new :: ws_handler where
  "ws_new = \<lparr>ws_pending_op = NotStarted, ws_wss_url = [], ws_wss_host = [], ws_wss_port = [],
     ws_wss_path = [], ws_subscribed_keys = [], ws_subscribe_mode = ''full'', ws_connected = False,
     ws_stop = False, ws_msg_count = 0, ws_decode_errors = 0, ws_reconnect_delay_s = 1,
     ws_token_to_key = [], ws_sent = []\<rparr>"

section \<open>Connecting\<close>

definition fetch_ws_url :: "(string \<Rightarrow> json option) \<Rightarrow> net_result \<Rightarrow> string" where
  \<comment> \<open>every exception is caught and gives the empty string\<close>
  "fetch_ws_url parse net =
     (case net of
        Response status body \<Rightarrow>
          if status \<noteq> 200 then []
          else (case Option.bind (Option.bind (Option.bind (parse body) (json_at ''data''))
                  (json_at ''authorizedRedirectUri'')) json_string of None \<Rightarrow> [] | Some url \<Rightarrow> url)
      | _ \<Rightarrow> [])"

definition wss_match :: "string \<Rightarrow> (string \<times> string) option" where
  \<comment> \<open>the expression \<open>wss://([^/]+)(/.*)$\<close> at the start of a text\<close>
  "wss_match s =
     (let rest = drop 6 s; host = takeWhile (\<lambda>c. c \<noteq> CHR ''/'') rest; path = drop (length host) rest
      in if take 6 s = ''wss://'' \<and> host \<noteq> [] \<and> path \<noteq> [] \<and> CHR 0x0A \<notin> set path \<and> CHR 0x0D \<notin> set path
         then Some (host, path) else None)"

fun wss_search :: "string \<Rightarrow> (string \<times> string) option" where
  "wss_search [] = None"
| "wss_search (c # cs) = (case wss_match (c # cs) of Some m \<Rightarrow> Some m | None \<Rightarrow> wss_search cs)"

definition schedule_reconnect :: "ws_handler \<Rightarrow> ws_handler" where
  "schedule_reconnect ws =
     (if ws_stop ws then ws\<lparr>ws_pending_op := Ended\<rparr>
      else ws\<lparr>ws_connected := False, ws_pending_op := Waiting (ws_reconnect_delay_s ws),
              ws_reconnect_delay_s := min (ws_reconnect_delay_s ws * 2) MAX_RECONNECT_DELAY_S\<rparr>)"

definition do_authorize :: "(string \<Rightarrow> json option) \<Rightarrow> net_result \<Rightarrow> ws_handler \<Rightarrow> ws_handler" where
  "do_authorize parse net ws =
     (let url = fetch_ws_url parse net; ws = ws\<lparr>ws_wss_url := url\<rparr>
      in if url = [] then schedule_reconnect ws
         else case wss_search url of
           None \<Rightarrow> schedule_reconnect ws
         | Some (host, path) \<Rightarrow> ws\<lparr>ws_wss_host := host, ws_wss_path := path, ws_wss_port := ''443'',
             ws_pending_op := Resolving\<rparr>)"

definition ws_start :: "(string \<Rightarrow> json option) \<Rightarrow> net_result \<Rightarrow> ws_handler \<Rightarrow> ws_handler" where
  [simp]: "ws_start parse net ws = do_authorize parse net ws"

definition do_reconnect :: "(string \<Rightarrow> json option) \<Rightarrow> net_result \<Rightarrow> ws_handler \<Rightarrow> ws_handler" where
  \<comment> \<open>the old stream is dropped first; the stream itself is not part of the state\<close>
  [simp]: "do_reconnect parse net ws = do_authorize parse net ws"

definition subscription :: "ws_handler \<Rightarrow> json" where
  "subscription ws = JObj [(''guid'', JStr ''quantforge-sub''), (''method'', JStr ''sub''),
     (''data'', JObj [(''mode'', JStr (ws_subscribe_mode ws)),
                      (''instrumentKeys'', JArr (map JStr (ws_subscribed_keys ws)))])]"

definition do_send_subscription :: "ws_handler \<Rightarrow> ws_handler" where
  "do_send_subscription ws = ws\<lparr>ws_sent := ws_sent ws @ [subscription ws]\<rparr>"

definition on_ws_handshake :: "bool \<Rightarrow> ws_handler \<Rightarrow> ws_handler" where
  "on_ws_handshake ok ws =
     (if \<not> ok then schedule_reconnect ws
      else let ws = ws\<lparr>ws_connected := True, ws_reconnect_delay_s := 1\<rparr>;
               ws = (if ws_subscribed_keys ws \<noteq> [] then do_send_subscription ws else ws)
           in ws\<lparr>ws_pending_op := Reading\<rparr>)"

section \<open>Subscriptions\<close>

fun index_keys :: "(string \<Rightarrow> u64) \<Rightarrow> string list \<Rightarrow> (u64 \<times> string) list \<Rightarrow> (u64 \<times> string) list" where
  "index_keys hash [] al = al"
| "index_keys hash (k # ks) al = index_keys hash ks (AList.update (hash k) k al)"

definition ws_subscribe :: "(string \<Rightarrow> u64) \<Rightarrow> string list \<Rightarrow> string \<Rightarrow> ws_handler \<Rightarrow> ws_handler" where
  "ws_subscribe hash keys mode ws =
     (let ws = ws\<lparr>ws_subscribed_keys := keys, ws_subscribe_mode := mode,
                  ws_token_to_key := index_keys hash keys (ws_token_to_key ws)\<rparr>
      in if ws_connected ws then do_send_subscription ws else ws)"

fun ws_unsubscribe :: "(string \<Rightarrow> u64) \<Rightarrow> string list \<Rightarrow> ws_handler \<Rightarrow> ws_handler" where
  "ws_unsubscribe hash [] ws = ws"
| "ws_unsubscribe hash (k # ks) ws = ws_unsubscribe hash ks
     (ws\<lparr>ws_subscribed_keys := filter (\<lambda>x. x \<noteq> k) (ws_subscribed_keys ws),
         ws_token_to_key := AList.delete (hash k) (ws_token_to_key ws)\<rparr>)"

definition stop_ws :: "ws_handler \<Rightarrow> ws_handler" where
  \<comment> \<open>the cancelled timer ends the wait; closing the stream ends the pending read later\<close>
  "stop_ws ws = (let ws = ws\<lparr>ws_stop := True\<rparr>
     in case ws_pending_op ws of Waiting _ \<Rightarrow> ws\<lparr>ws_pending_op := Ended\<rparr> | _ \<Rightarrow> ws)"

section \<open>Feed messages\<close>

record ltpc =
  lt_ltp :: dbl
  lt_cp :: dbl
  lt_ltt :: u64

record feed_message =
  fm_has_ltpc :: bool
  fm_ltpc :: ltpc
  fm_has_fullfeed :: bool
  fm_has_marketff :: bool
  fm_mff_ltpc :: ltpc
  fm_mff_vtt :: u64
  fm_mff_oi :: u64
  fm_mff_quote :: "(dbl \<times> u32) option"
  fm_has_firstlevel :: bool
  fm_fl_ltpc :: ltpc

definition first_bid :: "(dbl \<times> u32) option \<Rightarrow> tick \<Rightarrow> tick" where
  "first_bid q t = (case q of None \<Rightarrow> t
     | Some (p, n) \<Rightarrow> t\<lparr>tk_bid := (tk_bid t)[0 := (tk_bid t ! 0)\<lparr>dl_price := p, dl_qty := n\<rparr>]\<rparr>)"

definition feed_data :: "feed_message \<Rightarrow> tick \<Rightarrow> tick option" where
  \<comment> \<open>\<open>None\<close> when \<open>have_data\<close> stays false\<close>
  "feed_data fm t =
     (if fm_has_ltpc fm
      then Some (t\<lparr>tk_ltp := lt_ltp (fm_ltpc fm), tk_prev_close := lt_cp (fm_ltpc fm),
                   tk_exchange_ts_ns := lt_ltt (fm_ltpc fm) * 1000000\<rparr>)
      else if fm_has_fullfeed fm
      then if fm_has_marketff fm
           then Some (first_bid (fm_mff_quote fm)
             (t\<lparr>tk_ltp := lt_ltp (fm_mff_ltpc fm), tk_prev_close := lt_cp (fm_mff_ltpc fm),
                tk_volume := fm_mff_vtt fm, tk_oi := fm_mff_oi fm\<rparr>))
           else None
      else if fm_has_firstlevel fm
      then Some (t\<lparr>tk_ltp := lt_ltp (fm_fl_ltpc fm), tk_prev_close := lt_cp (fm_fl_ltpc fm)\<rparr>)
      else None)"

definition mark_staleness :: "u64 \<Rightarrow> tick \<Rightarrow> tick" where
  "mark_staleness recv_ts t =
     (if tk_exchange_ts_ns t > 0
      then let lat = i64 (sint recv_ts - sint (tk_exchange_ts_ns t))
           in t\<lparr>tk_latency_ns := lat, tk_is_stale := (lat > 5000000000)\<rparr>
      else t)"

definition feed_tick :: "(string \<Rightarrow> u64) \<Rightarrow> u64 \<Rightarrow> string \<times> feed_message \<Rightarrow> tick option" where
  "feed_tick hash recv_ts = (\<lambda>(key, fm).
     map_option (mark_staleness recv_ts)
       (feed_data fm (tick_init\<lparr>tk_token := hash key, tk_recv_ts_ns := recv_ts,
          tk_symbol := strncpy_buf MAX_SYMBOL_LEN key\<rparr>)))"

fun push_feeds :: "(string \<Rightarrow> u64) \<Rightarrow> u64 \<Rightarrow> (string \<times> feed_message) list \<Rightarrow> ws_handler \<times> tick spsc
    \<Rightarrow> ws_handler \<times> tick spsc" where
  "push_feeds hash recv_ts [] wq = wq"
| "push_feeds hash recv_ts (f # fs) (ws, q) = push_feeds hash recv_ts fs
     (case feed_tick hash recv_ts f of None \<Rightarrow> (ws, q)
      | Some t \<Rightarrow> (ws\<lparr>ws_msg_count := ws_msg_count ws + 1\<rparr>, snd (spsc_push t q)))"

definition decode_protobuf_frame :: "(string \<Rightarrow> u64) \<Rightarrow> u64 \<Rightarrow> (string \<times> feed_message) list option
    \<Rightarrow> ws_handler \<times> tick spsc \<Rightarrow> ws_handler \<times> tick spsc" where
  \<comment> \<open>the parsed frame; \<open>None\<close> when \<open>ParseFromArray\<close> fails\<close>
  "decode_protobuf_frame hash recv_ts feed = (\<lambda>(ws, q).
     case feed of None \<Rightarrow> (ws\<lparr>ws_decode_errors := ws_decode_errors ws + 1\<rparr>, q)
     | Some fs \<Rightarrow> push_feeds hash recv_ts fs (ws, q))"

definition on_frame :: "(string \<Rightarrow> u64) \<Rightarrow> u64 \<Rightarrow> (string \<times> feed_message) list option
    \<Rightarrow> ws_handler \<times> tick spsc \<Rightarrow> ws_handler \<times> tick spsc" where
  [simp]: "on_frame hash recv_ts feed = decode_protobuf_frame hash recv_ts feed"

definition is_connected :: "ws_handler \<Rightarrow> bool" where "is_connected ws = ws_connected ws"

definition total_messages :: "ws_handler \<Rightarrow> u64" where "total_messages ws = ws_msg_count ws"

definition decode_errors :: "ws_handler \<Rightarrow> u64" where "decode_errors ws = ws_decode_errors ws"

section \<open>Events\<close>

datatype ws_event =
  StartWs net_result
| Resolved bool
| Connected bool
| SniFailure
| TlsDone bool
| WsDone bool
| ReadFrame u64 "(string \<times> feed_message) list option"
| ReadClosed
| TimerFired net_result
| Subscribe "string list" string
| Unsubscribe "string list"
| StopWs

fun ws_step :: "(string \<Rightarrow> json option) \<Rightarrow> (string \<Rightarrow> u64) \<Rightarrow> ws_event \<Rightarrow> ws_handler \<times> tick spsc
    \<Rightarrow> ws_handler \<times> tick spsc" where
  \<comment> \<open>a completion of an operation that is not pending does not happen\<close>
  "ws_step parse hash (StartWs net) (ws, q) =
     (if ws_pending_op ws = NotStarted then (ws_start parse net ws, q) else (ws, q))"
| "ws_step parse hash (Resolved ok) (ws, q) =
     (if ws_pending_op ws = Resolving
      then (if ok then ws\<lparr>ws_pending_op := Connecting\<rparr> else schedule_reconnect ws, q) else (ws, q))"
| "ws_step parse hash (Connected ok) (ws, q) =
     (if ws_pending_op ws = Connecting
      then (if ok then ws\<lparr>ws_pending_op := TlsHandshaking\<rparr> else schedule_reconnect ws, q) else (ws, q))"
| "ws_step parse hash SniFailure (ws, q) =
     (if ws_pending_op ws = Connecting then (schedule_reconnect ws, q) else (ws, q))"
| "ws_step parse hash (TlsDone ok) (ws, q) =
     (if ws_pending_op ws = TlsHandshaking
      then (if ok then ws\<lparr>ws_pending_op := WsHandshaking\<rparr> else schedule_reconnect ws, q) else (ws, q))"
| "ws_step parse hash (WsDone ok) (ws, q) =
     (if ws_pending_op ws = WsHandshaking then (on_ws_handshake ok ws, q) else (ws, q))"
| "ws_step parse hash (ReadFrame recv_ts feed) (ws, q) =
     (if ws_pending_op ws \<noteq> Reading then (ws, q)
      else if ws_stop ws then (ws\<lparr>ws_pending_op := Ended\<rparr>, q)
      else on_frame hash recv_ts feed (ws, q))"
| "ws_step parse hash ReadClosed (ws, q) =
     (if ws_pending_op ws \<noteq> Reading then (ws, q)
      else if ws_stop ws then (ws\<lparr>ws_pending_op := Ended\<rparr>, q)
      else (schedule_reconnect (ws\<lparr>ws_connected := False\<rparr>), q))"
| "ws_step parse hash (TimerFired net) (ws, q) =
     (case ws_pending_op ws of Waiting _ \<Rightarrow> (do_reconnect parse net ws, q) | _ \<Rightarrow> (ws, q))"
| "ws_step parse hash (Subscribe keys mode) (ws, q) = (ws_subscribe hash keys mode ws, q)"
| "ws_step parse hash (Unsubscribe keys) (ws, q) = (ws_unsubscribe hash keys ws, q)"
| "ws_step parse hash StopWs (ws, q) = (stop_ws ws, q)"

fun ws_run :: "(string \<Rightarrow> json option) \<Rightarrow> (string \<Rightarrow> u64) \<Rightarrow> ws_event list \<Rightarrow> ws_handler \<times> tick spsc
    \<Rightarrow> ws_handler \<times> tick spsc" where
  "ws_run parse hash [] wq = wq"
| "ws_run parse hash (e # es) wq = ws_run parse hash es (ws_step parse hash e wq)"

end
