(* ===== verification/QF_Ws_Props.thy ===== *)
theory QF_Ws_Props
  imports QF_Ws QF_Config QF_Strategy_Manager
begin

text \<open>
  What the market-data handler guarantees: the reconnect delay doubles up to a minute, an unstopped
  handler can always get back to a subscribed connection, every message with data becomes one tick in
  the queue; and what it does not: stopping does not end a connection attempt, old ticks are not
  recognised as stale, and the ticks carry tokens no strategy has subscribed to.
\<close>

section \<open>The invariant\<close>

definition delays :: "int set" where "delays = {1, 2, 4, 8, 16, 32, 60}"

definition ws_inv :: "ws_handler \<Rightarrow> bool" where
  "ws_inv ws \<longleftrightarrow> ws_reconnect_delay_s ws \<in> delays
     \<and> (case ws_pending_op ws of Waiting d \<Rightarrow> d \<in> delays | _ \<Rightarrow> True)
     \<and> (ws_stop ws \<or> ws_pending_op ws \<noteq> Ended)
     \<and> (ws_stop ws \<or> (ws_connected ws \<longleftrightarrow> ws_pending_op ws = Reading))"

lemma double_delay: "d \<in> delays \<Longrightarrow> min (d * 2) MAX_RECONNECT_DELAY_S \<in> delays"
  by (auto simp: delays_def MAX_RECONNECT_DELAY_S_def)

lemma ws_inv_cong:
  "ws_inv ws \<Longrightarrow> ws_reconnect_delay_s ws' = ws_reconnect_delay_s ws \<Longrightarrow> ws_pending_op ws' = ws_pending_op ws
   \<Longrightarrow> ws_stop ws' = ws_stop ws \<Longrightarrow> ws_connected ws' = ws_connected ws \<Longrightarrow> ws_inv ws'"
  by (simp add: ws_inv_def)

lemma schedule_reconnect_inv:
  "ws_reconnect_delay_s ws \<in> delays \<Longrightarrow> ws_inv (schedule_reconnect ws)"
  by (simp add: ws_inv_def schedule_reconnect_def double_delay)

lemma do_authorize_inv:
  assumes "ws_inv ws" and "ws_pending_op ws \<noteq> Reading"
  shows "ws_inv (do_authorize parse net ws)"
proof -
  let ?w = "ws\<lparr>ws_wss_url := fetch_ws_url parse net\<rparr>"
  have 1: "ws_inv (schedule_reconnect ?w)"
    using assms by (intro schedule_reconnect_inv) (simp add: ws_inv_def)
  have 2: "ws_inv (?w\<lparr>ws_wss_host := h, ws_wss_path := p, ws_wss_port := ''443'', ws_pending_op := Resolving\<rparr>)" for h p
    using assms by (simp add: ws_inv_def)
  show ?thesis
  proof (cases "fetch_ws_url parse net = []")
    case True
    with 1 show ?thesis by (simp add: do_authorize_def)
  next
    case False
    with 1 2 show ?thesis by (simp add: do_authorize_def Let_def split: option.split)
  qed
qed

lemma push_feeds_frame:
  "push_feeds hash r fs (ws, q) = (ws', q') \<Longrightarrow> ws' = ws\<lparr>ws_msg_count := ws_msg_count ws'\<rparr>"
proof (induction fs arbitrary: ws q)
  case (Cons f fs)
  show ?case
  proof (cases "feed_tick hash r f")
    case None
    with Cons show ?thesis by simp
  next
    case (Some t)
    with Cons.prems have "push_feeds hash r fs (ws\<lparr>ws_msg_count := ws_msg_count ws + 1\<rparr>, snd (spsc_push t q)) = (ws', q')"
      by simp
    from Cons.IH [OF this] show ?thesis by simp
  qed
qed simp

lemma decode_frame:
  assumes "decode_protobuf_frame hash r feed (ws, q) = (ws', q')"
  shows "ws' = ws\<lparr>ws_msg_count := ws_msg_count ws', ws_decode_errors := ws_decode_errors ws'\<rparr>"
proof (cases feed)
  case (Some fs)
  then have "ws' = ws\<lparr>ws_msg_count := ws_msg_count ws'\<rparr>"
    using assms push_feeds_frame by (simp add: decode_protobuf_frame_def)
  then show ?thesis by (metis ws_handler.surjective ws_handler.update_convs(11))
qed (use assms in \<open>auto simp: decode_protobuf_frame_def\<close>)

lemma ws_unsubscribe_frame [simp]:
  "ws_reconnect_delay_s (ws_unsubscribe hash ks ws) = ws_reconnect_delay_s ws"
  "ws_pending_op (ws_unsubscribe hash ks ws) = ws_pending_op ws"
  "ws_stop (ws_unsubscribe hash ks ws) = ws_stop ws"
  "ws_connected (ws_unsubscribe hash ks ws) = ws_connected ws"
  "ws_sent (ws_unsubscribe hash ks ws) = ws_sent ws"
  by (induction ks arbitrary: ws) simp_all

lemma ws_step_inv:
  assumes inv: "ws_inv ws"
  shows "ws_inv (fst (ws_step parse hash e (ws, q)))"
proof -
  have d: "ws_reconnect_delay_s ws \<in> delays" using inv by (simp add: ws_inv_def)
  note sr = schedule_reconnect_inv [OF d]
  have 1: "(1::int) \<in> delays" by (simp add: delays_def)
  show ?thesis
  proof (cases e)
    case (ReadFrame r feed)
    obtain ws' q' where f: "decode_protobuf_frame hash r feed (ws, q) = (ws', q')" by fastforce
    have w: "ws_inv (ws\<lparr>ws_msg_count := a, ws_decode_errors := b\<rparr>)" for a b
      using inv by (rule ws_inv_cong) simp_all
    show ?thesis
    proof (cases "ws_pending_op ws = Reading \<and> \<not> ws_stop ws")
      case True
      then have "fst (ws_step parse hash e (ws, q)) = ws'" using f ReadFrame by simp
      then show ?thesis using w by (simp only: decode_frame [OF f, symmetric] cong: if_cong) (metis decode_frame [OF f])
    next
      case False
      with inv ReadFrame show ?thesis by (auto simp: ws_inv_def)
    qed
  next
    case (Unsubscribe ks)
    then show ?thesis using inv by (auto intro: ws_inv_cong)
  next
    case (TimerFired net)
    then show ?thesis
      using inv do_authorize_inv [OF inv] by (cases "ws_pending_op ws") simp_all
  next
    case (StartWs net)
    then show ?thesis using inv do_authorize_inv [OF inv] by simp
  next
    case ReadClosed
    have "ws_inv (schedule_reconnect (ws\<lparr>ws_connected := False\<rparr>))"
      using d by (intro schedule_reconnect_inv) simp
    then show ?thesis using ReadClosed inv by (auto simp: ws_inv_def)
  next
    case (WsDone ok)
    show ?thesis
    proof (cases "ws_pending_op ws = WsHandshaking")
      case True
      have "ws_inv (on_ws_handshake True ws)"
        using 1 by (simp add: ws_inv_def on_ws_handshake_def do_send_subscription_def Let_def)
      then show ?thesis using WsDone True sr by (cases ok) (simp_all add: on_ws_handshake_def)
    qed (use WsDone inv in simp)
  next
    case (Subscribe keys mode)
    then show ?thesis
      using inv by (auto simp: ws_subscribe_def do_send_subscription_def Let_def intro: ws_inv_cong)
  next
    case StopWs
    then show ?thesis using inv by (simp add: ws_inv_def stop_ws_def Let_def split: ws_pending.split)
  qed (use inv sr in \<open>auto simp: ws_inv_def\<close>)
qed

lemma ws_run_inv: "ws_inv (fst wq) \<Longrightarrow> ws_inv (fst (ws_run parse hash es wq))"
proof (induction es arbitrary: wq)
  case (Cons e es)
  have "ws_inv (fst (ws_step parse hash e wq))"
    using ws_step_inv [of "fst wq"] Cons.prems by (cases wq) simp
  then show ?case using Cons.IH by simp
qed simp

lemma ws_inv_new: "ws_inv ws_new"
  by (simp add: ws_inv_def ws_new_def delays_def)

text \<open>
  C27: in every run of the handler the delay before a reconnect is one of 1, 2, 4, 8, 16, 32 and 60
  seconds; until it is stopped, an operation is pending, and it counts as connected exactly while it reads.
\<close>

lemma ws_invariant:
  assumes "ws = fst (ws_run parse hash es (ws_new, q))"
  shows "ws_reconnect_delay_s ws \<in> {1, 2, 4, 8, 16, 32, 60}
     \<and> (ws_pending_op ws = Waiting d \<longrightarrow> d \<in> {1, 2, 4, 8, 16, 32, 60})
     \<and> (\<not> ws_stop ws \<longrightarrow> ws_pending_op ws \<noteq> Ended \<and> (ws_connected ws \<longleftrightarrow> ws_pending_op ws = Reading))"
proof -
  have "ws_inv ws" unfolding assms by (rule ws_run_inv) (simp add: ws_inv_new)
  then show ?thesis unfolding ws_inv_def delays_def by (auto split: ws_pending.splits)
qed

lemma ws_invariant_witness:
  "ws_reconnect_delay_s (fst (ws_run (\<lambda>_. None) (\<lambda>_. 0) [StartWs SniFailed, TimerFired SniFailed]
     (ws_new, spsc_new 4 tick_init))) \<in> {1, 2, 4, 8, 16, 32, 60}"
  by (rule ws_invariant [OF refl, THEN conjunct1])

section \<open>Backoff\<close>

lemma failed_fetch: "fetch_ws_url parse (ResolveFailed e) = []"
  by (simp add: fetch_ws_url_def)

lemma failed_authorize: "do_authorize parse (ResolveFailed e) ws = schedule_reconnect (ws\<lparr>ws_wss_url := []\<rparr>)"
  by (simp add: do_authorize_def failed_fetch)

lemma timer_failures:
  assumes "\<not> ws_stop ws" and "ws_pending_op ws = Waiting d" and "ws_reconnect_delay_s ws = min (2 * d) 60"
    and "1 \<le> d" and "d \<le> 60"
  shows "ws_pending_op (fst (ws_run parse hash (replicate n (TimerFired (ResolveFailed e))) (ws, q)))
     = Waiting (min (2 ^ n * d) 60)"
  using assms
proof (induction n arbitrary: ws d)
  case (Suc n)
  let ?w = "schedule_reconnect (ws\<lparr>ws_wss_url := []\<rparr>)"
  have "ws_pending_op (fst (ws_run parse hash (replicate n (TimerFired (ResolveFailed e))) (?w, q)))
      = Waiting (min (2 ^ n * min (2 * d) 60) 60)"
    using Suc.prems by (intro Suc.IH) (auto simp: schedule_reconnect_def MAX_RECONNECT_DELAY_S_def)
  moreover have "min (2 ^ n * min (2 * d) 60) 60 = min (2 ^ Suc n * d) 60"
  proof (cases "2 * d \<le> 60")
    case False
    have "(1::int) \<le> 2 ^ n" by simp
    then have "1 * 60 \<le> 2 ^ n * (2 * d)" using False by (intro mult_mono) simp_all
    moreover have "2 ^ n * (2 * d) = 2 ^ Suc n * d" by simp
    ultimately have "60 \<le> 2 ^ Suc n * d" by linarith
    moreover have "(60::int) \<le> 2 ^ n * 60" by simp
    ultimately show ?thesis using False by simp
  qed (simp add: mult.assoc mult.commute)
  ultimately show ?case using Suc.prems(2) by (simp add: failed_authorize)
qed simp

text \<open>
  While the feed cannot be reached, the handler waits \<open>min (2 ^ n) 60\<close> seconds after the \<open>n\<close>-th
  failed attempt, counted from 0.
\<close>

lemma reconnect_backoff:
  "ws_pending_op (fst (ws_run parse hash
     (StartWs (ResolveFailed e) # replicate n (TimerFired (ResolveFailed e))) (ws_new, q)))
   = Waiting (min (2 ^ n) 60)"
proof -
  have "ws_pending_op (fst (ws_run parse hash (replicate n (TimerFired (ResolveFailed e)))
      (schedule_reconnect (ws_new\<lparr>ws_wss_url := []\<rparr>), q))) = Waiting (min (2 ^ n * 1) 60)"
    by (rule timer_failures) (simp_all add: schedule_reconnect_def ws_new_def MAX_RECONNECT_DELAY_S_def)
  then show ?thesis by (simp add: failed_authorize) (simp add: ws_new_def)
qed

section \<open>Getting connected\<close>

lemma wss_search_here:
  assumes "host \<noteq> []" and "CHR ''/'' \<notin> set host" and "path = CHR ''/'' # p"
    and "CHR 0x0A \<notin> set path" and "CHR 0x0D \<notin> set path"
  shows "wss_search (''wss://'' @ host @ path) = Some (host, path)"
proof -
  have "takeWhile (\<lambda>c. c \<noteq> CHR ''/'') (host @ path) = host"
    using assms(2,3) by (subst takeWhile_append2) auto
  then show ?thesis using assms by (simp add: wss_match_def Let_def)
qed

fun completions :: "net_result \<Rightarrow> ws_pending \<Rightarrow> ws_event list" where
  \<comment> \<open>the events that lead from a pending operation to a connection\<close>
  "completions net NotStarted = [StartWs net, Resolved True, Connected True, TlsDone True, WsDone True]"
| "completions net (Waiting d) = [TimerFired net, Resolved True, Connected True, TlsDone True, WsDone True]"
| "completions net Resolving = [Resolved True, Connected True, TlsDone True, WsDone True]"
| "completions net Connecting = [Connected True, TlsDone True, WsDone True]"
| "completions net TlsHandshaking = [TlsDone True, WsDone True]"
| "completions net WsHandshaking = [WsDone True]"
| "completions net _ = []"

lemma completions_connect:
  assumes "\<not> ws_stop ws" and "ws_pending_op ws \<notin> {Reading, Ended}"
    and "fetch_ws_url parse net = url" and "wss_search url = Some hp"
    and "ws' = fst (ws_run parse hash (completions net (ws_pending_op ws)) (ws, q))"
  shows "ws_connected ws' \<and> \<not> ws_stop ws' \<and> ws_subscribed_keys ws' = ws_subscribed_keys ws
     \<and> ws_reconnect_delay_s ws' = 1 \<and> (ws_subscribed_keys ws = [] \<or> last (ws_sent ws') = subscription ws')"
proof -
  have url: "url \<noteq> []" using assms(4) by auto
  obtain h p where hp: "hp = (h, p)" by (cases hp)
  show ?thesis
    using assms(1,2) unfolding assms(5)
    by (cases "ws_pending_op ws") (simp_all add: on_ws_handshake_def do_send_subscription_def Let_def subscription_def
        do_authorize_def assms(3,4) hp url)
qed

text \<open>
  C26: an unstopped handler can always get back on the air. From every state it can reach there are at
  most five completions, with an authorisation that returns a usable address, after which it is
  connected, its backoff is reset, and the keys it had are subscribed again.
\<close>

lemma ws_can_reconnect:
  assumes "(ws, q') = ws_run parse hash es (ws_new, q)" and "\<not> ws_stop ws"
    and "fetch_ws_url parse net = url" and "wss_search url = Some hp"
  shows "\<exists>es'. length es' \<le> 5 \<and> (let ws' = fst (ws_run parse hash es' (ws, q')) in
     ws_connected ws' \<and> \<not> ws_stop ws' \<and> ws_subscribed_keys ws' = ws_subscribed_keys ws
     \<and> (ws_connected ws \<or> ws_reconnect_delay_s ws' = 1
          \<and> (ws_subscribed_keys ws = [] \<or> last (ws_sent ws') = subscription ws')))"
proof (cases "ws_connected ws")
  case True
  then show ?thesis using assms(2) by (intro exI [of _ "[]"]) simp
next
  case False
  have "ws_inv (fst (ws_run parse hash es (ws_new, q)))" by (rule ws_run_inv) (simp add: ws_inv_new)
  then have "ws_inv ws" using assms(1) by (metis fst_conv)
  then have "ws_pending_op ws \<notin> {Reading, Ended}" using False assms(2) by (auto simp: ws_inv_def)
  from completions_connect [OF assms(2) this assms(3,4) refl, of hash q']
  show ?thesis
    by (intro exI [of _ "completions net (ws_pending_op ws)"]) (cases "ws_pending_op ws"; simp add: Let_def)
qed

definition ok_parse :: "string \<Rightarrow> json option" where
  "ok_parse s = Some (JObj [(''data'', JObj [(''authorizedRedirectUri'', JStr ''wss://h/p'')])])"

lemma ws_can_reconnect_witness:
  "\<exists>es'. length es' \<le> 5 \<and> ws_connected (fst (ws_run ok_parse (\<lambda>_. 0) es'
     (ws_run ok_parse (\<lambda>_. 0) [StartWs SniFailed, Subscribe [''K''] ''full''] (ws_new, spsc_new 4 tick_init))))"
proof -
  let ?es = "[StartWs SniFailed, Subscribe [''K''] ''full'']"
  obtain ws q' where w: "(ws, q') = ws_run ok_parse (\<lambda>_. 0) ?es (ws_new, spsc_new 4 tick_init)" by (metis surj_pair)
  then have s: "\<not> ws_stop ws"
    by (simp add: ws_new_def do_authorize_def fetch_ws_url_def schedule_reconnect_def ws_subscribe_def Let_def)
  have u: "fetch_ws_url ok_parse (Response 200 ''{}'') = ''wss://h/p''"
    by (simp add: fetch_ws_url_def ok_parse_def)
  have m: "wss_search ''wss://h/p'' = Some (''h'', ''/p'')"
    by (simp add: wss_match_def)
  from ws_can_reconnect [OF w s u m] show ?thesis unfolding w [symmetric] Let_def by blast
qed

text \<open>
  Stopping does not end a connection attempt. A handler stopped between the resolver and the
  handshake goes on and reports itself connected afterwards.
\<close>

lemma stop_does_not_stop_connecting:
  assumes "ws_pending_op ws = Resolving"
  shows "ws_stop (fst (ws_run parse hash [StopWs, Resolved True, Connected True, TlsDone True, WsDone True] (ws, q)))
     \<and> ws_connected (fst (ws_run parse hash [StopWs, Resolved True, Connected True, TlsDone True, WsDone True] (ws, q)))"
  using assms by (simp add: stop_ws_def on_ws_handshake_def do_send_subscription_def Let_def)

lemma stop_does_not_stop_connecting_witness:
  "ws_connected (fst (ws_run (\<lambda>_. None) (\<lambda>_. 0) [StopWs, Resolved True, Connected True, TlsDone True, WsDone True]
     (ws_new\<lparr>ws_pending_op := Resolving\<rparr>, spsc_new 4 tick_init)))"
  by (rule stop_does_not_stop_connecting [THEN conjunct2]) simp

text \<open>Unsubscribing tells the exchange nothing: no message is sent, in whatever state it happens.\<close>

lemma unsubscribe_sends_nothing:
  "ws_sent (fst (ws_step parse hash (Unsubscribe keys) (ws, q))) = ws_sent ws"
  by simp

section \<open>From messages to ticks\<close>

definition feed_ticks :: "(string \<Rightarrow> u64) \<Rightarrow> u64 \<Rightarrow> (string \<times> feed_message) list \<Rightarrow> tick list" where
  "feed_ticks hash r fs = map the (filter (\<lambda>t. t \<noteq> None) (map (feed_tick hash r) fs))"

lemma push_feeds_room:
  "spsc_inv k q \<Longrightarrow> length (spsc_items q) + length (feed_ticks hash r fs) \<le> 2 ^ k - 1 \<Longrightarrow>
   push_feeds hash r fs (ws, q) = (ws', q') \<Longrightarrow>
   spsc_inv k q' \<and> spsc_items q' = spsc_items q @ feed_ticks hash r fs
     \<and> ws_msg_count ws' = ws_msg_count ws + of_nat (length (feed_ticks hash r fs))"
proof (induction fs arbitrary: ws q)
  case (Cons f fs)
  show ?case
  proof (cases "feed_tick hash r f")
    case None
    with Cons show ?thesis by (simp add: feed_ticks_def)
  next
    case (Some t)
    then have ft: "feed_ticks hash r (f # fs) = t # feed_ticks hash r fs" by (simp add: feed_ticks_def)
    have "length (spsc_items q) < 2 ^ k - 1" using Cons.prems(2) ft by simp
    from spsc_push_room [OF Cons.prems(1) this, of t] obtain q1
      where q1: "spsc_push t q = (True, q1)" "spsc_inv k q1" "spsc_items q1 = spsc_items q @ [t]" by blast
    have "push_feeds hash r fs (ws\<lparr>ws_msg_count := ws_msg_count ws + 1\<rparr>, q1) = (ws', q')"
      using Cons.prems(3) Some q1(1) by simp
    from Cons.IH [OF q1(2) _ this] Cons.prems(2) ft q1(3) show ?thesis by simp
  qed
qed (simp add: feed_ticks_def)

text \<open>
  A frame becomes ticks one for one. With room in the queue every message that carries data is
  appended as one tick, in the frame's order, and counted; messages without data leave no trace.
\<close>

lemma frame_becomes_ticks:
  assumes "spsc_inv k q" and "length (spsc_items q) + length (feed_ticks hash r fs) \<le> 2 ^ k - 1"
    and "decode_protobuf_frame hash r (Some fs) (ws, q) = (ws', q')"
  shows "spsc_inv k q' \<and> spsc_items q' = spsc_items q @ feed_ticks hash r fs
     \<and> ws_msg_count ws' = ws_msg_count ws + of_nat (length (feed_ticks hash r fs))"
  using push_feeds_room [OF assms(1,2)] assms(3) by (simp add: decode_protobuf_frame_def)

definition ltp_message :: "dbl \<Rightarrow> u64 \<Rightarrow> feed_message" where
  "ltp_message price ltt = \<lparr>fm_has_ltpc = True, fm_ltpc = \<lparr>lt_ltp = price, lt_cp = price, lt_ltt = ltt\<rparr>,
     fm_has_fullfeed = False, fm_has_marketff = False, fm_mff_ltpc = \<lparr>lt_ltp = 0, lt_cp = 0, lt_ltt = 0\<rparr>,
     fm_mff_vtt = 0, fm_mff_oi = 0, fm_mff_quote = None, fm_has_firstlevel = False,
     fm_fl_ltpc = \<lparr>lt_ltp = 0, lt_cp = 0, lt_ltt = 0\<rparr>\<rparr>"

lemma frame_becomes_ticks_witness:
  "length (spsc_items (snd (decode_protobuf_frame (\<lambda>_. 7) 1 (Some [(''K'', ltp_message 100 0)])
     (ws_new, spsc_new (2 ^ 2) tick_init)))) = 1"
proof -
  obtain ws' q' where d: "decode_protobuf_frame (\<lambda>_. 7) 1 (Some [(''K'', ltp_message 100 0)])
     (ws_new, spsc_new (2 ^ 2) tick_init) = (ws', q')" by fastforce
  have i: "spsc_inv 2 (spsc_new (2 ^ 2) tick_init)" by (rule spsc_inv_new) simp
  have l: "length (feed_ticks (\<lambda>_. 7) 1 [(''K'', ltp_message 100 0)]) = 1"
    by (simp add: feed_ticks_def feed_tick_def feed_data_def ltp_message_def)
  then have "length (spsc_items (spsc_new (2 ^ 2) tick_init))
      + length (feed_ticks (\<lambda>_. 7) 1 [(''K'', ltp_message 100 0)]) \<le> 2 ^ 2 - 1" by simp
  from frame_becomes_ticks [OF i this d] l show ?thesis unfolding d by simp
qed

section \<open>Staleness\<close>

lemma sint_small: "uint (x :: u64) < 2 ^ 63 \<Longrightarrow> sint x = uint x"
  unfolding sint_uint by (rule signed_take_bit_int_eq_self) (simp_all add: order_trans [OF _ uint_ge_0])

text \<open>
  A tick is marked stale only when the steady clock, which counts from the start of the machine,
  shows five seconds more than the exchange's time of day. While the machine has been up for less time
  than has passed since 1970, no tick is ever stale, however old it is.
\<close>

lemma old_ticks_not_stale:
  assumes "feed_tick hash recv_ts (key, fm) = Some t"
    and "uint recv_ts < 2 ^ 63" and "uint (tk_exchange_ts_ns t) < 2 ^ 63"
    and "tk_exchange_ts_ns t = 0 \<or> uint recv_ts \<le> uint (tk_exchange_ts_ns t) + 5000000000"
  shows "\<not> tk_is_stale t"
proof -
  obtain t0 where t0: "feed_data fm (tick_init\<lparr>tk_token := hash key, tk_recv_ts_ns := recv_ts,
      tk_symbol := strncpy_buf MAX_SYMBOL_LEN key\<rparr>) = Some t0" "t = mark_staleness recv_ts t0"
    using assms(1) by (auto simp: feed_tick_def)
  have s0: "\<not> tk_is_stale t0"
    using t0(1) by (auto simp: feed_data_def first_bid_def tick_init_def split: if_splits option.splits)
  have e: "tk_exchange_ts_ns t = tk_exchange_ts_ns t0" by (simp add: t0(2) mark_staleness_def Let_def)
  show ?thesis
  proof (cases "tk_exchange_ts_ns t0 > 0")
    case True
    have "sint recv_ts = uint recv_ts" "sint (tk_exchange_ts_ns t0) = uint (tk_exchange_ts_ns t0)"
      using assms(2,3) e by (simp_all add: sint_small)
    moreover have "i64 (uint recv_ts - uint (tk_exchange_ts_ns t0)) = uint recv_ts - uint (tk_exchange_ts_ns t0)"
    proof (rule i64_id)
      have u: "uint recv_ts < 9223372036854775808" "uint (tk_exchange_ts_ns t0) < 9223372036854775808"
        using assms(2,3) e by simp_all
      show "- 9223372036854775808 \<le> uint recv_ts - uint (tk_exchange_ts_ns t0)"
        using u uint_ge_0 [of recv_ts] by linarith
      show "uint recv_ts - uint (tk_exchange_ts_ns t0) < 9223372036854775808"
        using u uint_ge_0 [of "tk_exchange_ts_ns t0"] by linarith
    qed
    ultimately show ?thesis
      using True assms(4) e by (auto simp: t0(2) mark_staleness_def Let_def)
  qed (simp add: t0(2) mark_staleness_def s0)
qed

lemma old_ticks_not_stale_witness:
  \<comment> \<open>ten days of uptime, a trade of January 2001\<close>
  "\<not> tk_is_stale (the (feed_tick (\<lambda>_. 7) 864000000000000 (''K'', ltp_message 100 978307200000)))"
proof -
  let ?t = "the (feed_tick (\<lambda>_. 7) 864000000000000 (''K'', ltp_message 100 978307200000))"
  have s: "feed_tick (\<lambda>_. 7) 864000000000000 (''K'', ltp_message 100 978307200000) = Some ?t"
    by (simp add: feed_tick_def feed_data_def ltp_message_def)
  have e: "tk_exchange_ts_ns ?t = 978307200000000000"
    by (simp add: feed_tick_def feed_data_def ltp_message_def mark_staleness_def Let_def)
  show ?thesis by (rule old_ticks_not_stale [OF s]) (simp_all add: e)
qed

section \<open>Tokens\<close>

text \<open>
  The ticks of an instrument a strategy is configured for carry the hash of the decimal token as
  their token. A strategy with that one instrument is sent its candles only if the hash of the token's
  digits is the token itself.
\<close>

lemma configured_token_not_hashed:
  assumes "ec_strategies cfg = [scfg]" and "sc_instruments scfg = [tok]"
    and "feed_tick hash r (hd (instrument_keys cfg), fm) = Some t"
  shows "subscribed scfg (tk_token t) \<longleftrightarrow> hash (dec (unat tok)) = tok"
proof -
  have "tk_token t = hash (dec (unat tok))"
    using assms by (auto simp: feed_tick_def instrument_keys_def feed_data_def first_bid_def mark_staleness_def Let_def
        split: if_splits option.splits)
  then show ?thesis using assms(2) by (auto simp: subscribed_def)
qed

lemma configured_token_not_hashed_witness:
  "\<not> subscribed (strategy_config_init\<lparr>sc_instruments := [5]\<rparr>)
     (tk_token (the (feed_tick (\<lambda>s. 5381 + of_nat (length s) :: u64) 1
        (hd (instrument_keys (engine_config_init\<lparr>ec_strategies := [strategy_config_init\<lparr>sc_instruments := [5]\<rparr>]\<rparr>)), ltp_message 100 0))))"
proof -
  let ?s = "strategy_config_init\<lparr>sc_instruments := [5]\<rparr>" and ?h = "\<lambda>s. 5381 + of_nat (length s) :: u64"
  let ?c = "engine_config_init\<lparr>ec_strategies := [?s]\<rparr>"
  obtain t where t: "feed_tick ?h 1 (hd (instrument_keys ?c), ltp_message 100 0) = Some t"
    by (simp add: feed_tick_def feed_data_def ltp_message_def)
  have "length (dec 5) = 1" by (subst dec.simps) simp
  then have "\<not> ?h (dec (unat (5::u64))) = 5" by simp
  then show ?thesis using configured_token_not_hashed [of ?c ?s 5, OF _ _ t] by (simp add: t)
qed

end
