(* ===== verification/QF_Pipeline.thy ===== *)
theory QF_Pipeline
  imports QF_Ws_Props QF_Strategy_Props QF_Normalizer "HOL-Library.Sublist"
begin

text \<open>
  The market data from the socket to the strategies: the WebSocket handler fills the queue of the
  normalizer, the normalizer pushes to the disruptor and to the candle builder, each strategy thread reads
  the disruptor at its own pace and \<open>on_candle\<close> is called from the normalizer's thread. The four kinds of
  thread interleave freely, in steps that are one completion of the network, one turn of the normalizer
  or one turn of a strategy.

  \<open>traced\<close> wraps a strategy: it records what its callbacks are given and otherwise behaves like the
  strategy, whatever that does to the rest of the engine. A statement on traces is one on every strategy.
\<close>

section \<open>Strategies that keep a trace\<close>

datatype seen = SawStart | SawStop | SawTick tick | SawCandle candle

fun ticks_seen :: "seen list \<Rightarrow> tick list" where
  "ticks_seen [] = []"
| "ticks_seen (SawTick t # tr) = t # ticks_seen tr"
| "ticks_seen (_ # tr) = ticks_seen tr"

fun candles_seen :: "seen list \<Rightarrow> candle list" where
  "candles_seen [] = []"
| "candles_seen (SawCandle c # tr) = c # candles_seen tr"
| "candles_seen (_ # tr) = candles_seen tr"

lemma seen_append [simp]:
  "ticks_seen (tr @ tr') = ticks_seen tr @ ticks_seen tr'" "candles_seen (tr @ tr') = candles_seen tr @ candles_seen tr'"
  by (induction tr rule: ticks_seen.induct) simp_all

definition noting :: "seen list \<Rightarrow> ('s \<Rightarrow> 'w \<Rightarrow> ('s, 'w) outcome) \<Rightarrow> 's \<times> seen list \<Rightarrow> 'w
    \<Rightarrow> ('s \<times> seen list, 'w) outcome" where
  "noting xs call st w = (let (returned, i, w) = call (fst st) w in (returned, (i, snd st @ xs), w))"

definition traced :: "('s, 'w) plugin \<Rightarrow> ('s \<times> seen list, 'w) plugin" where
  "traced pg = \<lparr>pg_set_strategy_id = (\<lambda>sid st. (pg_set_strategy_id pg sid (fst st), snd st)),
     pg_on_start = (\<lambda>cx. noting [SawStart] (pg_on_start pg cx)),
     pg_on_stop = (\<lambda>cx. noting [SawStop] (pg_on_stop pg cx)),
     pg_on_tick = (\<lambda>cx t. noting [SawTick t] (pg_on_tick pg cx t)),
     pg_on_candle = (\<lambda>cx c. noting [SawCandle c] (pg_on_candle pg cx c)),
     pg_on_order_fill = (\<lambda>cx f. noting [] (pg_on_order_fill pg cx f)),
     pg_on_kill_signal = (\<lambda>cx. noting [] (pg_on_kill_signal pg cx)),
     pg_update_params = (\<lambda>cx p. noting [] (pg_update_params pg cx p))\<rparr>"

lemma noting_trace [simp]: "snd (fst (snd (noting xs call st w))) = snd st @ xs"
  by (simp add: noting_def split_beta)

section \<open>The pipeline\<close>

record ('s, 'w) pipeline =
  pp_ws :: ws_handler
  pp_normalizer :: normalizer
  pp_manager :: "'s strategy_manager"
  pp_world :: 'w

fun dispatch_all :: "('s, 'w) plugin \<Rightarrow> candle list \<Rightarrow> 's strategy_manager \<times> 'w \<Rightarrow> 's strategy_manager \<times> 'w" where
  "dispatch_all pg [] mw = mw"
| "dispatch_all pg (c # cs) mw = dispatch_all pg cs (dispatch_candle pg c mw)"

definition candles_out :: "normalizer \<Rightarrow> candle list" where
  "candles_out nm = map snd (cb_out (nm_candle_builder nm))"

definition normalizer_step :: "('s, 'w) plugin \<Rightarrow> ('s, 'w) pipeline \<Rightarrow> ('s, 'w) pipeline" where
  \<comment> \<open>a turn of the normalizer: the candles it closes are dispatched in its thread\<close>
  "normalizer_step pg st =
     (let nm = pp_normalizer st; nm' = normalizer_iter nm;
          (m, w) = dispatch_all pg (drop (length (candles_out nm)) (candles_out nm')) (pp_manager st, pp_world st)
      in st\<lparr>pp_normalizer := nm', pp_manager := m, pp_world := w\<rparr>)"

definition network_step :: "(string \<Rightarrow> json option) \<Rightarrow> (string \<Rightarrow> u64) \<Rightarrow> ws_event \<Rightarrow> ('s, 'w) pipeline
    \<Rightarrow> ('s, 'w) pipeline" where
  \<comment> \<open>the queue of the handler is the raw queue of the normalizer\<close>
  "network_step parse hash e st =
     (let nm = pp_normalizer st; (ws, q) = ws_step parse hash e (pp_ws st, nm_raw_queue nm)
      in st\<lparr>pp_ws := ws, pp_normalizer := nm\<lparr>nm_raw_queue := q\<rparr>\<rparr>)"

definition strategy_step :: "('s, 'w) plugin \<Rightarrow> nat \<Rightarrow> ('s, 'w) pipeline \<Rightarrow> ('s, 'w) pipeline" where
  "strategy_step pg i st =
     (let (m, w) = run_strategy_thread pg (nm_disruptor (pp_normalizer st)) i (pp_manager st, pp_world st)
      in st\<lparr>pp_manager := m, pp_world := w\<rparr>)"

datatype pipe_event = Network ws_event | Normalize | StrategyTurn nat

fun pipe_step :: "(string \<Rightarrow> json option) \<Rightarrow> (string \<Rightarrow> u64) \<Rightarrow> ('s, 'w) plugin \<Rightarrow> pipe_event
    \<Rightarrow> ('s, 'w) pipeline \<Rightarrow> ('s, 'w) pipeline" where
  "pipe_step parse hash pg (Network e) st = network_step parse hash e st"
| "pipe_step parse hash pg Normalize st = normalizer_step pg st"
| "pipe_step parse hash pg (StrategyTurn i) st = strategy_step pg i st"

fun pipe_run :: "(string \<Rightarrow> json option) \<Rightarrow> (string \<Rightarrow> u64) \<Rightarrow> ('s, 'w) plugin \<Rightarrow> pipe_event list
    \<Rightarrow> ('s, 'w) pipeline \<Rightarrow> ('s, 'w) pipeline" where
  "pipe_run parse hash pg [] st = st"
| "pipe_run parse hash pg (e # es) st = pipe_run parse hash pg es (pipe_step parse hash pg e st)"

section \<open>What has been received, and who keeps up\<close>

definition frame_ticks :: "(string \<Rightarrow> u64) \<Rightarrow> ws_handler \<Rightarrow> ws_event \<Rightarrow> tick list" where
  \<comment> \<open>the ticks of a frame that is read\<close>
  "frame_ticks hash ws e = (case e of
       ReadFrame recv_ts (Some fs) \<Rightarrow>
         if ws_pending_op ws = Reading \<and> \<not> ws_stop ws then feed_ticks hash recv_ts fs else []
     | _ \<Rightarrow> [])"

fun event_ticks :: "(string \<Rightarrow> u64) \<Rightarrow> pipe_event \<Rightarrow> ('s, 'w) pipeline \<Rightarrow> tick list" where
  "event_ticks hash (Network e) st = frame_ticks hash (pp_ws st) e"
| "event_ticks hash _ st = []"

fun received_ticks :: "(string \<Rightarrow> json option) \<Rightarrow> (string \<Rightarrow> u64) \<Rightarrow> ('s, 'w) plugin \<Rightarrow> pipe_event list
    \<Rightarrow> ('s, 'w) pipeline \<Rightarrow> tick list" where
  "received_ticks parse hash pg [] st = []"
| "received_ticks parse hash pg (e # es) st =
     event_ticks hash e st @ received_ticks parse hash pg es (pipe_step parse hash pg e st)"

fun in_time :: "(string \<Rightarrow> u64) \<Rightarrow> pipe_event \<Rightarrow> ('s, 'w) pipeline \<Rightarrow> bool" where
  \<comment> \<open>the queue has room for a frame, and a strategy reads before its next tick is overwritten\<close>
  "in_time hash (Network e) st \<longleftrightarrow>
     length (spsc_items (nm_raw_queue (pp_normalizer st))) + length (frame_ticks hash (pp_ws st) e) \<le> 65535"
| "in_time hash Normalize st \<longleftrightarrow> True"
| "in_time hash (StrategyTurn i) st \<longleftrightarrow> (i < length (sm_strategies (pp_manager st)) \<longrightarrow>
     lag (ld_disruptor_seq (sm_strategies (pp_manager st) ! i)) (nm_disruptor (pp_normalizer st)) \<le> int BUFFER_SIZE)"

fun keeps_up :: "(string \<Rightarrow> json option) \<Rightarrow> (string \<Rightarrow> u64) \<Rightarrow> ('s, 'w) plugin \<Rightarrow> pipe_event list
    \<Rightarrow> ('s, 'w) pipeline \<Rightarrow> bool" where
  "keeps_up parse hash pg [] st \<longleftrightarrow> True"
| "keeps_up parse hash pg (e # es) st \<longleftrightarrow> in_time hash e st \<and> keeps_up parse hash pg es (pipe_step parse hash pg e st)"

section \<open>The invariant\<close>

definition wanted :: "strategy_config \<Rightarrow> candle list \<Rightarrow> candle list" where
  "wanted cfg cs = filter (\<lambda>c. subscribed cfg (cd_token c)) cs"

definition up_to_date :: "tick list \<Rightarrow> candle list \<Rightarrow> ('s \<times> seen list) loaded_strategy \<Rightarrow> bool" where
  \<comment> \<open>a strategy has been given a prefix of the ticks and, while it runs, every candle it wants\<close>
  "up_to_date V cs s \<longleftrightarrow>
     (\<exists>n \<le> length V. ld_disruptor_seq s = int n - 1 \<and> ticks_seen (snd (ld_instance s)) = take n V)
     \<and> (ld_running s \<longrightarrow> candles_seen (snd (ld_instance s)) = wanted (ld_config s) cs)"

definition pipe_inv :: "tick list \<Rightarrow> tick list \<Rightarrow> ('s \<times> seen list, 'w) pipeline \<Rightarrow> bool" where
  \<comment> \<open>\<open>rc\<close>: the ticks received, \<open>hn\<close>: those the normalizer has handled\<close>
  "pipe_inv rc hn st \<longleftrightarrow> spsc_inv 16 (nm_raw_queue (pp_normalizer st))
     \<and> rc = hn @ spsc_items (nm_raw_queue (pp_normalizer st))
     \<and> disr_inv (filter valid_tick hn) (nm_disruptor (pp_normalizer st))
     \<and> list_all (up_to_date (filter valid_tick hn) (candles_out (pp_normalizer st))) (sm_strategies (pp_manager st))"

lemma up_to_date_more:
  assumes "up_to_date V cs s"
  shows "up_to_date (V @ V') cs s"
proof -
  obtain n where "n \<le> length V" "ld_disruptor_seq s = int n - 1" "ticks_seen (snd (ld_instance s)) = take n V"
    using assms unfolding up_to_date_def by blast
  then show ?thesis using assms unfolding up_to_date_def by (auto intro!: exI [of _ n])
qed

subsection \<open>The network\<close>

lemma ws_step_queue:
  assumes "\<And>r fs. e \<noteq> ReadFrame r fs"
  shows "snd (ws_step parse hash e (ws, q)) = q"
  by (cases e) (use assms in \<open>auto split: ws_pending.split\<close>)

lemma network_queue:
  assumes inv: "spsc_inv 16 q" and room: "length (spsc_items q) + length (frame_ticks hash ws e) \<le> 65535"
  shows "spsc_inv 16 (snd (ws_step parse hash e (ws, q)))
     \<and> spsc_items (snd (ws_step parse hash e (ws, q))) = spsc_items q @ frame_ticks hash ws e"
proof (cases "\<exists>r fs. e = ReadFrame r (Some fs) \<and> ws_pending_op ws = Reading \<and> \<not> ws_stop ws")
  case True
  then obtain r fs where e: "e = ReadFrame r (Some fs)" and ws: "ws_pending_op ws = Reading" "\<not> ws_stop ws" by blast
  obtain ws' q' where d: "push_feeds hash r fs (ws, q) = (ws', q')" by fastforce
  from push_feeds_room [OF inv _ d] room show ?thesis by (simp add: e ws d frame_ticks_def decode_protobuf_frame_def)
next
  case False
  then have f: "frame_ticks hash ws e = []" by (auto simp: frame_ticks_def split: ws_event.split option.split)
  have "snd (ws_step parse hash e (ws, q)) = q"
  proof (cases e)
    case (ReadFrame r fs)
    then show ?thesis using False by (cases fs) (auto simp: decode_protobuf_frame_def)
  qed (use ws_step_queue [of e parse hash ws q] in simp_all)
  then show ?thesis using inv f by simp
qed

lemma network_keeps:
  assumes "pipe_inv rc hn st" and "in_time hash (Network e) st"
  shows "pipe_inv (rc @ frame_ticks hash (pp_ws st) e) hn (network_step parse hash e st)"
  using network_queue [of "nm_raw_queue (pp_normalizer st)" hash "pp_ws st" e parse] assms
  by (simp add: pipe_inv_def network_step_def Let_def split_beta candles_out_def)

subsection \<open>The normalizer\<close>

lemma candle_list_up:
  "list_all (up_to_date V cs) ss \<Longrightarrow>
   list_all (up_to_date V (cs @ [c])) (fst (candle_list (traced pg) c cache ss w))"
proof (induction ss arbitrary: w)
  case (Cons s ss)
  have "up_to_date V (cs @ [c]) (fst (if ld_running s \<and> subscribed (ld_config s) (cd_token c)
      then let (b, i, w) = pg_on_candle (traced pg) (build_context cache s) c (ld_instance s) w in (s\<lparr>ld_instance := i\<rparr>, w)
      else (s, w)))"
    using Cons.prems by (auto simp: up_to_date_def wanted_def traced_def split_beta Let_def)
  then show ?case using Cons by (simp add: split_beta Let_def)
qed simp

lemma dispatch_all_up:
  "list_all (up_to_date V cs) (sm_strategies (fst mw)) \<Longrightarrow>
   list_all (up_to_date V (cs @ cs')) (sm_strategies (fst (dispatch_all (traced pg) cs' mw)))"
proof (induction cs' arbitrary: mw cs)
  case (Cons c cs')
  have "list_all (up_to_date V (cs @ [c])) (sm_strategies (fst (dispatch_candle (traced pg) c mw)))"
    using candle_list_up [OF Cons.prems] by (simp add: dispatch_candle_def split_beta Let_def)
  from Cons.IH [OF this] show ?case by simp
qed simp

lemma update_bar_grows: "prefix (cb_out cb) (cb_out (update_bar t i cb))"
  by (simp add: update_bar_def emit_candle_def Let_def)

lemma run_ticks_grows: "prefix (cb_out cb) (cb_out (run_ticks ts cb))"
proof (induction ts arbitrary: cb)
  case (Cons t ts)
  have "prefix (cb_out cb) (cb_out (update_bars t js cb))" for js
    by (induction js arbitrary: cb) (auto intro: prefix_order.trans update_bar_grows)
  then show ?case using Cons [of "cb_on_tick t cb"] by (auto simp: cb_on_tick_def intro: prefix_order.trans)
qed simp

lemma disr_inv_filter:
  assumes "disr_inv V d" and "int (Suc (length V)) < 2 ^ 63"
  shows "disr_inv (V @ filter P [t]) (push_all (filter P [t]) d)"
  using push_all_inv [OF assms(1), of "filter P [t]"] assms(2) by simp

lemma normalizer_keeps:
  assumes inv: "pipe_inv rc hn st" and len: "int (length rc) < 2 ^ 63"
  shows "\<exists>hn'. pipe_inv rc hn' (normalizer_step (traced pg) st)"
proof (cases "spsc_items (nm_raw_queue (pp_normalizer st))")
  case Nil
  then have "normalizer_iter (pp_normalizer st) = pp_normalizer st"
    using inv normalizer_iter_nil by (auto simp: pipe_inv_def)
  then have "normalizer_step (traced pg) st = st" by (simp add: normalizer_step_def)
  with inv show ?thesis by auto
next
  case (Cons t ts)
  let ?nm = "pp_normalizer st" and ?V = "filter valid_tick hn" and ?v = "filter valid_tick [t]"
  let ?nm' = "normalizer_iter ?nm"
  have q: "spsc_inv 16 (nm_raw_queue ?nm)" "rc = hn @ t # ts" "disr_inv ?V (nm_disruptor ?nm)"
    using inv Cons by (simp_all add: pipe_inv_def)
  obtain q' where nm': "spsc_inv 16 (nm_raw_queue ?nm')" "spsc_items (nm_raw_queue ?nm') = ts"
    "nm_disruptor ?nm' = push_all ?v (nm_disruptor ?nm)" "nm_candle_builder ?nm' = run_ticks ?v (nm_candle_builder ?nm)"
    by (rule normalizer_iter_cons [OF q(1) Cons]) (simp del: filter.simps)
  have "length ?V \<le> length hn" by simp
  moreover have "int (Suc (length hn)) < 2 ^ 63" using len q(2) by simp
  ultimately have "int (Suc (length ?V)) < 2 ^ 63" by linarith
  then have d: "disr_inv (?V @ ?v) (nm_disruptor ?nm')"
    unfolding nm'(3) by (intro disr_inv_filter q(3))
  have "prefix (candles_out ?nm) (candles_out ?nm')"
    unfolding candles_out_def nm'(4) using run_ticks_grows by (rule map_mono_prefix)
  then have c: "candles_out ?nm' = candles_out ?nm @ drop (length (candles_out ?nm)) (candles_out ?nm')"
    by (auto simp: prefix_def)
  have "list_all (up_to_date (?V @ ?v) (candles_out ?nm)) (sm_strategies (pp_manager st))"
    using inv up_to_date_more unfolding pipe_inv_def by (metis (mono_tags, lifting) list.pred_mono_strong)
  from dispatch_all_up [of "?V @ ?v" _ "(pp_manager st, pp_world st)", simplified, OF this [simplified]]
  have "list_all (up_to_date (?V @ ?v) (candles_out ?nm')) (sm_strategies (pp_manager (normalizer_step (traced pg) st)))"
    by (subst c) (simp add: normalizer_step_def split_beta Let_def)
  then have "pipe_inv rc (hn @ [t]) (normalizer_step (traced pg) st)"
    using nm'(1,2) d q(2) unfolding pipe_inv_def
    by (simp add: normalizer_step_def split_beta Let_def)
  then show ?thesis by blast
qed

subsection \<open>The strategies\<close>

lemma turn_up:
  assumes u: "up_to_date V cs s" and d: "disr_inv V d" and l: "lag (ld_disruptor_seq s) d \<le> int BUFFER_SIZE"
  shows "up_to_date V cs (fst (thread_turn (traced pg) d cache s w))"
proof (cases "ld_phase s = Looping \<and> ld_running s")
  case True
  obtain n where n: "n \<le> length V" "ld_disruptor_seq s = int n - 1" "ticks_seen (snd (ld_instance s)) = take n V"
    using u unfolding up_to_date_def by blast
  have "lag (int n - 1) d = int (length V) - int n"
    using d n(1) by (auto simp: lag_def current_producer_seq_def disr_inv_def intro!: trans [OF i64_id])
  with l n(2) have lap: "length V \<le> n + BUFFER_SIZE" by simp
  show ?thesis
  proof (cases "n < length V")
    case True': True
    note c = consume_available [OF d True' lap, of "ld_tick s"]
    show ?thesis
      using True True' u n c by (auto simp: thread_turn_def run_on_tick_def up_to_date_def split_beta Let_def traced_def
          take_Suc_conv_app_nth intro!: exI [of _ "Suc n"])
  next
    case False
    then have "n = length V" using n(1) by simp
    then show ?thesis
      using True u n consume_none [OF d, of "ld_tick s"]
      by (auto simp: thread_turn_def run_on_tick_def up_to_date_def intro!: exI [of _ n])
  qed
next
  case False
  then show ?thesis
    using u by (auto simp: thread_turn_def run_on_start_def run_on_stop_def up_to_date_def split_beta Let_def traced_def
        split: thread_phase.split)
qed

lemma strategy_keeps:
  assumes inv: "pipe_inv rc hn st" and l: "in_time hash (StrategyTurn i) st"
  shows "pipe_inv rc hn (strategy_step (traced pg) i st)"
proof (cases "i < length (sm_strategies (pp_manager st))")
  case True
  let ?V = "filter valid_tick hn" and ?s = "sm_strategies (pp_manager st) ! i" and ?d = "nm_disruptor (pp_normalizer st)"
  have "up_to_date ?V (candles_out (pp_normalizer st)) ?s" "disr_inv ?V ?d"
    using inv True by (simp_all add: pipe_inv_def list_all_length)
  note turn_up [OF this]
  then have "up_to_date ?V (candles_out (pp_normalizer st))
      (fst (thread_turn (traced pg) ?d (sm_last_tick_cache (pp_manager st)) ?s (pp_world st)))"
    using l True by simp
  then show ?thesis
    using inv True by (auto simp: pipe_inv_def strategy_step_def run_strategy_thread_def split_beta Let_def list_all_length
        nth_list_update)
next
  case False
  then show ?thesis using inv by (simp add: pipe_inv_def strategy_step_def run_strategy_thread_def)
qed

lemma pipe_step_keeps:
  assumes "pipe_inv rc hn st" and "in_time hash e st" and "int (length rc) < 2 ^ 63"
  shows "\<exists>hn'. pipe_inv (rc @ event_ticks hash e st) hn' (pipe_step parse hash (traced pg) e st)"
proof (cases e)
  case (Network f)
  then show ?thesis using network_keeps [OF assms(1)] assms(2) by auto
next
  case Normalize
  then show ?thesis using normalizer_keeps [OF assms(1,3)] by simp
next
  case (StrategyTurn i)
  then show ?thesis using strategy_keeps [OF assms(1)] assms(2) by auto
qed

lemma pipe_run_inv:
  "pipe_inv rc hn st \<Longrightarrow> keeps_up parse hash (traced pg) es st \<Longrightarrow>
   int (length rc + length (received_ticks parse hash (traced pg) es st)) < 2 ^ 63 \<Longrightarrow>
   \<exists>hn'. pipe_inv (rc @ received_ticks parse hash (traced pg) es st) hn' (pipe_run parse hash (traced pg) es st)"
proof (induction es arbitrary: rc hn st)
  case (Cons e es)
  have "\<exists>hn'. pipe_inv (rc @ event_ticks hash e st) hn' (pipe_step parse hash (traced pg) e st)"
    using Cons.prems by (intro pipe_step_keeps) auto
  with Cons.IH [of "rc @ event_ticks hash e st" _ "pipe_step parse hash (traced pg) e st"] Cons.prems
  show ?case by auto
qed auto

text \<open>A run that reads at most 65535 ticks always keeps up, whatever the interleaving.\<close>

lemma short_in_time:
  assumes inv: "pipe_inv rc hn st" and len: "length rc + length (event_ticks hash e st) \<le> 65535"
  shows "in_time hash e st"
proof (cases e)
  case (Network f)
  then show ?thesis using inv len by (simp add: pipe_inv_def)
next
  case (StrategyTurn i)
  have "lag (ld_disruptor_seq (sm_strategies (pp_manager st) ! i)) (nm_disruptor (pp_normalizer st)) \<le> int BUFFER_SIZE"
    if i: "i < length (sm_strategies (pp_manager st))"
  proof -
    let ?V = "filter valid_tick hn"
    obtain n where n: "n \<le> length ?V" "ld_disruptor_seq (sm_strategies (pp_manager st) ! i) = int n - 1"
      using inv i unfolding pipe_inv_def list_all_length up_to_date_def by blast
    have d: "disr_inv ?V (nm_disruptor (pp_normalizer st))" using inv by (simp add: pipe_inv_def)
    have "lag (int n - 1) (nm_disruptor (pp_normalizer st)) = int (length ?V) - int n"
      using d n(1) by (auto simp: lag_def current_producer_seq_def disr_inv_def intro!: trans [OF i64_id])
    moreover have "length ?V \<le> length rc"
      by (rule order_trans [OF length_filter_le]) (use inv in \<open>simp add: pipe_inv_def\<close>)
    ultimately show ?thesis using n(2) len by (simp add: BUFFER_SIZE_def del: length_filter_le)
  qed
  then show ?thesis using StrategyTurn by simp
qed simp

lemma short_run_keeps_up:
  "pipe_inv rc hn st \<Longrightarrow> length rc + length (received_ticks parse hash (traced pg) es st) \<le> 65535 \<Longrightarrow>
   keeps_up parse hash (traced pg) es st"
proof (induction es arbitrary: rc hn st)
  case (Cons e es)
  then have t: "in_time hash e st" by (intro short_in_time) auto
  from pipe_step_keeps [OF Cons.prems(1) this, of parse pg] Cons.prems(2)
  obtain hn' where "pipe_inv (rc @ event_ticks hash e st) hn' (pipe_step parse hash (traced pg) e st)" by auto
  from Cons.IH [OF this] Cons.prems(2) t show ?case by simp
qed simp

section \<open>From the socket to the strategy\<close>

definition pipe_start :: "ws_handler \<Rightarrow> candle_builder \<Rightarrow> 's strategy_manager \<Rightarrow> 'w \<Rightarrow> ('s, 'w) pipeline" where
  "pipe_start ws cb m w = \<lparr>pp_ws = ws, pp_normalizer =
     \<lparr>nm_raw_queue = spsc_new 65536 tick_init, nm_disruptor = disr_new tick_init, nm_candle_builder = cb,
      nm_has_kafka_fn = True, nm_kafka_out = [], nm_ticks_processed = 0, nm_stale_dropped = 0, nm_sanity_rejected = 0\<rparr>,
     pp_manager = m, pp_world = w\<rparr>"

lemma pipe_inv_start:
  assumes "cb_out cb = []" and "\<forall>s \<in> set (sm_strategies m). ld_disruptor_seq s = -1 \<and> snd (ld_instance s) = []"
  shows "pipe_inv [] [] (pipe_start ws cb m w)"
proof -
  have "up_to_date [] [] s" if "s \<in> set (sm_strategies m)" for s
    using assms(2) that by (simp add: up_to_date_def wanted_def)
  then show ?thesis
    using assms(1) spsc_inv_new [of 16 tick_init] disr_inv_new [of tick_init]
    by (simp add: pipe_inv_def pipe_start_def candles_out_def list_all_iff)
qed

text \<open>
  C11: market data reaches the strategies. In every interleaving of the network, the normalizer and any
  number of strategy threads in which the queue has room and no strategy falls a ring behind, a strategy,
  whatever it does, is given the valid ticks of the frames read so far, in order and without a gap: a
  prefix of those the normalizer has handled. While it runs it has been given every candle closed so far
  on an instrument it wants.
\<close>

lemma market_data_reaches_strategies:
  assumes "cb_out cb = []" and "\<forall>s \<in> set (sm_strategies m). ld_disruptor_seq s = -1 \<and> snd (ld_instance s) = []"
    and "st = pipe_run parse hash (traced pg) es (pipe_start ws cb m w)"
    and "rc = received_ticks parse hash (traced pg) es (pipe_start ws cb m w)"
    and "keeps_up parse hash (traced pg) es (pipe_start ws cb m w)" and "int (length rc) < 2 ^ 63"
    and "s \<in> set (sm_strategies (pp_manager st))"
  shows "\<exists>handled. rc = handled @ spsc_items (nm_raw_queue (pp_normalizer st))
     \<and> prefix (ticks_seen (snd (ld_instance s))) (filter valid_tick handled)
     \<and> (ld_running s \<longrightarrow> candles_seen (snd (ld_instance s)) = wanted (ld_config s) (candles_out (pp_normalizer st)))"
proof -
  from pipe_run_inv [OF pipe_inv_start [OF assms(1,2)] assms(5)] assms(3,4,6) obtain handled where "pipe_inv rc handled st" by auto
  then have "rc = handled @ spsc_items (nm_raw_queue (pp_normalizer st))"
    "up_to_date (filter valid_tick handled) (candles_out (pp_normalizer st)) s"
    using assms(7) by (simp_all add: pipe_inv_def list_all_iff)
  then show ?thesis by (auto simp: up_to_date_def take_is_prefix)
qed

definition traced_recording :: "string \<Rightarrow> (string list \<times> seen list) loaded_strategy" where
  "traced_recording sid = \<lparr>ld_instance = ([], []), ld_dl_handle = Some 0, ld_config = strategy_config_init\<lparr>sc_id := sid\<rparr>,
     ld_running = True, ld_disruptor_seq = -1, ld_tick = tick_init, ld_phase = Looping\<rparr>"

definition two_recorders :: "(string list \<times> seen list) strategy_manager" where
  "two_recorders = (strategy_manager_new engine_config_init)\<lparr>sm_strategies := [traced_recording ''a'', traced_recording ''b'']\<rparr>"

lemma market_data_reaches_strategies_witness:
  "list_all (\<lambda>s. length (ticks_seen (snd (ld_instance s))) \<le> 2)
     (sm_strategies (pp_manager (pipe_run (\<lambda>_. None) (\<lambda>_. 7) (traced recorder)
       [Network (ReadFrame 1 (Some [(''K'', ltp_message 100 0), (''K'', ltp_message 101 0)])), Normalize, StrategyTurn 1,
        Normalize, StrategyTurn 1, StrategyTurn 0]
       (pipe_start (ws_new\<lparr>ws_pending_op := Reading\<rparr>) candle_builder_new two_recorders ()))))"
  unfolding list_all_iff
proof
  let ?es = "[Network (ReadFrame 1 (Some [(''K'', ltp_message 100 0), (''K'', ltp_message 101 0)])), Normalize,
    StrategyTurn 1, Normalize, StrategyTurn 1, StrategyTurn 0]"
  let ?st = "pipe_start (ws_new\<lparr>ws_pending_op := Reading\<rparr>) candle_builder_new two_recorders ()"
  let ?rc = "received_ticks (\<lambda>_. None) (\<lambda>_. 7) (traced recorder) ?es ?st"
  fix s assume s: "s \<in> set (sm_strategies (pp_manager (pipe_run (\<lambda>_. None) (\<lambda>_. 7) (traced recorder) ?es ?st)))"
  have 1: "cb_out candle_builder_new = []" by (simp add: candle_builder_new_def)
  have 2: "\<forall>s \<in> set (sm_strategies two_recorders). ld_disruptor_seq s = -1 \<and> snd (ld_instance s) = []"
    by (simp add: two_recorders_def traced_recording_def)
  have "length (frame_ticks (\<lambda>_. 7) (ws_new\<lparr>ws_pending_op := Reading\<rparr>)
      (ReadFrame 1 (Some [(''K'', ltp_message 100 0), (''K'', ltp_message 101 0)]))) = 2"
    by (simp add: frame_ticks_def ws_new_def feed_ticks_def feed_tick_def feed_data_def ltp_message_def)
  then have 3: "length ?rc = 2"
    by (simp add: pipe_start_def del: pipe_step.simps)
  have up: "keeps_up (\<lambda>_. None) (\<lambda>_. 7) (traced recorder) ?es ?st"
    by (rule short_run_keeps_up [OF pipe_inv_start [OF 1 2]]) (simp only: 3, simp)
  have small: "int (length ?rc) < 2 ^ 63" by (simp only: 3) simp
  from market_data_reaches_strategies [OF 1 2 refl refl up small s] obtain handled where
    h: "?rc = handled @ spsc_items (nm_raw_queue (pp_normalizer (pipe_run (\<lambda>_. None) (\<lambda>_. 7) (traced recorder) ?es ?st)))"
    "prefix (ticks_seen (snd (ld_instance s))) (filter valid_tick handled)" by blast
  have "length (ticks_seen (snd (ld_instance s))) \<le> length (filter valid_tick handled)"
    using h(2) by (rule prefix_length_le)
  also have "\<dots> \<le> length handled" by simp
  also have "\<dots> \<le> length ?rc" by (subst h(1)) simp
  finally show "length (ticks_seen (snd (ld_instance s))) \<le> 2" by (simp only: 3)
qed

end
