(* ===== verification/QF_Stopping.thy ===== *)
theory QF_Stopping
  imports QF_Pipeline
begin

text \<open>
  \<open>StrategyManager::stop_all\<close> (\<open>cpp/strategy/strategy_manager.cpp\<close>) among the strategy threads, which go
  on running until their own flag is cleared. A step is one statement of \<open>stop_all\<close> or one turn of a
  strategy's thread; a \<open>join\<close> waits until the thread has left its function. The ring is given: \<open>main\<close>
  stops the normalizer first. The traces are those of \<open>QF_Pipeline\<close>. The step that the system model
  takes for the whole of \<open>stop_all\<close> is one of the schedules.
\<close>

section \<open>Steps\<close>

datatype stop_pc = AtOnStop | AtFlag | AtJoin

record ('s, 'w) stopping =
  sg_manager :: "'s strategy_manager"
  sg_world :: 'w
  sg_pos :: nat \<comment> \<open>the strategy the loop is at\<close>
  sg_pc :: stop_pc

definition stop_begin :: "'s strategy_manager \<Rightarrow> 'w \<Rightarrow> ('s, 'w) stopping" where
  "stop_begin m w = \<lparr>sg_manager = m, sg_world = w, sg_pos = 0, sg_pc = AtOnStop\<rparr>"

definition set_strategy :: "nat \<Rightarrow> 's loaded_strategy \<Rightarrow> 's strategy_manager \<Rightarrow> 's strategy_manager" where
  "set_strategy i s m = m\<lparr>sm_strategies := (sm_strategies m)[i := s]\<rparr>"

definition stop_stmt :: "('s, 'w) plugin \<Rightarrow> ('s, 'w) stopping \<Rightarrow> ('s, 'w) stopping" where
  \<comment> \<open>the next statement of the loop; a \<open>join\<close> that has to wait changes nothing\<close>
  "stop_stmt pg st =
     (let m = sg_manager st; i = sg_pos st
      in if i < length (sm_strategies m)
         then let s = sm_strategies m ! i in
           (case sg_pc st of
              AtOnStop \<Rightarrow> let (s, w) = run_on_stop pg (sm_last_tick_cache m) s (sg_world st)
                 in st\<lparr>sg_manager := set_strategy i s m, sg_world := w, sg_pc := AtFlag\<rparr>
            | AtFlag \<Rightarrow> st\<lparr>sg_manager := set_strategy i (s\<lparr>ld_running := False\<rparr>) m, sg_pc := AtJoin\<rparr>
            | AtJoin \<Rightarrow> if ld_phase s = Exited
                 then st\<lparr>sg_manager := m\<lparr>sm_library := sm_library m @
                            (case ld_dl_handle s of None \<Rightarrow> [] | Some h \<Rightarrow> [Dlclose h])\<rparr>,
                         sg_pos := Suc i, sg_pc := AtOnStop\<rparr>
                 else st)
         else st)"

definition thread_step :: "('s, 'w) plugin \<Rightarrow> tick disruptor \<Rightarrow> nat \<Rightarrow> ('s, 'w) stopping \<Rightarrow> ('s, 'w) stopping" where
  "thread_step pg d i st = (let (m, w) = run_strategy_thread pg d i (sg_manager st, sg_world st)
     in st\<lparr>sg_manager := m, sg_world := w\<rparr>)"

datatype stop_event = Stopper | Thread nat

fun stop_run :: "('s, 'w) plugin \<Rightarrow> tick disruptor \<Rightarrow> stop_event list \<Rightarrow> ('s, 'w) stopping \<Rightarrow> ('s, 'w) stopping" where
  "stop_run pg d [] st = st"
| "stop_run pg d (Stopper # es) st = stop_run pg d es (stop_stmt pg st)"
| "stop_run pg d (Thread i # es) st = stop_run pg d es (thread_step pg d i st)"

section \<open>Where each strategy is\<close>

fun stops_seen :: "seen list \<Rightarrow> nat" where
  "stops_seen [] = 0"
| "stops_seen (SawStop # tr) = Suc (stops_seen tr)"
| "stops_seen (_ # tr) = stops_seen tr"

lemma stops_append [simp]: "stops_seen (tr @ tr') = stops_seen tr + stops_seen tr'"
  by (induction tr rule: stops_seen.induct) simp_all

abbreviation trace :: "('s \<times> seen list) loaded_strategy \<Rightarrow> seen list" where
  "trace s \<equiv> snd (ld_instance s)"

definition stage :: "nat \<Rightarrow> stop_pc \<Rightarrow> nat \<Rightarrow> ('s \<times> seen list) loaded_strategy \<Rightarrow> bool" where
  \<comment> \<open>what is known of the strategy at \<open>j\<close> when the loop is at \<open>pos\<close>\<close>
  "stage pos pc j s \<longleftrightarrow>
     (if j < pos then ld_phase s = Exited \<and> stops_seen (trace s) = 2
      else if j = pos \<and> pc = AtFlag then ld_phase s = Looping \<and> ld_running s \<and> stops_seen (trace s) = 1
      else if j = pos \<and> pc = AtJoin then \<not> ld_running s \<and>
        (ld_phase s = Looping \<and> stops_seen (trace s) = 1 \<or> ld_phase s = Exited \<and> stops_seen (trace s) = 2)
      else ld_phase s = Looping \<and> ld_running s \<and> stops_seen (trace s) = 0)"

definition stop_inv :: "nat option list \<Rightarrow> library_call list \<Rightarrow> ('s \<times> seen list, 'w) stopping \<Rightarrow> bool" where
  "stop_inv hs lib st \<longleftrightarrow> sg_pos st \<le> length (sm_strategies (sg_manager st))
     \<and> (sg_pos st = length (sm_strategies (sg_manager st)) \<longrightarrow> sg_pc st = AtOnStop)
     \<and> map ld_dl_handle (sm_strategies (sg_manager st)) = hs
     \<and> sm_library (sg_manager st) = lib @ concat (map (\<lambda>h. case h of None \<Rightarrow> [] | Some h \<Rightarrow> [Dlclose h]) (take (sg_pos st) hs))
     \<and> (\<forall>j < length (sm_strategies (sg_manager st)). stage (sg_pos st) (sg_pc st) j (sm_strategies (sg_manager st) ! j))"

lemma turn_stage: "stage pos pc j s \<Longrightarrow> stage pos pc j (fst (thread_turn (traced pg) d cache s w))"
  by (auto simp: stage_def thread_turn_def run_on_stop_def run_on_tick_def traced_def split_beta Let_def split: if_splits)

lemma handles_same:
  "i < length ss \<Longrightarrow> ld_dl_handle s = ld_dl_handle (ss ! i) \<Longrightarrow> map ld_dl_handle (ss[i := s]) = map ld_dl_handle ss"
  by (metis length_map list_update_id map_update nth_map)

lemma thread_step_inv:
  assumes inv: "stop_inv hs lib st"
  shows "stop_inv hs lib (thread_step (traced pg) d i st)"
proof (cases "i < length (sm_strategies (sg_manager st))")
  case True
  let ?ss = "sm_strategies (sg_manager st)"
  define s where "s = fst (thread_turn (traced pg) d (sm_last_tick_cache (sg_manager st)) (?ss ! i) (sg_world st))"
  have new: "sm_strategies (sg_manager (thread_step (traced pg) d i st)) = ?ss[i := s]"
    "sm_library (sg_manager (thread_step (traced pg) d i st)) = sm_library (sg_manager st)"
    "sg_pos (thread_step (traced pg) d i st) = sg_pos st" "sg_pc (thread_step (traced pg) d i st) = sg_pc st"
    using True by (simp_all add: thread_step_def run_strategy_thread_def split_beta Let_def s_def)
  have "map ld_dl_handle (?ss[i := s]) = map ld_dl_handle ?ss"
    using True by (rule handles_same) (simp add: s_def thread_turn_handle)
  moreover have at: "stage (sg_pos st) (sg_pc st) j (?ss ! j)" if "j < length ?ss" for j
    using inv that by (simp add: stop_inv_def)
  moreover have "stage (sg_pos st) (sg_pc st) i s"
    unfolding s_def using at [OF True] by (rule turn_stage)
  then have "stage (sg_pos st) (sg_pc st) j (?ss[i := s] ! j)" if "j < length ?ss" for j
    using at [OF that] that by (cases "j = i") simp_all
  ultimately show ?thesis using inv by (simp add: stop_inv_def new)
next
  case False
  then show ?thesis using inv by (simp add: thread_step_def run_strategy_thread_def)
qed

lemma stop_stmt_inv:
  assumes inv: "stop_inv hs lib st"
  shows "stop_inv hs lib (stop_stmt (traced pg) st)"
proof (cases "sg_pos st < length (sm_strategies (sg_manager st))")
  case True
  let ?ss = "sm_strategies (sg_manager st)" and ?i = "sg_pos st"
  let ?s = "?ss ! ?i"
  have st: "stage ?i (sg_pc st) ?i ?s" using inv True by (simp add: stop_inv_def)
  have h: "?i < length hs" "hs ! ?i = ld_dl_handle ?s" using inv True by (auto simp: stop_inv_def)
  have hs: "map ld_dl_handle (?ss[?i := s]) = hs" if "ld_dl_handle s = ld_dl_handle ?s" for s
    using inv handles_same [OF True that] by (simp add: stop_inv_def)
  show ?thesis
  proof (cases "sg_pc st")
    case AtOnStop
    then show ?thesis
      using inv True st hs by (auto simp: stop_stmt_def Let_def split_beta set_strategy_def run_on_stop_def stop_inv_def
          nth_list_update stage_def traced_def)
  next
    case AtFlag
    then show ?thesis
      using inv True st hs by (auto simp: stop_stmt_def Let_def set_strategy_def stop_inv_def nth_list_update stage_def)
  next
    case AtJoin
    then show ?thesis
      using inv True st h by (auto simp: stop_stmt_def Let_def stop_inv_def stage_def take_Suc_conv_app_nth less_Suc_eq)
  qed
next
  case False
  then show ?thesis using inv by (simp add: stop_stmt_def)
qed

lemma stop_run_inv: "stop_inv hs lib st \<Longrightarrow> stop_inv hs lib (stop_run (traced pg) d es st)"
  by (induction "traced pg" d es st rule: stop_run.induct) (simp_all add: stop_stmt_inv thread_step_inv)

definition all_looping :: "('s \<times> seen list) strategy_manager \<Rightarrow> bool" where
  \<comment> \<open>every strategy is in its loop, its trace empty so far\<close>
  "all_looping m \<longleftrightarrow> list_all (\<lambda>s. ld_phase s = Looping \<and> ld_running s \<and> trace s = []) (sm_strategies m)"

lemma stop_begin_inv:
  "all_looping m \<Longrightarrow> stop_inv (map ld_dl_handle (sm_strategies m)) (sm_library m) (stop_begin m w)"
  by (simp add: all_looping_def stop_inv_def stop_begin_def stage_def list_all_length)

section \<open>The loop comes to its end\<close>

definition left_over :: "('s, 'w) stopping \<Rightarrow> nat" where
  "left_over st = 4 * (length (sm_strategies (sg_manager st)) - sg_pos st)
     - (case sg_pc st of AtOnStop \<Rightarrow> 0 | AtFlag \<Rightarrow> 1
        | AtJoin \<Rightarrow> if ld_phase (sm_strategies (sg_manager st) ! sg_pos st) = Exited then 3 else 2)"

lemma stop_one_step:
  assumes inv: "stop_inv hs lib st" and pos: "sg_pos st < length (sm_strategies (sg_manager st))"
  shows "\<exists>e. left_over (stop_run (traced pg) d [e] st) < left_over st"
proof (cases "sg_pc st = AtJoin \<and> ld_phase (sm_strategies (sg_manager st) ! sg_pos st) \<noteq> Exited")
  case True
  have "stage (sg_pos st) (sg_pc st) (sg_pos st) (sm_strategies (sg_manager st) ! sg_pos st)"
    using inv pos by (simp add: stop_inv_def)
  then have "ld_phase (sm_strategies (sg_manager st) ! sg_pos st) = Looping"
    "\<not> ld_running (sm_strategies (sg_manager st) ! sg_pos st)"
    using True by (auto simp: stage_def)
  then have "left_over (stop_run (traced pg) d [Thread (sg_pos st)] st) < left_over st"
    using True pos by (simp add: left_over_def thread_step_def run_strategy_thread_def split_beta Let_def thread_turn_def
        run_on_stop_def)
  then show ?thesis by blast
next
  case False
  then have "left_over (stop_run (traced pg) d [Stopper] st) < left_over st"
    using pos by (cases "sg_pc st") (auto simp: left_over_def stop_stmt_def Let_def split_beta set_strategy_def run_on_stop_def)
  then show ?thesis by blast
qed

lemma stop_run_append: "stop_run pg d (es @ es') st = stop_run pg d es' (stop_run pg d es st)"
  by (induction pg d es st rule: stop_run.induct) simp_all

lemma stop_finishes:
  "stop_inv hs lib st \<Longrightarrow> \<exists>es. length es \<le> left_over st
     \<and> sg_pos (stop_run (traced pg) d es st) = length (sm_strategies (sg_manager (stop_run (traced pg) d es st)))"
proof (induction "left_over st" arbitrary: st rule: less_induct)
  case less
  show ?case
  proof (cases "sg_pos st < length (sm_strategies (sg_manager st))")
    case True
    obtain e where e: "left_over (stop_run (traced pg) d [e] st) < left_over st"
      using stop_one_step [OF less.prems True] by blast
    from less.hyps [OF e stop_run_inv [OF less.prems]] obtain es
      where "length es \<le> left_over (stop_run (traced pg) d [e] st)"
        "sg_pos (stop_run (traced pg) d es (stop_run (traced pg) d [e] st))
          = length (sm_strategies (sg_manager (stop_run (traced pg) d es (stop_run (traced pg) d [e] st))))" by blast
    moreover have "stop_run (traced pg) d (e # es) st = stop_run (traced pg) d es (stop_run (traced pg) d [e] st)"
      using stop_run_append [of "traced pg" d "[e]" es st] by (simp only: append.simps)
    moreover have "length (e # es) \<le> left_over st" using calculation(1) e by simp
    ultimately show ?thesis by metis
  next
    case False
    then show ?thesis using less.prems by (intro exI [of _ "[]"]) (simp add: stop_inv_def)
  qed
qed

text \<open>
  C35: stopping the strategies, in every interleaving with their threads. Once the loop is through, every
  thread has left its function, every strategy has been given \<open>on_stop\<close> exactly twice, and the libraries
  have been closed, each once, in order; and from every state on the way at most four steps per strategy
  lead there, so that no \<open>join\<close> waits for ever.
\<close>

lemma stop_all_interleaved:
  assumes "all_looping m" and "st = stop_run (traced pg) d es (stop_begin m w)"
  shows "(sg_pos st = length (sm_strategies m) \<longrightarrow>
       list_all (\<lambda>s. ld_phase s = Exited \<and> stops_seen (trace s) = 2) (sm_strategies (sg_manager st))
       \<and> sm_library (sg_manager st) = sm_library m @ map Dlclose (handles (sm_strategies m)))
     \<and> (\<exists>es'. length es' \<le> 4 * length (sm_strategies m)
         \<and> sg_pos (stop_run (traced pg) d es' st) = length (sm_strategies m))"
proof -
  note inv = stop_run_inv [OF stop_begin_inv [OF assms(1)], of pg d es w, folded assms(2)]
  have len: "length (sm_strategies (sg_manager (stop_run (traced pg) d es' st))) = length (sm_strategies m)" for es'
    using stop_run_inv [OF inv, of pg d es'] by (metis length_map stop_inv_def)
  from len [of "[]"] have len0: "length (sm_strategies (sg_manager st)) = length (sm_strategies m)" by simp
  have lib: "concat (map (\<lambda>h. case h of None \<Rightarrow> [] | Some h \<Rightarrow> [Dlclose h]) (map ld_dl_handle ss)) = map Dlclose (handles ss)"
    for ss :: "('a \<times> seen list) loaded_strategy list"
    by (induction ss) (auto simp: handles_def split: option.split)
  have "left_over st \<le> 4 * length (sm_strategies m)" by (simp add: left_over_def len0)
  with stop_finishes [OF inv, of pg d] len
  have "\<exists>es'. length es' \<le> 4 * length (sm_strategies m) \<and> sg_pos (stop_run (traced pg) d es' st) = length (sm_strategies m)"
    by (metis order_trans)
  moreover have "list_all (\<lambda>s. ld_phase s = Exited \<and> stops_seen (trace s) = 2) (sm_strategies (sg_manager st))
      \<and> sm_library (sg_manager st) = sm_library m @ map Dlclose (handles (sm_strategies m))"
    if "sg_pos st = length (sm_strategies m)"
    using inv that lib [of "sm_strategies m"] by (auto simp: stop_inv_def list_all_length len0 stage_def)
  ultimately show ?thesis by blast
qed

lemma stop_all_interleaved_witness:
  "\<exists>es'. length es' \<le> 8 \<and> sg_pos (stop_run (traced recorder) (disr_new tick_init) es'
     (stop_run (traced recorder) (disr_new tick_init) [Stopper, Thread 1, Thread 0] (stop_begin two_recorders ()))) = 2"
proof -
  have "all_looping two_recorders"
    by (simp add: all_looping_def two_recorders_def traced_recording_def)
  from stop_all_interleaved [OF this refl, of recorder "disr_new tick_init" "[Stopper, Thread 1, Thread 0]" "()"]
  have "\<exists>es'. length es' \<le> 4 * length (sm_strategies two_recorders) \<and> sg_pos (stop_run (traced recorder) (disr_new tick_init) es'
     (stop_run (traced recorder) (disr_new tick_init) [Stopper, Thread 1, Thread 0] (stop_begin two_recorders ())))
       = length (sm_strategies two_recorders)" by (rule conjunct2)
  moreover have "length (sm_strategies two_recorders) = 2" by (simp add: two_recorders_def)
  ultimately show ?thesis by simp
qed

text \<open>Between the two calls the thread still hands ticks to the strategy it has stopped.\<close>

lemma tick_after_on_stop:
  "map trace (sm_strategies (sg_manager (stop_run (traced recorder) (disr_push t (disr_new tick_init))
     [Stopper, Thread 0, Stopper, Thread 0] (stop_begin ((strategy_manager_new engine_config_init)
       \<lparr>sm_strategies := [traced_recording ''a'']\<rparr>) ())))) = [[SawStop, SawTick t, SawStop]]"
proof -
  have "disr_inv [t] (disr_push t (disr_new tick_init))"
    using disr_inv_push [OF disr_inv_new, of t tick_init] by simp
  from consume_available [OF this, of 0] have "try_consume (-1) out (disr_push t (disr_new tick_init)) = (True, 0, t)" for out
    by (simp add: BUFFER_SIZE_def)
  then show ?thesis
    by (simp add: stop_begin_def stop_stmt_def thread_step_def run_strategy_thread_def thread_turn_def run_on_tick_def
        run_on_stop_def set_strategy_def traced_recording_def traced_def noting_def recorder_def strategy_manager_new_def
        split_beta Let_def)
qed

section \<open>The single step of the system model\<close>

text \<open>
  \<open>QF_Strategy_Manager.stop_all\<close> takes the whole of \<open>stop_all\<close> as one step. It is what the statements
  make when every thread takes its last turns just when it is joined.
\<close>

definition join_at_once :: "nat \<Rightarrow> stop_event list" where
  "join_at_once i = [Stopper, Stopper, Thread i, Thread i, Stopper]"

definition clear_strategies :: "'s strategy_manager \<Rightarrow> 's strategy_manager" where
  \<comment> \<open>\<open>strategies_.clear()\<close>\<close>
  "clear_strategies m = m\<lparr>sm_strategies := [],
     sm_library := sm_library m @ concat (map (\<lambda>s. case ld_dl_handle s of None \<Rightarrow> [] | Some h \<Rightarrow> [DeleteInstance h]) (sm_strategies m))\<rparr>"

lemma stop_thread_exits: "\<not> ld_running s \<Longrightarrow> ld_phase (fst (stop_thread pg d cache s w)) = Exited"
  by (cases "ld_phase s")
    (auto simp: stop_thread_def thread_turn_def run_on_start_def run_on_stop_def split_beta Let_def)

lemma stop_one_exits: "ld_phase (fst (stop_one pg d s cache w)) = Exited"
  unfolding stop_one_def by (simp add: split_beta Let_def stop_thread_exits)

lemma join_at_once_run:
  assumes "sg_pos st = i" and "sg_pc st = AtOnStop" and "i < length (sm_strategies (sg_manager st))"
    and "stop_one pg d (sm_strategies (sg_manager st) ! i) (sm_last_tick_cache (sg_manager st)) (sg_world st) = (s, cache, w)"
  shows "stop_run pg d (join_at_once i) st = st\<lparr>sg_manager := (sg_manager st)
      \<lparr>sm_strategies := (sm_strategies (sg_manager st))[i := s], sm_last_tick_cache := cache,
       sm_library := sm_library (sg_manager st) @ (case ld_dl_handle s of None \<Rightarrow> [] | Some h \<Rightarrow> [Dlclose h])\<rparr>,
     sg_world := w, sg_pos := Suc i\<rparr>"
proof -
  have ex: "ld_phase s = Exited"
    using stop_one_exits [of pg d "sm_strategies (sg_manager st) ! i" "sm_last_tick_cache (sg_manager st)" "sg_world st"] assms(4) by simp
  show ?thesis
    using assms ex by (simp add: join_at_once_def stop_stmt_def thread_step_def run_strategy_thread_def set_strategy_def
        stop_one_def stop_thread_def split_beta Let_def)
qed

definition join_each :: "nat \<Rightarrow> nat \<Rightarrow> stop_event list" where
  "join_each i n = concat (map join_at_once [i..<i + n])"

lemma join_each_Suc: "join_each i (Suc n) = join_at_once i @ join_each (Suc i) n"
  by (simp add: join_each_def upt_conv_Cons del: upt_Suc)

lemma stop_list_run:
  assumes "sg_pos st = length pre" and "sg_pc st = AtOnStop" and "sm_strategies (sg_manager st) = pre @ ss"
    and "st' = stop_run pg d (join_each (length pre) (length ss)) st"
  shows "stop_list pg d ss ((sg_manager st)\<lparr>sm_strategies := xs\<rparr>, sg_world st)
       = ((sg_manager st')\<lparr>sm_strategies := xs\<rparr>, sg_world st')
     \<and> sg_pos st' = length pre + length ss
     \<and> map ld_dl_handle (sm_strategies (sg_manager st')) = map ld_dl_handle (pre @ ss)"
  using assms
proof (induction ss arbitrary: pre st)
  case Nil
  then show ?case by (simp add: join_each_def)
next
  case (Cons s ss)
  obtain s1 cache w where one: "stop_one pg d s (sm_last_tick_cache (sg_manager st)) (sg_world st) = (s1, cache, w)"
    by (rule prod_cases3)
  have h: "ld_dl_handle s1 = ld_dl_handle s"
    using stop_one_handle [of pg d s "sm_last_tick_cache (sg_manager st)" "sg_world st"] one by simp
  define st1 where "st1 = stop_run pg d (join_at_once (length pre)) st"
  have st1: "st1 = st\<lparr>sg_manager := (sg_manager st)
      \<lparr>sm_strategies := (pre @ s # ss)[length pre := s1], sm_last_tick_cache := cache,
       sm_library := sm_library (sg_manager st) @ (case ld_dl_handle s of None \<Rightarrow> [] | Some h \<Rightarrow> [Dlclose h])\<rparr>,
     sg_world := w, sg_pos := Suc (length pre)\<rparr>"
    using join_at_once_run [of st "length pre" pg d s1 cache w] Cons.prems one by (simp add: st1_def h nth_append)
  have "sg_pos st1 = length (pre @ [s1])" "sg_pc st1 = AtOnStop" "sm_strategies (sg_manager st1) = (pre @ [s1]) @ ss"
    using Cons.prems by (simp_all add: st1 list_update_append)
  moreover have "st' = stop_run pg d (join_each (length (pre @ [s1])) (length ss)) st1"
    using Cons.prems(4) by (simp add: join_each_Suc stop_run_append st1_def)
  ultimately have ih: "stop_list pg d ss ((sg_manager st1)\<lparr>sm_strategies := xs\<rparr>, sg_world st1)
       = ((sg_manager st')\<lparr>sm_strategies := xs\<rparr>, sg_world st')
     \<and> sg_pos st' = length (pre @ [s1]) + length ss
     \<and> map ld_dl_handle (sm_strategies (sg_manager st')) = map ld_dl_handle ((pre @ [s1]) @ ss)"
    by (rule Cons.IH)
  have "stop_list pg d (s # ss) ((sg_manager st)\<lparr>sm_strategies := xs\<rparr>, sg_world st)
      = stop_list pg d ss ((sg_manager st1)\<lparr>sm_strategies := xs\<rparr>, sg_world st1)"
    using one by (simp add: st1 Let_def h) (rule arg_cong2 [where f = "\<lambda>m w. stop_list pg d ss (m, w)"]; simp)
  with ih show ?case by (simp add: h)
qed

text \<open>
  Every property of the interleavings therefore holds of the step that stands for all of them.
\<close>

lemma stop_all_is_a_schedule:
  assumes "st = stop_run pg d (join_each 0 (length (sm_strategies m))) (stop_begin m w)"
  shows "stop_all pg d (m, w) = (clear_strategies (sg_manager st), sg_world st)"
    and "sg_pos st = length (sm_strategies m)"
proof -
  have r: "stop_list pg d (sm_strategies m) (m\<lparr>sm_strategies := sm_strategies m\<rparr>, w)
       = ((sg_manager st)\<lparr>sm_strategies := sm_strategies m\<rparr>, sg_world st)
     \<and> sg_pos st = length (sm_strategies m)
     \<and> map ld_dl_handle (sm_strategies (sg_manager st)) = map ld_dl_handle (sm_strategies m)"
    using stop_list_run [of "stop_begin m w" "[]" "sm_strategies m" st pg d "sm_strategies m"] assms
    by (simp add: stop_begin_def)
  then show "sg_pos st = length (sm_strategies m)" by simp
  let ?del = "\<lambda>h. case h of None \<Rightarrow> [] | Some h \<Rightarrow> [DeleteInstance h]"
  have "map (?del \<circ> ld_dl_handle) (sm_strategies m) = map (?del \<circ> ld_dl_handle) (sm_strategies (sg_manager st))"
    using r by (simp flip: map_map)
  then show "stop_all pg d (m, w) = (clear_strategies (sg_manager st), sg_world st)"
    using r by (simp add: stop_all_def clear_strategies_def Let_def comp_def)
qed

end
