(* ===== verification/QF_Threads.thy ===== *)
theory QF_Threads
  imports QF_Engine_Props
begin

text \<open>
  The threads of the engine: the set-up of a thread (\<open>cpp/common/thread_utils.hpp\<close>), and the life cycle
  that the portfolio, the normalizer and the delivery poll of Kafka share: \<open>start\<close> launches a loop that
  tests a stop flag before every turn, \<open>stop\<close> sets the flag and joins. A \<open>worker\<close> is such a loop with the
  state it works on; between any two of its steps other threads may change that state. What the operating
  system answers to the set-up calls is an argument.

  \<open>queue_worker\<close> is the contract of a loop that takes one item of a queue per turn: it is interpreted for
  the fill thread within the whole engine and for the normalizer thread.
\<close>

section \<open>Setting up a thread\<close>

datatype thread_log = PinFailed int int | Pinned int | PriorityFailed int int | PrioritySet int

record os_thread =
  ot_name :: string
  ot_core :: "int option" \<comment> \<open>the only core it may run on, if it was pinned\<close>
  ot_priority :: "int option" \<comment> \<open>its \<open>SCHED_FIFO\<close> priority, if it was given one\<close>
  ot_log :: "thread_log list"

definition pin_thread_to_core :: "(int \<Rightarrow> int) \<Rightarrow> int \<Rightarrow> os_thread \<Rightarrow> bool \<times> os_thread" where
  \<comment> \<open>\<open>setaffinity\<close>: the return code of \<open>pthread_setaffinity_np\<close> for a core\<close>
  "pin_thread_to_core setaffinity core_id th =
     (let rc = setaffinity core_id
      in if rc \<noteq> 0 then (False, th\<lparr>ot_log := ot_log th @ [PinFailed core_id rc]\<rparr>)
         else (True, th\<lparr>ot_core := Some core_id, ot_log := ot_log th @ [Pinned core_id]\<rparr>))"

definition set_realtime_priority :: "(int \<Rightarrow> int) \<Rightarrow> int \<Rightarrow> os_thread \<Rightarrow> bool \<times> os_thread" where
  \<comment> \<open>\<open>setschedparam\<close>: the return code of \<open>pthread_setschedparam\<close> for a priority\<close>
  "set_realtime_priority setschedparam priority th =
     (let rc = setschedparam priority
      in if rc \<noteq> 0 then (False, th\<lparr>ot_log := ot_log th @ [PriorityFailed priority rc]\<rparr>)
         else (True, th\<lparr>ot_priority := Some priority, ot_log := ot_log th @ [PrioritySet priority]\<rparr>))"

definition set_thread_name :: "string \<Rightarrow> os_thread \<Rightarrow> os_thread" where
  "set_thread_name name th = th\<lparr>ot_name := c_str (take 15 name)\<rparr>"

definition setup_hot_thread :: "(int \<Rightarrow> int) \<Rightarrow> (int \<Rightarrow> int) \<Rightarrow> int \<Rightarrow> int \<Rightarrow> string \<Rightarrow> os_thread \<Rightarrow> os_thread" where
  \<comment> \<open>both results are ignored\<close>
  "setup_hot_thread setaffinity setschedparam core_id rt_priority name th =
     snd (set_realtime_priority setschedparam rt_priority (snd (pin_thread_to_core setaffinity core_id (set_thread_name name th))))"

definition io_thread_setup :: "(int \<Rightarrow> int) \<Rightarrow> (int \<Rightarrow> int) \<Rightarrow> engine_config \<Rightarrow> os_thread \<Rightarrow> os_thread" where
  "io_thread_setup aff sch cfg = setup_hot_thread aff sch (tc_market_data_io (ec_threads cfg)) 80 ''qf-io''"

definition normalizer_thread_setup :: "(int \<Rightarrow> int) \<Rightarrow> (int \<Rightarrow> int) \<Rightarrow> engine_config \<Rightarrow> os_thread \<Rightarrow> os_thread" where
  "normalizer_thread_setup aff sch cfg = setup_hot_thread aff sch (tc_tick_normalizer (ec_threads cfg)) 70 ''qf-normalizer''"

definition fill_thread_setup :: "(int \<Rightarrow> int) \<Rightarrow> (int \<Rightarrow> int) \<Rightarrow> engine_config \<Rightarrow> os_thread \<Rightarrow> os_thread" where
  "fill_thread_setup aff sch cfg = setup_hot_thread aff sch (tc_fill_processor (ec_threads cfg)) 55 ''qf-portfolio''"

definition strategy_thread_setup :: "(int \<Rightarrow> int) \<Rightarrow> (int \<Rightarrow> int) \<Rightarrow> strategy_config \<Rightarrow> os_thread \<Rightarrow> os_thread" where
  "strategy_thread_setup aff sch scfg =
     setup_hot_thread aff sch (sc_allocated_core scfg) 60 (''qf-strat-'' @ take 10 (sc_id scfg))"

lemma setup_spec:
  "ot_name (setup_hot_thread aff sch core prio name th) = c_str (take 15 name)"
  "ot_core (setup_hot_thread aff sch core prio name th) = (if aff core = 0 then Some core else ot_core th)"
  "ot_priority (setup_hot_thread aff sch core prio name th) = (if sch prio = 0 then Some prio else ot_priority th)"
  by (simp_all add: setup_hot_thread_def set_realtime_priority_def pin_thread_to_core_def set_thread_name_def Let_def)

text \<open>The name has room for six characters of the strategy's id, not the ten that are passed.\<close>

lemma strategy_name_clash:
  "take 6 (sc_id scfg) = take 6 (sc_id scfg') \<Longrightarrow>
   ot_name (strategy_thread_setup aff sch scfg th) = ot_name (strategy_thread_setup aff sch scfg' th)"
  by (simp add: setup_spec strategy_thread_setup_def min_def)

text \<open>Without the right to set priorities every thread runs on, at the priority it had.\<close>

lemma setup_without_rights:
  "sch 55 \<noteq> 0 \<Longrightarrow> ot_priority (fill_thread_setup aff sch cfg th) = ot_priority th"
  by (simp add: setup_spec fill_thread_setup_def)

section \<open>Workers\<close>

datatype worker_pc = NoThread | AtTest | InTurn | Ended

record 'w worker =
  wk_stop :: bool
  wk_pc :: worker_pc
  wk_world :: 'w

definition worker_new :: "'w \<Rightarrow> 'w worker" where
  "worker_new w = \<lparr>wk_stop = False, wk_pc = NoThread, wk_world = w\<rparr>"

definition worker_start :: "'w worker \<Rightarrow> 'w worker option" where
  \<comment> \<open>\<open>None\<close>: assigning to a \<open>std::thread\<close> that was not joined ends the program\<close>
  "worker_start c = (if wk_pc c = NoThread then Some (c\<lparr>wk_stop := False, wk_pc := AtTest\<rparr>) else None)"

inductive own_step :: "('w \<Rightarrow> 'w) \<Rightarrow> 'w worker \<Rightarrow> 'w worker \<Rightarrow> bool" for turn where
  \<comment> \<open>the loop: \<open>while (!stop_) turn\<close>\<close>
  own_enter: "wk_pc c = AtTest \<Longrightarrow> \<not> wk_stop c \<Longrightarrow> own_step turn c (c\<lparr>wk_pc := InTurn\<rparr>)"
| own_leave: "wk_pc c = AtTest \<Longrightarrow> wk_stop c \<Longrightarrow> own_step turn c (c\<lparr>wk_pc := Ended\<rparr>)"
| own_turn: "wk_pc c = InTurn \<Longrightarrow> own_step turn c (c\<lparr>wk_world := turn (wk_world c), wk_pc := AtTest\<rparr>)"

inductive worker_step :: "('w \<Rightarrow> 'w) \<Rightarrow> ('e \<Rightarrow> 'w \<Rightarrow> 'w) \<Rightarrow> 'w worker \<Rightarrow> 'w worker \<Rightarrow> bool" for turn env where
  step_own: "own_step turn c c' \<Longrightarrow> worker_step turn env c c'"
| step_env: "worker_step turn env c (c\<lparr>wk_world := env e (wk_world c)\<rparr>)"
| step_stop: "worker_step turn env c (c\<lparr>wk_stop := True\<rparr>)"
| step_join: "wk_stop c \<Longrightarrow> wk_pc c = Ended \<Longrightarrow> worker_step turn env c (c\<lparr>wk_pc := NoThread\<rparr>)"

abbreviation worker_run :: "('w \<Rightarrow> 'w) \<Rightarrow> ('e \<Rightarrow> 'w \<Rightarrow> 'w) \<Rightarrow> 'w worker \<Rightarrow> 'w worker \<Rightarrow> bool" where
  "worker_run turn env \<equiv> (worker_step turn env)\<^sup>*\<^sup>*"

section \<open>Stopping\<close>

text \<open>
  Once the flag is set the loop makes at most three steps more, and as long as it has not ended it can
  make one: \<open>stop\<close> returns, provided a turn does.
\<close>

fun steps_left :: "worker_pc \<Rightarrow> nat" where
  "steps_left InTurn = 2"
| "steps_left AtTest = 1"
| "steps_left _ = 0"

lemma own_step_stop [simp]: "own_step turn c c' \<Longrightarrow> wk_stop c' = wk_stop c"
  by (auto elim: own_step.cases)

lemma stop_measure: "own_step turn c c' \<Longrightarrow> wk_stop c \<Longrightarrow> steps_left (wk_pc c') < steps_left (wk_pc c)"
  by (auto elim!: own_step.cases)

lemma stop_progress: "wk_stop c \<Longrightarrow> 0 < steps_left (wk_pc c) \<Longrightarrow> \<exists>c'. own_step turn c c'"
  by (cases "wk_pc c") (auto intro: own_step.intros)

lemma own_steps_end:
  "wk_stop c \<Longrightarrow> wk_pc c \<noteq> NoThread \<Longrightarrow>
   \<exists>c'. worker_run turn env c c' \<and> wk_stop c' \<and> wk_pc c' = Ended"
proof (induction "steps_left (wk_pc c)" arbitrary: c rule: less_induct)
  case less
  show ?case
  proof (cases "wk_pc c = Ended")
    case True
    with less.prems show ?thesis by blast
  next
    case False
    with less.prems have "0 < steps_left (wk_pc c)" by (cases "wk_pc c") simp_all
    with stop_progress less.prems obtain c1 where c1: "own_step turn c c1" by blast
    then have "wk_pc c1 \<noteq> NoThread" by (auto elim!: own_step.cases)
    with less.hyps [OF stop_measure [OF c1]] c1 less.prems
    obtain c' where "worker_run turn env c1 c'" "wk_stop c'" "wk_pc c' = Ended" by auto
    with step_own [OF c1, of env] show ?thesis by (blast intro: converse_rtranclp_into_rtranclp)
  qed
qed

section \<open>The contract of a loop over a queue\<close>

fun turns_left :: "'w worker \<Rightarrow> nat" where
  \<comment> \<open>the turns a worker can still complete once it is told to stop\<close>
  "turns_left c = (if wk_pc c = InTurn then 1 else 0)"

locale queue_worker =
  fixes turn :: "'w \<Rightarrow> 'w" and env :: "'e \<Rightarrow> 'w \<Rightarrow> 'w" and ok :: "'w \<Rightarrow> bool"
    and pending :: "'w \<Rightarrow> 'a list" and result :: "'w \<Rightarrow> 'r" and app :: "'a \<Rightarrow> 'r \<Rightarrow> 'r"
  assumes turn_ok: "ok w \<Longrightarrow> ok (turn w)"
    and turn_pending: "ok w \<Longrightarrow> pending (turn w) = tl (pending w)"
    and turn_result: "ok w \<Longrightarrow> result (turn w) = fold app (take 1 (pending w)) (result w)"
    and env_ok: "ok w \<Longrightarrow> ok (env e w)"
    and env_pending: "ok w \<Longrightarrow> \<exists>xs. pending (env e w) = pending w @ xs"
    and env_result: "ok w \<Longrightarrow> result (env e w) = result w"
begin

definition served :: "'w worker \<Rightarrow> 'w worker \<Rightarrow> bool" where
  \<comment> \<open>from \<open>c\<close> to \<open>c'\<close> the queue was given \<open>xs\<close> and \<open>n\<close> items of it were taken\<close>
  "served c c' \<longleftrightarrow> ok (wk_world c') \<and> (\<exists>xs n. n \<le> length (pending (wk_world c) @ xs)
     \<and> pending (wk_world c') = drop n (pending (wk_world c) @ xs)
     \<and> result (wk_world c') = fold app (take n (pending (wk_world c) @ xs)) (result (wk_world c))
     \<and> (wk_stop c \<longrightarrow> wk_stop c' \<and> n + turns_left c' \<le> turns_left c))"

lemma served_refl: "ok (wk_world c) \<Longrightarrow> served c c"
  unfolding served_def by (auto intro!: exI [of _ "[]"] exI [of _ 0])

lemma served_same:
  assumes "served c c'" and "wk_world c'' = wk_world c'" and "wk_stop c' \<longrightarrow> wk_stop c'' \<and> turns_left c'' \<le> turns_left c'"
  shows "served c c''"
  using assms unfolding served_def by (fastforce intro: order_trans [OF add_left_mono])

lemma served_turn:
  assumes s: "served c c'" and pc: "wk_pc c' = InTurn"
  shows "served c (c'\<lparr>wk_world := turn (wk_world c'), wk_pc := AtTest\<rparr>)"
proof -
  obtain xs n where n: "ok (wk_world c')" "n \<le> length (pending (wk_world c) @ xs)"
    "pending (wk_world c') = drop n (pending (wk_world c) @ xs)"
    "result (wk_world c') = fold app (take n (pending (wk_world c) @ xs)) (result (wk_world c))"
    "wk_stop c \<longrightarrow> wk_stop c' \<and> n + turns_left c' \<le> turns_left c"
    using s unfolding served_def by blast
  define ys where "ys = pending (wk_world c) @ xs"
  define m where "m = min (length ys) (Suc n)"
  have m: "take m ys = take n ys @ take 1 (drop n ys)" "drop m ys = tl (drop n ys)" "m \<le> length ys" "m \<le> Suc n"
    using take_add [of n 1 ys] by (auto simp: m_def min_def drop_Suc tl_drop)
  have p: "pending (turn (wk_world c')) = drop m ys"
    using turn_pending [OF n(1)] n(3) by (simp add: ys_def [symmetric] m(2))
  have r: "result (turn (wk_world c')) = fold app (take m ys) (result (wk_world c))"
    using turn_result [OF n(1)] n(3,4) by (simp add: ys_def [symmetric] m(1))
  show ?thesis
    unfolding served_def using turn_ok [OF n(1)] p r m(3,4) n(5) pc
    by (intro conjI exI [of _ xs] exI [of _ m]) (auto simp: ys_def)
qed

lemma served_env:
  assumes s: "served c c'"
  shows "served c (c'\<lparr>wk_world := env e (wk_world c')\<rparr>)"
proof -
  obtain xs n where n: "ok (wk_world c')" "n \<le> length (pending (wk_world c) @ xs)"
    "pending (wk_world c') = drop n (pending (wk_world c) @ xs)"
    "result (wk_world c') = fold app (take n (pending (wk_world c) @ xs)) (result (wk_world c))"
    "wk_stop c \<longrightarrow> wk_stop c' \<and> n + turns_left c' \<le> turns_left c"
    using s unfolding served_def by blast
  obtain ys where ys: "pending (env e (wk_world c')) = pending (wk_world c') @ ys" using env_pending [OF n(1)] by blast
  have "take n (pending (wk_world c) @ xs @ ys) = take n (pending (wk_world c) @ xs)"
    "drop n (pending (wk_world c) @ xs @ ys) = drop n (pending (wk_world c) @ xs) @ ys"
    using n(2) append_assoc [of "pending (wk_world c)" xs ys] by (metis take_append diff_is_0_eq take_0 append_Nil2,
      metis drop_append diff_is_0_eq drop_0)
  then show ?thesis
    unfolding served_def using n ys env_ok [OF n(1)] env_result [OF n(1), of e]
    by (intro conjI exI [of _ "xs @ ys"] exI [of _ n]) auto
qed

lemma served_step: "served c c' \<Longrightarrow> worker_step turn env c' c'' \<Longrightarrow> served c c''"
  by (erule worker_step.cases)
    (auto elim!: own_step.cases intro: served_turn served_env elim: served_same)

lemma run_served:
  assumes "worker_run turn env c c'" and "ok (wk_world c)"
  shows "served c c'"
  using assms(1) by induction (use assms(2) served_refl served_step in blast)+

lemma stopped_turns:
  assumes "worker_run turn env c c'" and "ok (wk_world c)" and "wk_stop c"
  shows "\<exists>xs n. n \<le> 1 \<and> pending (wk_world c') = drop n (pending (wk_world c) @ xs)
     \<and> result (wk_world c') = fold app (take n (pending (wk_world c) @ xs)) (result (wk_world c))"
proof -
  obtain xs n where "pending (wk_world c') = drop n (pending (wk_world c) @ xs)"
    "result (wk_world c') = fold app (take n (pending (wk_world c) @ xs)) (result (wk_world c))"
    "n + turns_left c' \<le> turns_left c"
    using run_served [OF assms(1,2)] assms(3) unfolding served_def by blast
  moreover have "turns_left c \<le> 1" by simp
  ultimately show ?thesis by (meson le_trans le_add1)
qed

end

section \<open>The fill thread in the engine\<close>

definition other_thread :: "engine_event \<Rightarrow> engine \<Rightarrow> engine" where
  \<comment> \<open>a step of the engine that another thread than the fill thread makes\<close>
  "other_thread e eg = (if e = PortfolioTurn then eg else engine_step e eg)"

definition fill_thread :: "engine worker \<Rightarrow> engine worker \<Rightarrow> bool" where
  \<comment> \<open>the portfolio's thread, its \<open>start\<close> and \<open>stop\<close>, among the other threads\<close>
  "fill_thread = worker_step portfolio_turn other_thread"

definition feeds :: "oms \<Rightarrow> oms \<Rightarrow> bool" where
  "feeds m m' \<longleftrightarrow> om_fill_queue m' = om_fill_queue m \<or> (\<exists>f. om_fill_queue m' = snd (spsc_push f (om_fill_queue m)))"

lemma feeds_same: "om_fill_queue m' = om_fill_queue m \<Longrightarrow> feeds m m'"
  by (simp add: feeds_def)

lemma ack_queue [simp]: "om_fill_queue (on_order_ack ex oid m) = om_fill_queue m"
  by (simp add: on_order_ack_def split: option.split)

lemma reject_queue [simp]: "om_fill_queue (on_reject ex reason m) = om_fill_queue m"
  by (simp add: on_reject_def Let_def split: option.split)

lemma place_error_queue [simp]: "om_fill_queue (on_place_error oid reason m) = om_fill_queue m"
  by (simp add: on_place_error_def Let_def split: option.split)

lemma cancel_queue [simp]: "om_fill_queue (snd (cancel oid m)) = om_fill_queue m"
  by (cases rule: cancel_cases [of oid m]) simp_all

lemma cancel_list_queue [simp]: "om_fill_queue (cancel_list oids m) = om_fill_queue m"
  by (induction oids arbitrary: m) simp_all

lemma on_fill_feeds: "om_fill_queue m = om_fill_queue m0 \<Longrightarrow> feeds m0 (on_fill ex p q tid now m)"
proof -
  have "om_fill_queue (snd (dedup_guard tid m)) = om_fill_queue m" by (simp add: dedup_guard_eq)
  then show "om_fill_queue m = om_fill_queue m0 \<Longrightarrow> feeds m0 (on_fill ex p q tid now m)"
    by (auto simp: feeds_def on_fill_def split_beta apply_fill_def Let_def split: option.split)
qed

lemma submit_feeds: "feeds m (snd (submit req ck m))"
  unfolding submit_def generate_order_id_def Let_def split_beta
  by (auto simp del: append.simps split: option.split) ((rule on_fill_feeds | rule feeds_same), simp)+

lemma callbacks_same [simp]:
  "eg_oms (run_callbacks outs eg) = eg_oms eg" "eg_portfolio (run_callbacks outs eg) = eg_portfolio eg"
  by (induction outs eg rule: run_callbacks.induct) (simp_all add: fill_callback_def)

lemma with_oms_same' [simp]: "eg_oms (with_oms m eg) = m" "eg_portfolio (with_oms m eg) = eg_portfolio eg"
  by (simp_all add: with_oms_def)

lemma other_thread_feeds:
  "feeds (eg_oms eg) (eg_oms (other_thread e eg)) \<and> eg_portfolio (other_thread e eg) = eg_portfolio eg"
  by (cases e) (auto simp: other_thread_def ctx_submit_order_eq check_eq Let_def ctx_cancel_order_def split_beta
      normalizer_turn_def raw_tick_def cancel_all_open_def intro: submit_feeds on_fill_feeds feeds_same)

definition fills_pending :: "engine \<Rightarrow> fill list" where
  "fills_pending eg = spsc_items (om_fill_queue (eg_oms eg))"

definition fill_queue_ok :: "nat \<Rightarrow> engine \<Rightarrow> bool" where
  "fill_queue_ok k eg \<longleftrightarrow> spsc_inv k (om_fill_queue (eg_oms eg))"

lemma push_items:
  assumes "spsc_inv k q"
  shows "spsc_inv k (snd (spsc_push x q)) \<and> (\<exists>xs. spsc_items (snd (spsc_push x q)) = spsc_items q @ xs)"
  using ring.enq_refines [OF assms, of x] by (auto simp: list_enq_def split: if_splits) (metis+)

lemma feeds_items:
  assumes "feeds m m'" and "spsc_inv k (om_fill_queue m)"
  shows "spsc_inv k (om_fill_queue m') \<and> (\<exists>fs. spsc_items (om_fill_queue m') = spsc_items (om_fill_queue m) @ fs)"
  using assms(1) push_items [OF assms(2)] assms(2) by (auto simp: feeds_def)

lemma process_fills_fold: "process_fills fs pf = fold process_fill fs pf"
  by (induction fs arbitrary: pf) simp_all

interpretation fw: queue_worker portfolio_turn other_thread "fill_queue_ok k" fills_pending eg_portfolio process_fill for k
proof
  fix eg e
  assume ok: "fill_queue_ok k eg"
  then have "spsc_inv k (om_fill_queue (eg_oms eg))" by (simp add: fill_queue_ok_def)
  note it = fill_loop_iter_items [OF this, of "eg_portfolio eg"]
  show "fill_queue_ok k (portfolio_turn eg)" "fills_pending (portfolio_turn eg) = tl (fills_pending eg)"
    "eg_portfolio (portfolio_turn eg) = fold process_fill (take 1 (fills_pending eg)) (eg_portfolio eg)"
    using it by (simp_all add: fill_queue_ok_def fills_pending_def portfolio_turn_def split_beta process_fills_fold)
  note fd = feeds_items [OF conjunct1 [OF other_thread_feeds], OF ok [unfolded fill_queue_ok_def], of e]
  show "fill_queue_ok k (other_thread e eg)" "\<exists>fs. fills_pending (other_thread e eg) = fills_pending eg @ fs"
    "eg_portfolio (other_thread e eg) = eg_portfolio eg"
    using fd other_thread_feeds by (simp_all add: fill_queue_ok_def fills_pending_def)
qed

text \<open>
  C25: from the moment \<open>portfolio.stop()\<close> sets the flag, at most one fill of those queued, or queued later,
  is applied to the book, whatever the other threads do meanwhile and however long the thread takes to be
  joined. The others stay in the queue: they have been published and are never in a snapshot.
\<close>

lemma portfolio_stop_strands_fills:
  assumes "fill_queue_ok k (wk_world c)" and "wk_stop c" and "fill_thread\<^sup>*\<^sup>* c c'"
  shows "\<exists>fs n. n \<le> 1 \<and> fills_pending (wk_world c') = drop n (fills_pending (wk_world c) @ fs)
     \<and> eg_portfolio (wk_world c') = fold process_fill (take n (fills_pending (wk_world c) @ fs)) (eg_portfolio (wk_world c))"
  using fw.stopped_turns [OF assms(3) [unfolded fill_thread_def] assms(1,2)] .

lemma portfolio_stop_strands_fills_witness:
  "\<exists>c c' f. fill_thread\<^sup>*\<^sup>* c c' \<and> wk_stop c \<and> wk_pc c' = NoThread
     \<and> eg_published_fills (wk_world c') = [f] \<and> fills_pending (wk_world c') = [f]
     \<and> (\<exists>fs n. n \<le> 1 \<and> fills_pending (wk_world c') = drop n ([f] @ fs))"
proof -
  define eg where "eg = engine_step first_order (engine_new engine_config_init 0)"
  have "ec_paper_trading engine_config_init" "ec_strategies engine_config_init = []"
    by (simp_all add: engine_config_init_def)
  then obtain f where f: "fill_queue_ok 12 eg" "fills_pending eg = [f]" "eg_published_fills eg = [f]"
    unfolding eg_def fill_queue_ok_def fills_pending_def using first_order_fill [of engine_config_init] by metis
  let ?c = "\<lparr>wk_stop = True, wk_pc = AtTest, wk_world = eg\<rparr>"
  let ?e = "?c\<lparr>wk_pc := Ended\<rparr>"
  have "fill_thread ?c ?e" unfolding fill_thread_def by (rule step_own, rule own_leave) simp_all
  moreover have "fill_thread ?e (?e\<lparr>wk_pc := NoThread\<rparr>)" unfolding fill_thread_def by (rule step_join) simp_all
  ultimately have run: "fill_thread\<^sup>*\<^sup>* ?c (?e\<lparr>wk_pc := NoThread\<rparr>)"
    by (meson converse_rtranclp_into_rtranclp rtranclp.rtrancl_refl)
  from portfolio_stop_strands_fills [OF _ _ this, of 12] f
  have "\<exists>fs n. n \<le> 1 \<and> fills_pending (wk_world (?e\<lparr>wk_pc := NoThread\<rparr>)) = drop n ([f] @ fs)"
    unfolding worker.simps by metis
  then show ?thesis
    using run f by (intro exI [of _ ?c] exI [of _ "?e\<lparr>wk_pc := NoThread\<rparr>"] exI [of _ f]) (simp only: worker.simps simp_thms)
qed

text \<open>
  While the thread runs, the book is at every moment that of the fills taken so far, in the order the OMS
  queued them, whatever the interleaving.
\<close>

lemma fill_thread_serves_in_order:
  assumes "fill_queue_ok k (wk_world c)" and "fill_thread\<^sup>*\<^sup>* c c'"
  shows "\<exists>fs n. fills_pending (wk_world c') = drop n (fills_pending (wk_world c) @ fs)
     \<and> eg_portfolio (wk_world c') = fold process_fill (take n (fills_pending (wk_world c) @ fs)) (eg_portfolio (wk_world c))"
  using fw.run_served [OF assms(2) [unfolded fill_thread_def] assms(1)] unfolding fw.served_def by blast

section \<open>The normalizer thread\<close>

definition normalize :: "tick \<Rightarrow> normalizer \<Rightarrow> normalizer" where
  \<comment> \<open>what \<open>run\<close> does with a tick it has popped\<close>
  "normalize t nm = (let (valid, nm) = validate t nm
     in if \<not> valid then nm
        else nm\<lparr>nm_disruptor := disr_push t (nm_disruptor nm),
                nm_candle_builder := cb_on_tick t (nm_candle_builder nm),
                nm_kafka_out := nm_kafka_out nm @ (if nm_has_kafka_fn nm then [t] else []),
                nm_ticks_processed := nm_ticks_processed nm + 1\<rparr>)"

definition queue_tick :: "tick \<Rightarrow> normalizer \<Rightarrow> normalizer" where
  "queue_tick t nm = nm\<lparr>nm_raw_queue := snd (spsc_push t (nm_raw_queue nm))\<rparr>"

definition without_queue :: "normalizer \<Rightarrow> normalizer" where
  "without_queue nm = nm\<lparr>nm_raw_queue := spsc_new 1 tick_init\<rparr>"

definition normalizer_thread :: "normalizer worker \<Rightarrow> normalizer worker \<Rightarrow> bool" where
  "normalizer_thread = worker_step normalizer_iter queue_tick"

lemma normalize_queue: "without_queue (normalize t nm) = normalize t (without_queue nm)"
  "nm_raw_queue (normalize t nm) = nm_raw_queue nm"
  by (simp_all add: normalize_def without_queue_def validate_conv Let_def)

interpretation nw: queue_worker normalizer_iter queue_tick "\<lambda>nm :: normalizer. spsc_inv k (nm_raw_queue nm)"
  "\<lambda>nm :: normalizer. spsc_items (nm_raw_queue nm)" without_queue normalize for k
proof
  fix nm :: normalizer and t :: tick
  assume ok: "spsc_inv k (nm_raw_queue nm)"
  have "spsc_inv k (nm_raw_queue (normalizer_iter nm))
     \<and> spsc_items (nm_raw_queue (normalizer_iter nm)) = tl (spsc_items (nm_raw_queue nm))
     \<and> without_queue (normalizer_iter nm) = fold normalize (take 1 (spsc_items (nm_raw_queue nm))) (without_queue nm)"
  proof (cases "spsc_items (nm_raw_queue nm)")
    case Nil
    then show ?thesis using ok normalizer_iter_nil [OF ok Nil] by simp
  next
    case (Cons x xs)
    obtain q where q: "spsc_pop (nm_raw_queue nm) = (Some x, q)" "spsc_inv k q" "spsc_items q = xs"
      using ring.deq_cons [OF ok Cons] by blast
    have "normalizer_iter nm = normalize x (nm\<lparr>nm_raw_queue := q\<rparr>)" by (simp add: normalizer_iter_def normalize_def q(1))
    then show ?thesis using q Cons by (simp add: normalize_queue) (simp add: without_queue_def)
  qed
  then show "spsc_inv k (nm_raw_queue (normalizer_iter nm))"
    "spsc_items (nm_raw_queue (normalizer_iter nm)) = tl (spsc_items (nm_raw_queue nm))"
    "without_queue (normalizer_iter nm) = fold normalize (take 1 (spsc_items (nm_raw_queue nm))) (without_queue nm)"
    by simp_all
  show "spsc_inv k (nm_raw_queue (queue_tick t nm))"
    "\<exists>ts. spsc_items (nm_raw_queue (queue_tick t nm)) = spsc_items (nm_raw_queue nm) @ ts"
    using push_items [OF ok, of t] by (simp_all add: queue_tick_def)
  show "without_queue (queue_tick t nm) = without_queue nm" by (simp add: queue_tick_def without_queue_def)
qed

text \<open>
  The normalizer thread handles the ticks one by one in the order they were queued, in every interleaving
  with the thread that queues them, and at most one more once it is told to stop.
\<close>

lemma normalizer_thread_serves_in_order:
  assumes "spsc_inv k (nm_raw_queue (wk_world c))" and "normalizer_thread\<^sup>*\<^sup>* c c'"
  shows "\<exists>ts n. spsc_items (nm_raw_queue (wk_world c')) = drop n (spsc_items (nm_raw_queue (wk_world c)) @ ts)
     \<and> without_queue (wk_world c') = fold normalize (take n (spsc_items (nm_raw_queue (wk_world c)) @ ts)) (without_queue (wk_world c))
     \<and> (wk_stop c \<longrightarrow> n \<le> 1)"
proof (cases "wk_stop c")
  case True
  then show ?thesis using nw.stopped_turns [OF assms(2) [unfolded normalizer_thread_def] assms(1)] by blast
next
  case False
  then show ?thesis using nw.run_served [OF assms(2) [unfolded normalizer_thread_def] assms(1)] unfolding nw.served_def by blast
qed

section \<open>The delivery poll of Kafka\<close>

definition delivery_poll :: "(int \<Rightarrow> 'p \<Rightarrow> 'p) \<Rightarrow> 'p option \<Rightarrow> 'p option" where
  \<comment> \<open>a turn of the poll thread; what \<open>poll\<close> does to the producer is an argument\<close>
  "delivery_poll poll producer = map_option (poll 10) producer"

definition poll_thread :: "(int \<Rightarrow> 'p \<Rightarrow> 'p) \<Rightarrow> ('p \<Rightarrow> 'p) \<Rightarrow> 'p option worker \<Rightarrow> 'p option worker \<Rightarrow> bool" where
  \<comment> \<open>among the other threads, which only produce\<close>
  "poll_thread poll produced = worker_step (delivery_poll poll) (\<lambda>_ :: unit. map_option produced)"

definition kafka_close :: "(int \<Rightarrow> 'p \<Rightarrow> 'p) \<Rightarrow> 'p option worker \<Rightarrow> 'p option worker" where
  \<comment> \<open>the destructor, once its \<open>join\<close> has returned\<close>
  "kafka_close flush c = c\<lparr>wk_world := map_option (flush 5000) (wk_world c)\<rparr>"

text \<open>Each of the three threads ends after \<open>stop\<close>, and \<open>join\<close> returns.\<close>

lemma worker_joins:
  assumes "wk_stop c" and "wk_pc c \<noteq> NoThread"
  shows "\<exists>c'. worker_run turn env c c' \<and> wk_pc c' = NoThread"
proof -
  obtain c1 where c1: "worker_run turn env c c1" "wk_stop c1" "wk_pc c1 = Ended"
    using own_steps_end [OF assms] by blast
  from rtranclp.rtrancl_into_rtrancl [OF c1(1) step_join [OF c1(2,3)]] show ?thesis by fastforce
qed

end
