(* ===== verification/QF_Disruptor_Race.thy ===== *)
theory QF_Disruptor_Race
  imports QF_Disruptor
begin

text \<open>
  The disruptor of \<open>cpp/common/disruptor.hpp\<close> with a producer and a consumer that run at the same time. A
  tick is copied word by word (\<open>N\<close> words), into the slot by \<open>publish\<close> and out of it by \<open>try_consume\<close>, so that
  a copy can see half of an overwrite. One rule is one memory access. Accesses are sequentially
  consistent: the release store of the sequence and the acquire load order the words before it.

  \<open>in_window\<close> is the condition under which the consumer reads whole ticks in order: the producer has
  claimed no sequence \<open>BUFFER_SIZE\<close> or more past the one that is read.
\<close>

section \<open>State and steps\<close>

datatype 'w producer_pc = PFree | PWrite int "'w list" nat

datatype consumer_pc = CFree | CCopy int nat

record 'w disr_race =
  dr_ring :: "'w list disruptor"
  dr_prod :: "'w producer_pc"
  dr_cons :: consumer_pc
  dr_cursor :: int
  dr_out :: "'w list"
  dr_claimed :: "'w list list" \<comment> \<open>what was pushed, from the claim on\<close>
  dr_received :: "'w list list"

definition race_new :: "'w list \<Rightarrow> 'w list \<Rightarrow> 'w disr_race" where
  "race_new d out = \<lparr>dr_ring = disr_new d, dr_prod = PFree, dr_cons = CFree, dr_cursor = -1, dr_out = out,
     dr_claimed = [], dr_received = []\<rparr>"

definition write_word :: "nat \<Rightarrow> nat \<Rightarrow> 'w \<Rightarrow> 'w list disruptor \<Rightarrow> 'w list disruptor" where
  "write_word i k x d = d\<lparr>ds_buffer := (ds_buffer d)(i := (ds_buffer d i)\<lparr>sl_tick := (sl_tick (ds_buffer d i))[k := x]\<rparr>)\<rparr>"

definition write_sequence :: "nat \<Rightarrow> int \<Rightarrow> 'w list disruptor \<Rightarrow> 'w list disruptor" where
  "write_sequence i seq d = d\<lparr>ds_buffer := (ds_buffer d)(i := (ds_buffer d i)\<lparr>sl_sequence := seq\<rparr>)\<rparr>"

inductive race_step :: "nat \<Rightarrow> 'w disr_race \<Rightarrow> 'w disr_race \<Rightarrow> bool" for N where
  p_claim: "dr_prod c = PFree \<Longrightarrow> length x = N \<Longrightarrow> claim_next (dr_ring c) = (seq, d) \<Longrightarrow>
    race_step N c (c\<lparr>dr_ring := d, dr_prod := PWrite seq x 0, dr_claimed := dr_claimed c @ [x]\<rparr>)"
| p_word: "dr_prod c = PWrite seq x k \<Longrightarrow> k < N \<Longrightarrow>
    race_step N c (c\<lparr>dr_ring := write_word (slot_index seq) k (x ! k) (dr_ring c), dr_prod := PWrite seq x (Suc k)\<rparr>)"
| p_store: "dr_prod c = PWrite seq x N \<Longrightarrow>
    race_step N c (c\<lparr>dr_ring := write_sequence (slot_index seq) seq (dr_ring c), dr_prod := PFree\<rparr>)"
| c_none: "dr_cons c = CFree \<Longrightarrow> nxt = i64 (dr_cursor c + 1) \<Longrightarrow>
    sl_sequence (ds_buffer (dr_ring c) (slot_index nxt)) < nxt \<Longrightarrow> race_step N c c"
| c_load: "dr_cons c = CFree \<Longrightarrow> nxt = i64 (dr_cursor c + 1) \<Longrightarrow>
    \<not> sl_sequence (ds_buffer (dr_ring c) (slot_index nxt)) < nxt \<Longrightarrow>
    race_step N c (c\<lparr>dr_cons := CCopy nxt 0\<rparr>)"
| c_word: "dr_cons c = CCopy nxt k \<Longrightarrow> k < N \<Longrightarrow>
    race_step N c (c\<lparr>dr_out := (dr_out c)[k := sl_tick (ds_buffer (dr_ring c) (slot_index nxt)) ! k], dr_cons := CCopy nxt (Suc k)\<rparr>)"
| c_done: "dr_cons c = CCopy nxt N \<Longrightarrow>
    race_step N c (c\<lparr>dr_cursor := nxt, dr_cons := CFree, dr_received := dr_received c @ [dr_out c]\<rparr>)"

definition in_window :: "'w disr_race \<Rightarrow> bool" where
  "in_window c \<longleftrightarrow> ds_producer_seq (dr_ring c) - dr_cursor c \<le> int BUFFER_SIZE
     \<and> int (length (dr_claimed c)) < 2 ^ 63"

inductive race_reach :: "nat \<Rightarrow> 'w list \<Rightarrow> 'w list \<Rightarrow> 'w disr_race \<Rightarrow> bool" for N d out where
  race_init: "race_reach N d out (race_new d out)"
| race_next: "race_reach N d out c \<Longrightarrow> race_step N c c' \<Longrightarrow> in_window c' \<Longrightarrow> race_reach N d out c'"

section \<open>The invariant\<close>

definition stored :: "'w disr_race \<Rightarrow> nat" where
  \<comment> \<open>how many ticks have their sequence stored\<close>
  "stored c = (case dr_prod c of PFree \<Rightarrow> length (dr_claimed c) | PWrite _ _ _ \<Rightarrow> length (dr_claimed c) - 1)"

lemma stored_frame [simp]:
  "stored (c\<lparr>dr_cons := pc\<rparr>) = stored c" "stored (c\<lparr>dr_out := ws\<rparr>) = stored c"
  "stored (c\<lparr>dr_cursor := n\<rparr>) = stored c" "stored (c\<lparr>dr_received := xs\<rparr>) = stored c"
  by (cases "dr_prod c"; simp add: stored_def)+

definition slots_ok :: "'w disr_race \<Rightarrow> bool" where
  "slots_ok c \<longleftrightarrow>
     (\<forall>j < stored c. stored c \<le> j + BUFFER_SIZE \<longrightarrow> sl_sequence (ds_buffer (dr_ring c) (j mod BUFFER_SIZE)) = int j)
     \<and> (\<forall>j < stored c. length (dr_claimed c) \<le> j + BUFFER_SIZE \<longrightarrow>
          sl_tick (ds_buffer (dr_ring c) (j mod BUFFER_SIZE)) = dr_claimed c ! j)
     \<and> (\<forall>i < BUFFER_SIZE. stored c \<le> i \<longrightarrow> sl_sequence (ds_buffer (dr_ring c) i) = -1)"

definition prod_ok :: "nat \<Rightarrow> 'w disr_race \<Rightarrow> bool" where
  "prod_ok N c \<longleftrightarrow> ds_producer_seq (dr_ring c) = int (length (dr_claimed c)) - 1
     \<and> (\<forall>x \<in> set (dr_claimed c). length x = N)
     \<and> (\<forall>i. length (sl_tick (ds_buffer (dr_ring c) i)) = N)
     \<and> (case dr_prod c of PFree \<Rightarrow> True
        | PWrite seq x k \<Rightarrow> dr_claimed c \<noteq> [] \<and> seq = int (length (dr_claimed c)) - 1 \<and> x = last (dr_claimed c) \<and> k \<le> N
            \<and> take k (sl_tick (ds_buffer (dr_ring c) (stored c mod BUFFER_SIZE))) = take k x)"

definition cons_ok :: "nat \<Rightarrow> 'w disr_race \<Rightarrow> bool" where
  "cons_ok N c \<longleftrightarrow> length (dr_out c) = N \<and> dr_cursor c = int (length (dr_received c)) - 1
     \<and> length (dr_received c) \<le> stored c \<and> dr_received c = take (length (dr_received c)) (dr_claimed c)
     \<and> (case dr_cons c of CFree \<Rightarrow> True
        | CCopy nxt k \<Rightarrow> nxt = int (length (dr_received c)) \<and> length (dr_received c) < stored c \<and> k \<le> N
            \<and> take k (dr_out c) = take k (dr_claimed c ! length (dr_received c)))"

definition race_inv :: "nat \<Rightarrow> 'w disr_race \<Rightarrow> bool" where
  "race_inv N c \<longleftrightarrow> in_window c \<and> slots_ok c \<and> prod_ok N c \<and> cons_ok N c"

lemma race_inv_new: "length d = N \<Longrightarrow> length out = N \<Longrightarrow> race_inv N (race_new d out)"
  by (simp add: race_inv_def race_new_def in_window_def slots_ok_def prod_ok_def cons_ok_def stored_def disr_new_def
      BUFFER_SIZE_def)

lemma window_len: "race_inv N c \<Longrightarrow> length (dr_claimed c) \<le> length (dr_received c) + BUFFER_SIZE"
  by (simp add: race_inv_def in_window_def prod_ok_def cons_ok_def)

lemma take_Suc_update:
  "k < length xs \<Longrightarrow> k < length ys \<Longrightarrow> take k xs = take k ys \<Longrightarrow> take (Suc k) (xs[k := ys ! k]) = take (Suc k) ys"
  by (simp add: take_Suc_conv_app_nth)

lemma last_conv_stored: "dr_prod c = PWrite seq x k \<Longrightarrow> dr_claimed c \<noteq> [] \<Longrightarrow> last (dr_claimed c) = dr_claimed c ! stored c"
  by (simp add: stored_def last_conv_nth)

section \<open>Steps keep it\<close>

lemma window_mod:
  "j < m \<Longrightarrow> m < j + BUFFER_SIZE \<Longrightarrow> m mod BUFFER_SIZE = j mod BUFFER_SIZE \<Longrightarrow> False"
  using mod_window_neq [of j m BUFFER_SIZE] by simp

lemma stored_le: "stored c \<le> length (dr_claimed c)"
  by (simp add: stored_def split: producer_pc.split)

lemma cons_ok_frame:
  assumes "cons_ok N c" and "stored c \<le> stored c'" and "dr_claimed c' = dr_claimed c @ xs" and "dr_cons c' = dr_cons c"
    "dr_cursor c' = dr_cursor c" "dr_out c' = dr_out c" "dr_received c' = dr_received c"
  shows "cons_ok N c'"
proof -
  have "length (dr_received c) \<le> length (dr_claimed c)"
    using assms(1) stored_le [of c] by (simp add: cons_ok_def)
  moreover have "length (dr_received c) < stored c \<Longrightarrow> dr_claimed c' ! length (dr_received c) = dr_claimed c ! length (dr_received c)"
    using assms(3) stored_le [of c] by (simp add: nth_append)
  ultimately show ?thesis
    using assms by (auto simp: cons_ok_def split: consumer_pc.splits)
qed

lemma keep_claim:
  assumes inv: "race_inv N c" and pc: "dr_prod c = PFree" and x: "length x = N"
    and cl: "claim_next (dr_ring c) = (seq, d)"
    and c': "c' = c\<lparr>dr_ring := d, dr_prod := PWrite seq x 0, dr_claimed := dr_claimed c @ [x]\<rparr>" and win: "in_window c'"
  shows "race_inv N c'"
proof -
  have n: "ds_producer_seq (dr_ring c) = int (length (dr_claimed c)) - 1" "int (length (dr_claimed c)) < 2 ^ 63"
    using inv by (simp_all add: race_inv_def prod_ok_def in_window_def)
  have sd: "seq = int (length (dr_claimed c))" "d = (dr_ring c)\<lparr>ds_producer_seq := int (length (dr_claimed c))\<rparr>"
  proof -
    have "claim_next (dr_ring c) = (int (length (dr_claimed c)), (dr_ring c)\<lparr>ds_producer_seq := int (length (dr_claimed c))\<rparr>)"
      using n by (simp add: claim_next_def i64_id)
    from trans [OF cl [symmetric] this]
    show "seq = int (length (dr_claimed c))" "d = (dr_ring c)\<lparr>ds_producer_seq := int (length (dr_claimed c))\<rparr>"
      by (simp_all only: prod.inject)
  qed
  have st: "stored c' = stored c" by (simp add: c' stored_def pc)
  have all: "stored c = length (dr_claimed c)" by (simp add: stored_def pc)
  have ring: "ds_buffer (dr_ring c') = ds_buffer (dr_ring c)" "ds_producer_seq (dr_ring c') = seq"
    "dr_claimed c' = dr_claimed c @ [x]" "dr_prod c' = PWrite seq x 0"
    by (simp_all add: c' sd)
  have "slots_ok c'" using inv unfolding race_inv_def slots_ok_def st ring by (simp add: all nth_append)
  moreover have "prod_ok N c'"
    using inv x unfolding race_inv_def prod_ok_def st ring by (auto simp: sd)
  moreover have "cons_ok N c'"
    by (rule cons_ok_frame [of N c _ "[x]"]) (use inv st in \<open>simp_all add: race_inv_def\<close>, simp_all add: c')
  ultimately show ?thesis using win by (simp add: race_inv_def)
qed

lemma keep_word:
  assumes inv: "race_inv N c" and pc: "dr_prod c = PWrite seq x k" and k: "k < N"
    and c': "c' = c\<lparr>dr_ring := write_word (slot_index seq) k (x ! k) (dr_ring c), dr_prod := PWrite seq x (Suc k)\<rparr>"
    and win: "in_window c'"
  shows "race_inv N c'"
proof -
  have p: "dr_claimed c \<noteq> []" "seq = int (length (dr_claimed c)) - 1" "x = last (dr_claimed c)"
    "take k (sl_tick (ds_buffer (dr_ring c) (stored c mod BUFFER_SIZE))) = take k x"
    using inv by (simp_all add: race_inv_def prod_ok_def pc)
  have st: "stored c' = stored c" "Suc (stored c) = length (dr_claimed c)"
    using p(1) by (simp_all add: c' stored_def pc)
  have sq: "seq = int (stored c)" using p(2) st(2) by simp
  have si: "slot_index seq = stored c mod BUFFER_SIZE" unfolding sq by (rule slot_index_of_nat)
  have lens: "length (sl_tick (ds_buffer (dr_ring c) i)) = N" "length x = N" for i
    using inv p(1,3) by (auto simp: race_inv_def prod_ok_def)
  have other: "j mod BUFFER_SIZE \<noteq> stored c mod BUFFER_SIZE" if "j < stored c" "length (dr_claimed c) \<le> j + BUFFER_SIZE" for j
    using window_mod [of j "stored c"] that st(2) by auto
  have ring: "sl_sequence (ds_buffer (dr_ring c') i) = sl_sequence (ds_buffer (dr_ring c) i)"
    "i \<noteq> stored c mod BUFFER_SIZE \<Longrightarrow> sl_tick (ds_buffer (dr_ring c') i) = sl_tick (ds_buffer (dr_ring c) i)"
    "dr_claimed c' = dr_claimed c" for i
    by (simp_all add: c' write_word_def si)
  have now: "sl_tick (ds_buffer (dr_ring c') (stored c mod BUFFER_SIZE))
      = (sl_tick (ds_buffer (dr_ring c) (stored c mod BUFFER_SIZE)))[k := x ! k]"
    "length (sl_tick (ds_buffer (dr_ring c') i)) = length (sl_tick (ds_buffer (dr_ring c) i))"
    "ds_producer_seq (dr_ring c') = ds_producer_seq (dr_ring c)" "dr_claimed c' = dr_claimed c" for i
    by (simp_all add: c' write_word_def si)
  have pc': "dr_prod c' = PWrite seq x (Suc k)" by (simp add: c')
  have "slots_ok c'"
    using inv other by (simp add: race_inv_def slots_ok_def st(1) ring)
  moreover have "prod_ok N c'"
    using inv k lens p take_Suc_update [of k "sl_tick (ds_buffer (dr_ring c) (stored c mod BUFFER_SIZE))" x]
    by (simp add: race_inv_def prod_ok_def st(1) pc' now)
  moreover have "cons_ok N c'"
    by (rule cons_ok_frame [of N c _ "[]"]) (use inv st in \<open>simp_all add: race_inv_def\<close>, simp_all add: c')
  ultimately show ?thesis using win by (simp add: race_inv_def)
qed

lemma keep_store:
  assumes inv: "race_inv N c" and pc: "dr_prod c = PWrite seq x N"
    and c': "c' = c\<lparr>dr_ring := write_sequence (slot_index seq) seq (dr_ring c), dr_prod := PFree\<rparr>" and win: "in_window c'"
  shows "race_inv N c'"
proof -
  have p: "dr_claimed c \<noteq> []" "seq = int (length (dr_claimed c)) - 1" "x = last (dr_claimed c)"
    "take N (sl_tick (ds_buffer (dr_ring c) (stored c mod BUFFER_SIZE))) = take N x"
    using inv by (simp_all add: race_inv_def prod_ok_def pc)
  have st: "stored c' = length (dr_claimed c)" "Suc (stored c) = length (dr_claimed c)"
    using p(1) by (simp_all add: c' stored_def pc)
  have sq: "seq = int (stored c)" using p(2) st(2) by simp
  have si: "slot_index seq = stored c mod BUFFER_SIZE" unfolding sq by (rule slot_index_of_nat)
  have "length x = N" using inv p(1,3) by (simp add: race_inv_def prod_ok_def)
  then have tick: "sl_tick (ds_buffer (dr_ring c) (stored c mod BUFFER_SIZE)) = dr_claimed c ! stored c"
    using inv p(3,4) last_conv_stored [OF pc p(1)] by (simp add: race_inv_def prod_ok_def)
  have other: "j mod BUFFER_SIZE \<noteq> stored c mod BUFFER_SIZE" if "j < stored c" "Suc (stored c) \<le> j + BUFFER_SIZE" for j
    using window_mod [of j "stored c"] that by auto
  have ring: "sl_tick (ds_buffer (dr_ring c') i) = sl_tick (ds_buffer (dr_ring c) i)"
    "i \<noteq> stored c mod BUFFER_SIZE \<Longrightarrow> sl_sequence (ds_buffer (dr_ring c') i) = sl_sequence (ds_buffer (dr_ring c) i)"
    "sl_sequence (ds_buffer (dr_ring c') (stored c mod BUFFER_SIZE)) = int (stored c)" "dr_claimed c' = dr_claimed c" for i
    by (simp_all add: c' write_sequence_def si) (simp add: sq)
  note old = inv [unfolded race_inv_def slots_ok_def st(2) [symmetric]]
  have "sl_sequence (ds_buffer (dr_ring c') (j mod BUFFER_SIZE)) = int j"
    if "j < Suc (stored c)" "Suc (stored c) \<le> j + BUFFER_SIZE" for j
    using that old other [of j] by (cases "j = stored c") (simp_all add: ring)
  moreover have "sl_tick (ds_buffer (dr_ring c) (j mod BUFFER_SIZE)) = dr_claimed c ! j"
    if "j < Suc (stored c)" "Suc (stored c) \<le> j + BUFFER_SIZE" for j
    using that old tick by (cases "j = stored c") simp_all
  moreover have "sl_sequence (ds_buffer (dr_ring c') i) = -1" if "i < BUFFER_SIZE" "Suc (stored c) \<le> i" for i
    using that old by (simp add: ring)
  ultimately have "slots_ok c'"
    unfolding slots_ok_def st(1) st(2) [symmetric] ring(1,4) by simp
  moreover have "prod_ok N c'"
    using inv by (auto simp: race_inv_def prod_ok_def c' write_sequence_def)
  moreover have "cons_ok N c'"
    by (rule cons_ok_frame [of N c _ "[]"]) (use inv st in \<open>simp_all add: race_inv_def\<close>, simp_all add: c')
  ultimately show ?thesis using win by (simp add: race_inv_def)
qed

lemma next_seq:
  assumes "race_inv N c"
  shows "i64 (dr_cursor c + 1) = int (length (dr_received c))"
  using assms by (auto simp: race_inv_def cons_ok_def in_window_def stored_def intro!: i64_id
      split: producer_pc.splits)

lemma available:
  assumes inv: "race_inv N c"
    and s: "\<not> sl_sequence (ds_buffer (dr_ring c) (slot_index (int (length (dr_received c))))) < int (length (dr_received c))"
  shows "length (dr_received c) < stored c"
proof (rule ccontr)
  let ?r = "length (dr_received c)"
  assume "\<not> ?r < stored c"
  then have r: "?r = stored c" using inv by (simp add: race_inv_def cons_ok_def)
  have B: "0 < BUFFER_SIZE" by (simp add: BUFFER_SIZE_def)
  have "sl_sequence (ds_buffer (dr_ring c) (?r mod BUFFER_SIZE)) < int ?r"
  proof (cases "?r < BUFFER_SIZE")
    case True
    then show ?thesis using inv r by (simp add: race_inv_def slots_ok_def)
  next
    case False
    then have "?r mod BUFFER_SIZE = (?r - BUFFER_SIZE) mod BUFFER_SIZE" by (simp add: le_mod_geq)
    moreover have "\<forall>j < ?r. ?r \<le> j + BUFFER_SIZE \<longrightarrow> sl_sequence (ds_buffer (dr_ring c) (j mod BUFFER_SIZE)) = int j"
      using inv r by (simp add: race_inv_def slots_ok_def)
    ultimately show ?thesis using False B by simp
  qed
  with s show False by (simp add: slot_index_of_nat)
qed

lemma keep_consumer:
  assumes inv: "race_inv N c" and c': "dr_ring c' = dr_ring c" "dr_prod c' = dr_prod c" "dr_claimed c' = dr_claimed c"
    and win: "in_window c'" and cons: "cons_ok N c'"
  shows "race_inv N c'"
proof -
  have st: "stored c' = stored c" unfolding stored_def c' ..
  show ?thesis using inv win cons unfolding race_inv_def slots_ok_def prod_ok_def c' st by simp
qed

lemma keep_load:
  assumes inv: "race_inv N c" and pc: "dr_cons c = CFree" and nxt: "nxt = i64 (dr_cursor c + 1)"
    and s: "\<not> sl_sequence (ds_buffer (dr_ring c) (slot_index nxt)) < nxt"
    and c': "c' = c\<lparr>dr_cons := CCopy nxt 0\<rparr>" and win: "in_window c'"
  shows "race_inv N c'"
proof -
  have n: "nxt = int (length (dr_received c))" using next_seq [OF inv] nxt by simp
  with available [OF inv] s have "length (dr_received c) < stored c" by simp
  then have "cons_ok N c'" using inv n by (auto simp: race_inv_def cons_ok_def c')
  then show ?thesis using keep_consumer [OF inv _ _ _ win] by (simp add: c')
qed

lemma keep_copy:
  assumes inv: "race_inv N c" and pc: "dr_cons c = CCopy nxt k" and k: "k < N"
    and c': "c' = c\<lparr>dr_out := (dr_out c)[k := sl_tick (ds_buffer (dr_ring c) (slot_index nxt)) ! k], dr_cons := CCopy nxt (Suc k)\<rparr>"
    and win: "in_window c'"
  shows "race_inv N c'"
proof -
  let ?r = "length (dr_received c)"
  have r: "nxt = int ?r" "?r < stored c" "take k (dr_out c) = take k (dr_claimed c ! ?r)" "length (dr_out c) = N"
    using inv by (simp_all add: race_inv_def cons_ok_def pc)
  have "\<forall>j < stored c. length (dr_claimed c) \<le> j + BUFFER_SIZE \<longrightarrow>
      sl_tick (ds_buffer (dr_ring c) (j mod BUFFER_SIZE)) = dr_claimed c ! j"
    using inv by (simp add: race_inv_def slots_ok_def)
  then have t: "sl_tick (ds_buffer (dr_ring c) (slot_index nxt)) = dr_claimed c ! ?r"
    using r(1,2) window_len [OF inv] by (simp add: slot_index_of_nat)
  moreover have "length (sl_tick (ds_buffer (dr_ring c) (slot_index nxt))) = N"
    using inv by (simp add: race_inv_def prod_ok_def)
  ultimately have "take (Suc k) (dr_out c') = take (Suc k) (dr_claimed c ! ?r)"
    using take_Suc_update [of k "dr_out c" "dr_claimed c ! ?r"] r k by (simp add: c')
  then have "cons_ok N c'" using inv k r by (simp add: race_inv_def cons_ok_def c')
  then show ?thesis using keep_consumer [OF inv _ _ _ win] by (simp add: c')
qed

lemma keep_done:
  assumes inv: "race_inv N c" and pc: "dr_cons c = CCopy nxt N"
    and c': "c' = c\<lparr>dr_cursor := nxt, dr_cons := CFree, dr_received := dr_received c @ [dr_out c]\<rparr>" and win: "in_window c'"
  shows "race_inv N c'"
proof -
  let ?r = "length (dr_received c)"
  have r: "nxt = int ?r" "?r < stored c" "take N (dr_out c) = take N (dr_claimed c ! ?r)" "length (dr_out c) = N"
    "dr_received c = take ?r (dr_claimed c)"
    using inv by (simp_all add: race_inv_def cons_ok_def pc)
  have len: "?r < length (dr_claimed c)" using r(2) by (auto simp: stored_def split: producer_pc.splits)
  then have "length (dr_claimed c ! ?r) = N" using inv by (simp add: race_inv_def prod_ok_def)
  with r(3,4) have out: "dr_out c = dr_claimed c ! ?r" by simp
  have "take (Suc ?r) (dr_claimed c) = take ?r (dr_claimed c) @ [dr_claimed c ! ?r]"
    by (rule take_Suc_conv_app_nth [OF len])
  with r(5) out have "dr_received c @ [dr_out c] = take (Suc ?r) (dr_claimed c)" by simp
  then have "dr_received c' = take (Suc ?r) (dr_claimed c')" by (simp add: c')
  moreover have "length (dr_received c') = Suc ?r" "stored c' = stored c" "dr_cursor c' = int ?r" by (simp_all add: c' r(1))
  ultimately have "cons_ok N c'" using r(2,4) unfolding cons_ok_def by (simp add: c')
  then show ?thesis using keep_consumer [OF inv _ _ _ win] by (simp add: c')
qed

lemma keep_step:
  assumes inv: "race_inv N c" and step: "race_step N c c'" and win: "in_window c'"
  shows "race_inv N c'"
  using step
proof (cases rule: race_step.cases)
  case p_claim
  then show ?thesis using keep_claim [OF inv _ _ _ _ win] by blast
next
  case p_word
  then show ?thesis using keep_word [OF inv _ _ _ win] by blast
next
  case p_store
  then show ?thesis using keep_store [OF inv _ _ win] by blast
next
  case c_none
  then show ?thesis using inv by simp
next
  case c_load
  then show ?thesis using keep_load [OF inv _ _ _ _ win] by blast
next
  case c_word
  then show ?thesis using keep_copy [OF inv _ _ _ win] by blast
next
  case c_done
  then show ?thesis using keep_done [OF inv _ _ win] by blast
qed

text \<open>
  C14: while the producer stays within one ring of the consumer, the consumer reads whole ticks, each
  once and in the order they were claimed, in every interleaving of the word copies of the two threads.
\<close>

lemma disruptor_reads_whole:
  assumes "length d = N" and "length out = N" and "race_reach N d out c"
  shows "dr_received c = take (length (dr_received c)) (dr_claimed c)"
proof -
  have "race_inv N c"
    using assms(3) by induction (use assms(1,2) race_inv_new keep_step in blast)+
  then show ?thesis by (simp add: race_inv_def cons_ok_def)
qed

lemma disruptor_reads_whole_witness:
  "\<exists>c. race_reach 2 [0, 0] [0, 0] c \<and> dr_received c = [[3, 4 :: nat]]
     \<and> dr_received c = take (length (dr_received c)) (dr_claimed c)"
proof -
  let ?r = "race_reach 2 [0, 0] [0, 0 :: nat]"
  note ev = in_window_def race_new_def claim_next_def i64_def disr_new_def write_word_def write_sequence_def
    slot_index_of_nat [of 0, simplified] BUFFER_SIZE_def numeral_2_eq_2
  let ?d = "snd (claim_next (disr_new [0, 0 :: nat]))"
  let ?c0 = "race_new [0, 0] [0, 0 :: nat]"
  let ?c1 = "?c0\<lparr>dr_ring := ?d, dr_prod := PWrite 0 [3, 4] 0, dr_claimed := [[3, 4]]\<rparr>"
  let ?c2 = "?c1\<lparr>dr_ring := write_word 0 0 3 ?d, dr_prod := PWrite 0 [3, 4] 1\<rparr>"
  let ?c3 = "?c2\<lparr>dr_ring := write_word 0 1 4 (write_word 0 0 3 ?d), dr_prod := PWrite 0 [3, 4] 2\<rparr>"
  let ?c4 = "?c3\<lparr>dr_ring := write_sequence 0 0 (write_word 0 1 4 (write_word 0 0 3 ?d)), dr_prod := PFree\<rparr>"
  let ?c5 = "?c4\<lparr>dr_cons := CCopy 0 0\<rparr>"
  let ?c6 = "?c5\<lparr>dr_out := [3, 0], dr_cons := CCopy 0 1\<rparr>"
  let ?c7 = "?c6\<lparr>dr_out := [3, 4], dr_cons := CCopy 0 2\<rparr>"
  let ?c8 = "?c7\<lparr>dr_cursor := 0, dr_cons := CFree, dr_received := [[3, 4]]\<rparr>"
  have "?r ?c1"
    using race_next [OF race_init p_claim [of ?c0 "[3, 4]" 2 0 ?d]]  by (simp add: ev)
  then have "?r ?c2" by (rule race_next) (use p_word [of ?c1 0 "[3, 4]" 0 2] in \<open>simp_all add: ev\<close>)
  then have "?r ?c3" by (rule race_next) (use p_word [of ?c2 0 "[3, 4]" 1 2] in \<open>simp_all add: ev\<close>)
  then have "?r ?c4" by (rule race_next) (use p_store [of ?c3 0 "[3, 4]" 2] in \<open>simp_all add: ev\<close>)
  then have "?r ?c5" by (rule race_next) (use c_load [of ?c4 0 2] in \<open>simp_all add: ev\<close>)
  then have "?r ?c6" by (rule race_next) (use c_word [of ?c5 0 0 2] in \<open>simp_all add: ev\<close>)
  then have "?r ?c7" by (rule race_next) (use c_word [of ?c6 0 1 2] in \<open>simp_all add: ev\<close>)
  then have "?r ?c8" by (rule race_next) (use c_done [of ?c7 0 2] in \<open>simp_all add: ev\<close>)
  with disruptor_reads_whole [OF _ _ this] show ?thesis by (intro exI [of _ ?c8]) simp
qed

section \<open>Copies that are not disturbed\<close>

text \<open>
  A push whose steps are not interleaved with others is the \<open>disr_push\<close> of \<open>QF_Disruptor\<close>.
\<close>

abbreviation race_run :: "nat \<Rightarrow> 'w disr_race \<Rightarrow> 'w disr_race \<Rightarrow> bool" where
  "race_run N \<equiv> (race_step N)\<^sup>*\<^sup>*"

lemma run_words:
  assumes "dr_prod c = PWrite seq x k" and "k + m = N" and "length x = N"
    and "length (sl_tick (ds_buffer (dr_ring c) (slot_index seq))) = N"
    and "i = slot_index seq" and "s = ds_buffer (dr_ring c) i"
  shows "race_run N c (c\<lparr>dr_ring := (dr_ring c)\<lparr>ds_buffer := (ds_buffer (dr_ring c))(i := s\<lparr>sl_tick := take k (sl_tick s) @ drop k x\<rparr>)\<rparr>,
     dr_prod := PWrite seq x N\<rparr>)"
  using assms
proof (induction m arbitrary: c k s)
  case 0
  then have "c\<lparr>dr_ring := (dr_ring c)\<lparr>ds_buffer := (ds_buffer (dr_ring c))(i := s\<lparr>sl_tick := take k (sl_tick s) @ drop k x\<rparr>)\<rparr>,
     dr_prod := PWrite seq x N\<rparr> = c"
    by simp
  then show ?case by (simp only: rtranclp.rtrancl_refl)
next
  case (Suc m)
  let ?c = "c\<lparr>dr_ring := write_word i k (x ! k) (dr_ring c), dr_prod := PWrite seq x (Suc k)\<rparr>"
  let ?s = "s\<lparr>sl_tick := (sl_tick s)[k := x ! k]\<rparr>"
  have "take (Suc k) (sl_tick ?s) @ drop (Suc k) x = take k (sl_tick s) @ drop k x"
    using Suc.prems by (simp add: take_Suc_conv_app_nth Cons_nth_drop_Suc)
  moreover have "race_run N ?c (?c\<lparr>dr_ring := (dr_ring ?c)\<lparr>ds_buffer := (ds_buffer (dr_ring ?c))
      (i := ?s\<lparr>sl_tick := take (Suc k) (sl_tick ?s) @ drop (Suc k) x\<rparr>)\<rparr>, dr_prod := PWrite seq x N\<rparr>)"
    using Suc.prems by (intro Suc.IH) (simp_all add: write_word_def)
  ultimately have "race_run N ?c (c\<lparr>dr_ring := (dr_ring c)\<lparr>ds_buffer := (ds_buffer (dr_ring c))
      (i := s\<lparr>sl_tick := take k (sl_tick s) @ drop k x\<rparr>)\<rparr>, dr_prod := PWrite seq x N\<rparr>)"
    by (simp add: write_word_def)
  moreover have "race_step N c ?c" using p_word [of c seq x k N] Suc.prems by simp
  ultimately show ?case by (blast intro: converse_rtranclp_into_rtranclp)
qed

definition whole_push :: "'w list \<Rightarrow> 'w disr_race \<Rightarrow> 'w disr_race" where
  "whole_push x c = c\<lparr>dr_ring := disr_push x (dr_ring c), dr_prod := PFree, dr_claimed := dr_claimed c @ [x]\<rparr>"

definition slots_len :: "nat \<Rightarrow> 'w disr_race \<Rightarrow> bool" where
  "slots_len N c \<longleftrightarrow> (\<forall>i. length (sl_tick (ds_buffer (dr_ring c) i)) = N)"

lemma run_push:
  assumes "dr_prod c = PFree" and x: "length x = N" and len: "slots_len N c"
  shows "race_run N c (whole_push x c)"
proof -
  obtain seq d where cl: "claim_next (dr_ring c) = (seq, d)" by (cases "claim_next (dr_ring c)")
  let ?i = "slot_index seq"
  let ?c1 = "c\<lparr>dr_ring := d, dr_prod := PWrite seq x 0, dr_claimed := dr_claimed c @ [x]\<rparr>"
  let ?c2 = "?c1\<lparr>dr_ring := d\<lparr>ds_buffer := (ds_buffer d)(?i := (ds_buffer d ?i)\<lparr>sl_tick := x\<rparr>)\<rparr>, dr_prod := PWrite seq x N\<rparr>"
  have d: "ds_buffer d = ds_buffer (dr_ring c)" using cl by (auto simp: claim_next_def)
  have "race_run N ?c1 ?c2"
    using run_words [of ?c1 seq x 0 N N ?i "ds_buffer d ?i"] x len by (simp add: slots_len_def d)
  moreover have "race_step N ?c2 (?c2\<lparr>dr_ring := write_sequence ?i seq (dr_ring ?c2), dr_prod := PFree\<rparr>)"
    by (rule p_store) simp
  moreover have "?c2\<lparr>dr_ring := write_sequence ?i seq (dr_ring ?c2), dr_prod := PFree\<rparr> = whole_push x c"
    by (rule disr_race.equality)
      (simp_all add: whole_push_def disr_push_def cl publish_def write_sequence_def, rule disruptor.equality,
        simp_all, rule ext, simp)
  ultimately have "race_run N ?c1 (whole_push x c)"
    by (metis (no_types, lifting) rtranclp.rtrancl_into_rtrancl)
  moreover have "race_step N c ?c1" using p_claim assms(1) x cl by blast
  ultimately show ?thesis by (blast intro: converse_rtranclp_into_rtranclp)
qed

lemma whole_push_simps [simp]:
  "dr_prod (whole_push x c) = PFree" "dr_cons (whole_push x c) = dr_cons c" "dr_out (whole_push x c) = dr_out c"
  "dr_cursor (whole_push x c) = dr_cursor c" "dr_received (whole_push x c) = dr_received c"
  "dr_claimed (whole_push x c) = dr_claimed c @ [x]" "dr_ring (whole_push x c) = disr_push x (dr_ring c)"
  by (simp_all add: whole_push_def)

lemma slots_len_push [simp]: "length x = N \<Longrightarrow> slots_len N c \<Longrightarrow> slots_len N (whole_push x c)"
  by (simp add: slots_len_def disr_push_def publish_def claim_next_def)

lemma run_pushes:
  assumes "dr_prod c = PFree" and "length x = N" and "slots_len N c"
  shows "\<exists>c'. race_run N c c' \<and> dr_prod c' = PFree \<and> slots_len N c' \<and> dr_ring c' = push_all (replicate n x) (dr_ring c)
    \<and> dr_claimed c' = dr_claimed c @ replicate n x \<and> dr_cons c' = dr_cons c \<and> dr_out c' = dr_out c
    \<and> dr_cursor c' = dr_cursor c \<and> dr_received c' = dr_received c"
  using assms
proof (induction n arbitrary: c)
  case 0
  then show ?case by (intro exI [of _ c]) simp
next
  case (Suc n)
  have "race_run N c (whole_push x c)" using Suc.prems by (rule run_push)
  with Suc.IH [of "whole_push x c"] Suc.prems show ?case
    by (auto intro: rtranclp_trans simp del: replicate.simps simp add: replicate_Suc)
qed

section \<open>A copy that is lapped\<close>

text \<open>
  Nothing in \<open>try_consume\<close> detects that the producer came round the ring while the tick was copied: the
  consumer then receives a tick that was never published, half of one and half of another.
\<close>

lemma torn_read:
  "\<exists>c. race_run 2 (race_new [0, 0] [0, 0]) c \<and> dr_received c = [[0, 1 :: nat]] \<and> set (dr_claimed c) = {[0, 0], [1, 1]}"
proof -
  obtain c where run: "race_run 2 (race_new [0, 0] [0, 0 :: nat]) c" and c: "dr_prod c = PFree" "slots_len 2 c"
    "dr_ring c = push_all (replicate BUFFER_SIZE [0, 0]) (disr_new [0, 0])" "dr_claimed c = replicate BUFFER_SIZE [0, 0]"
    "dr_cons c = CFree" "dr_out c = [0, 0]" "dr_cursor c = -1" "dr_received c = []"
    using run_pushes [of "race_new [0, 0] [0, 0 :: nat]" "[0, 0]" 2 BUFFER_SIZE]
    by (auto simp: race_new_def slots_len_def disr_new_def)
  have B: "0 < BUFFER_SIZE" "int BUFFER_SIZE < 2 ^ 63" by (simp_all add: BUFFER_SIZE_def)
  have "disr_inv (replicate BUFFER_SIZE [0, 0]) (dr_ring c)"
    using push_all_inv [OF disr_inv_new, of "replicate BUFFER_SIZE [0, 0 :: nat]" "[0, 0]"] B by (simp add: c(3))
  then have s: "ds_buffer (dr_ring c) 0 = \<lparr>sl_tick = [0, 0], sl_sequence = 0\<rparr>"
    using B by (auto simp: disr_inv_def dest!: spec [of _ 0])
  have i0: "slot_index 0 = 0" using slot_index_of_nat [of 0] by simp
  let ?a = "c\<lparr>dr_cons := CCopy 0 0\<rparr>"
  let ?b = "?a\<lparr>dr_out := [0, 0], dr_cons := CCopy 0 1\<rparr>"
  let ?w = "whole_push [1, 1] ?b"
  let ?e = "?w\<lparr>dr_out := [0, 1], dr_cons := CCopy 0 2\<rparr>"
  let ?f = "?e\<lparr>dr_cursor := 0, dr_cons := CFree, dr_received := [[0, 1]]\<rparr>"
  have "race_step 2 c ?a" using c_load [of c 0 2] c s i0 by (simp add: i64_def)
  moreover have "race_step 2 ?a ?b" using c_word [of ?a 0 0 2] c s i0 by simp
  moreover have "race_run 2 ?b ?w" using c by (intro run_push) (simp_all add: slots_len_def)
  moreover have "race_step 2 ?w ?e"
  proof -
    have "disr_push [1, 1] (dr_ring c) = (dr_ring c)\<lparr>ds_producer_seq := int BUFFER_SIZE,
        ds_buffer := (ds_buffer (dr_ring c))(0 := \<lparr>sl_tick = [1, 1], sl_sequence = int BUFFER_SIZE\<rparr>)\<rparr>"
      using disr_push_eq [OF \<open>disr_inv _ _\<close>] by (simp add: BUFFER_SIZE_def)
    then show ?thesis using c_word [of ?w 0 1 2] c i0 by (simp add: numeral_2_eq_2)
  qed
  moreover have "race_step 2 ?e ?f" using c_done [of ?e 0 2] c by simp
  ultimately have "race_run 2 c ?f"
    by (meson converse_rtranclp_into_rtranclp rtranclp.rtrancl_into_rtrancl)
  with run have "race_run 2 (race_new [0, 0] [0, 0]) ?f" by (rule rtranclp_trans)
  then show ?thesis using c B by (intro exI [of _ ?f]) auto
qed

end
