(* ===== verification/QF_Limits.thy ===== *)
theory QF_Limits
  imports QF_Threads
begin

text \<open>
  How far the position limit of a strategy (check 6 of \<open>PreTradeRiskEngine::check\<close>) limits the position.
  \<open>build_context\<close> hands the gate a snapshot of the portfolio, and the snapshot knows only the fills the
  fill thread has booked: orders that were filled and still wait in the queue are not counted. The
  \<open>exposure\<close> in an instrument is the booked quantity and the quantities that wait.
\<close>

section \<open>Booked and waiting quantities\<close>

definition booked :: "u64 \<Rightarrow> engine \<Rightarrow> int" where
  "booked tok eg = ps_quantity (position_of (eg_portfolio eg) tok)"

definition fills_waiting :: "u64 \<Rightarrow> engine \<Rightarrow> fill list" where
  "fills_waiting tok eg = filter (\<lambda>f. fl_token f = tok) (fills_pending eg)"

definition exposure :: "u64 \<Rightarrow> engine \<Rightarrow> int" where
  "exposure tok eg = booked tok eg + net_quantity tok (fills_pending eg)"

definition prices_from :: "u64 \<Rightarrow> dbl \<Rightarrow> engine \<Rightarrow> bool" where
  \<comment> \<open>every price of the instrument the gate knows or will read from the queue is at least \<open>p\<close>\<close>
  "prices_from tok p eg \<longleftrightarrow> p \<le> current_price tok (eg_risk eg)
     \<and> (\<exists>j. spsc_inv j (nm_raw_queue (eg_normalizer eg)))
     \<and> list_all (\<lambda>t. tk_token t = tok \<longrightarrow> p \<le> tk_ltp t) (spsc_items (nm_raw_queue (eg_normalizer eg)))"

fun limit_event :: "u64 \<Rightarrow> dbl \<Rightarrow> dbl \<Rightarrow> dbl \<Rightarrow> engine_event \<Rightarrow> bool" where
  \<comment> \<open>an event of a paper session in which prices stay above \<open>p\<close> and the strategies that trade the
    instrument have at most the limits \<open>cap\<close> on a position and \<open>single\<close> on an order\<close>
  "limit_event tok p cap single (StrategyOrder scfg req tt now ck) \<longleftrightarrow> in_i32 (rq_quantity req)
     \<and> (rq_token req = tok \<longrightarrow> 0 < rq_quantity req \<and> p \<le> rq_limit_price req
          \<and> rl_max_position_value (sc_risk scfg) \<le> cap \<and> rl_max_single_order_value (sc_risk scfg) \<le> single)"
| "limit_event tok p cap single (RawTick t) \<longleftrightarrow> (tk_token t = tok \<longrightarrow> p \<le> tk_ltp t)"
| "limit_event tok p cap single e \<longleftrightarrow> paper_event e"

fun backlog_within :: "nat \<Rightarrow> nat \<Rightarrow> u64 \<Rightarrow> engine_event list \<Rightarrow> engine \<Rightarrow> bool" where
  \<comment> \<open>whenever an order is placed, the queue has room and at most \<open>d\<close> fills of the instrument wait in it\<close>
  "backlog_within k d tok [] eg = True"
| "backlog_within k d tok (e # es) eg = (length (fills_pending eg) < 2 ^ k - 1
     \<and> (case e of StrategyOrder _ _ _ _ _ \<Rightarrow> length (fills_waiting tok eg) \<le> d | _ \<Rightarrow> True)
     \<and> backlog_within k d tok es (engine_step e eg))"

section \<open>Single steps\<close>

lemma limit_event_paper: "limit_event tok p cap single e \<Longrightarrow> paper_event e"
  by (cases e) simp_all

lemma net_quantity_append [simp]: "net_quantity tok (fs @ gs) = net_quantity tok fs + net_quantity tok gs"
  by (induction fs) simp_all

lemma current_price_update [simp]:
  "current_price tok (update_price tok' x re) = (if tok' = tok then x else current_price tok re)"
  by (simp add: current_price_def update_price_def update_conv')

lemma check_price [simp]: "current_price tok (snd (check req scfg pf tt now re)) = current_price tok re"
  by (simp add: check_eq)

lemma order_refused:
  assumes "fst (check req scfg (pf_snapshot (eg_portfolio eg)) tt now (eg_risk eg)) \<noteq> PASS"
  shows "engine_step (StrategyOrder scfg req tt now ck) eg
     = eg\<lparr>eg_risk := snd (check req scfg (pf_snapshot (eg_portfolio eg)) tt now (eg_risk eg))\<rparr>"
  using assms by (simp add: ctx_submit_order_eq)

lemma order_filled:
  assumes pe: "paper_engine n k pf0 applied eg" and n: "0 < n" and sq: "unat (om_seq (eg_oms eg)) + 1 < 2 ^ 64"
    and q: "in_i32 (rq_quantity req)" and room: "length (fills_pending eg) < 2 ^ k - 1"
    and pass: "fst (check req scfg (pf_snapshot (eg_portfolio eg)) tt now (eg_risk eg)) = PASS"
    and eg': "eg' = engine_step (StrategyOrder scfg req tt now ck) eg"
  shows "fills_pending eg' = fills_pending eg @ [paper_fill req ck (om_seq (eg_oms eg))]"
    and "eg_portfolio eg' = eg_portfolio eg" and "eg_normalizer eg' = eg_normalizer eg"
    and "current_price tok (eg_risk eg') = (if rq_token req = tok then rq_limit_price req else current_price tok (eg_risk eg))"
    and "eg_risk eg' = update_price (rq_token req) (rq_limit_price req)
      (snd (check req scfg (pf_snapshot (eg_portfolio eg)) tt now (eg_risk eg)))"
proof -
  define eg1 where "eg1 = eg\<lparr>eg_risk := snd (check req scfg (pf_snapshot (eg_portfolio eg)) tt now (eg_risk eg))\<rparr>"
  define f where "f = paper_fill req ck (om_seq (eg_oms eg))"
  have o: "eg_oms eg1 = eg_oms eg" "eg_portfolio eg1 = eg_portfolio eg" "eg_normalizer eg1 = eg_normalizer eg"
    by (simp_all add: eg1_def)
  have st: "eg' = with_oms (snd (submit req ck (eg_oms eg))) eg1"
    using pass by (simp add: eg' ctx_submit_order_eq eg1_def)
  note ps = paper_step [OF conjunct1 [OF pe [unfolded paper_engine_def]] n sq q room [unfolded fills_pending_def] refl, of ck]
  show "fills_pending eg' = fills_pending eg @ [paper_fill req ck (om_seq (eg_oms eg))]"
    using ps by (simp add: st fills_pending_def)
  show "eg_portfolio eg' = eg_portfolio eg" "eg_normalizer eg' = eg_normalizer eg" by (simp_all add: st o)
  have "om_out (snd (submit req ck (eg_oms eg))) = om_out (eg_oms eg) @ [FillCb f]" using ps by (simp add: f_def)
  then have "eg_risk eg' = update_price (fl_token f) (fl_price f) (eg_risk eg1)"
    unfolding st with_oms_def o by (simp add: fill_callback_def)
  then show "eg_risk eg' = update_price (rq_token req) (rq_limit_price req)
      (snd (check req scfg (pf_snapshot (eg_portfolio eg)) tt now (eg_risk eg)))"
    by (simp add: f_def paper_fill_def eg1_def)
  then show "current_price tok (eg_risk eg') = (if rq_token req = tok then rq_limit_price req else current_price tok (eg_risk eg))"
    by (simp add: f_def paper_fill_def eg1_def)
qed

text \<open>The gate compares the booked position, moved by the order, with the limit.\<close>

lemma passed_limits:
  assumes "fst (check req scfg (pf_snapshot (eg_portfolio eg)) tt now (eg_risk eg)) = PASS"
    and "0 < p" and "p \<le> current_price (rq_token req) (eg_risk eg)" and "0 < rq_quantity req" and "in_i32 (rq_quantity req)"
    and "rl_max_single_order_value (sc_risk scfg) \<le> single" and "rl_max_position_value (sc_risk scfg) \<le> cap"
    and "d = (if rq_side req = BUY then rq_quantity req else - rq_quantity req)"
  shows "of_int (rq_quantity req) * p \<le> single"
    and "small (booked (rq_token req) eg + d) \<Longrightarrow> of_int \<bar>booked (rq_token req) eg + d\<bar> * p \<le> cap"
proof -
  let ?ltp = "current_price (rq_token req) (eg_risk eg)"
  have pos: "0 < ?ltp" using assms(2,3) by simp
  have "limit_checks req scfg (pf_snapshot (eg_portfolio eg)) ?ltp = PASS"
    using assms(1) by (simp add: check_eq split: if_splits)
  then have single: "of_int (rq_quantity req) * ?ltp \<le> rl_max_single_order_value (sc_risk scfg)"
    and cap: "of_int (abs32 (i32 (booked (rq_token req) eg + signed_delta req))) * ?ltp \<le> rl_max_position_value (sc_risk scfg)"
    using pos by (simp_all add: limit_checks_def Let_def booked_def not_less split: if_splits)
  have "of_int (rq_quantity req) * p \<le> of_int (rq_quantity req) * ?ltp"
    using assms(3,4) by (simp add: mult_left_mono)
  with single assms(6) show "of_int (rq_quantity req) * p \<le> single" by simp
  assume sm: "small (booked (rq_token req) eg + d)"
  have "signed_delta req = d" using assms(4,5) by (auto simp: signed_delta_def assms(8) in_i32_def intro: i32_id)
  with cap sm have "of_int \<bar>booked (rq_token req) eg + d\<bar> * ?ltp \<le> cap" using assms(7) by (simp add: small_i32)
  moreover have "of_int \<bar>booked (rq_token req) eg + d\<bar> * p \<le> of_int \<bar>booked (rq_token req) eg + d\<bar> * ?ltp"
    using assms(3) by (simp add: mult_left_mono)
  ultimately show "of_int \<bar>booked (rq_token req) eg + d\<bar> * p \<le> cap" by simp
qed

section \<open>The exposure is bounded\<close>

text \<open>
  Every position the book will take while it works off the queue is a prefix of the waiting fills away from
  the booked one; each lies within the bound, and so nothing wraps.
\<close>

definition kept_in :: "u64 \<Rightarrow> dbl \<Rightarrow> dbl \<Rightarrow> dbl \<Rightarrow> engine \<Rightarrow> bool" where
  "kept_in tok p single bound eg \<longleftrightarrow>
     (\<forall>f \<in> set (fills_waiting tok eg). 0 < fl_quantity f \<and> small (fl_quantity f) \<and> of_int (fl_quantity f) * p \<le> single)
     \<and> (\<forall>i. of_int \<bar>booked tok eg + net_quantity tok (take i (fills_pending eg))\<bar> * p \<le> bound)"

lemma kept_in_exposure: "kept_in tok p single bound eg \<Longrightarrow> of_int \<bar>exposure tok eg\<bar> * p \<le> bound"
  unfolding kept_in_def exposure_def by (metis order.refl take_all)

lemma kept_in_booked: "kept_in tok p single bound eg \<Longrightarrow> of_int \<bar>booked tok eg\<bar> * p \<le> bound"
  unfolding kept_in_def by (metis add.right_neutral net_quantity.simps(1) take_0)

lemma below_small: "of_int \<bar>q\<bar> * p \<le> b \<Longrightarrow> b < 2147483648 * p \<Longrightarrow> 0 < p \<Longrightarrow> small q" for p b :: real
proof -
  assume q: "of_int \<bar>q\<bar> * p \<le> b" and b: "b < 2147483648 * p" and p: "0 < p"
  have m: "of_int \<bar>q\<bar> * p < 2147483648 * p" using q b by (rule le_less_trans)
  have "real_of_int \<bar>q\<bar> < 2147483648" by (rule mult_right_less_imp_less [OF m less_imp_le [OF p]])
  then show "small q" unfolding small_def by linarith
qed

lemma net_quantity_bound:
  assumes "\<forall>f \<in> set (filter (\<lambda>f. fl_token f = tok) fs). 0 < fl_quantity f \<and> of_int (fl_quantity f) * p \<le> single" and "0 < p"
  shows "of_int \<bar>net_quantity tok fs\<bar> * p \<le> real (length (filter (\<lambda>f. fl_token f = tok) fs)) * single"
  using assms(1)
proof (induction fs)
  case (Cons f fs)
  show ?case
  proof (cases "fl_token f = tok")
    case True
    have "real_of_int \<bar>net_quantity tok (f # fs)\<bar> \<le> of_int (fl_quantity f) + of_int \<bar>net_quantity tok fs\<bar>"
      using Cons.prems True by (auto simp: signed_qty_def)
    then have "of_int \<bar>net_quantity tok (f # fs)\<bar> * p \<le> of_int (fl_quantity f) * p + of_int \<bar>net_quantity tok fs\<bar> * p"
      using assms(2) by (simp add: mult_right_mono flip: distrib_right)
    also have "\<dots> \<le> single + real (length (filter (\<lambda>f. fl_token f = tok) fs)) * single"
      using Cons True by (intro add_mono) auto
    finally show ?thesis using True by (simp add: distrib_right)
  qed (use Cons in auto)
qed simp

lemma kept_in_refused:
  assumes "kept_in tok p single bound eg" and "fills_pending eg' = fills_pending eg" and "eg_portfolio eg' = eg_portfolio eg"
  shows "kept_in tok p single bound eg'"
  using assms by (simp add: kept_in_def fills_waiting_def booked_def)

lemma kept_in_other:
  assumes w: "kept_in tok p single bound eg" and f: "fills_pending eg' = fills_pending eg @ [f]" "eg_portfolio eg' = eg_portfolio eg"
    and "fl_token f \<noteq> tok"
  shows "kept_in tok p single bound eg'"
proof -
  have "net_quantity tok (take i [f]) = 0" for i using assms(4) by (cases i) simp_all
  then show ?thesis using w f assms(4) by (simp add: kept_in_def fills_waiting_def booked_def)
qed

lemma kept_in_filled:
  assumes w: "kept_in tok p single bound eg" and f: "fills_pending eg' = fills_pending eg @ [f]" "eg_portfolio eg' = eg_portfolio eg"
    and "0 < fl_quantity f" and "small (fl_quantity f)" and "of_int (fl_quantity f) * p \<le> single"
    and e: "of_int \<bar>exposure tok eg'\<bar> * p \<le> bound"
  shows "kept_in tok p single bound eg'"
proof -
  have i: "of_int \<bar>booked tok eg' + net_quantity tok (take i (fills_pending eg'))\<bar> * p \<le> bound" for i
  proof (cases "i \<le> length (fills_pending eg)")
    case True
    then show ?thesis using w f by (simp add: kept_in_def booked_def)
  next
    case False
    then have "take i (fills_pending eg') = fills_pending eg'" by (simp add: f(1))
    with e show ?thesis by (simp add: exposure_def)
  qed
  show ?thesis using w f(1) assms(4-6) i by (auto simp: kept_in_def fills_waiting_def)
qed

lemma kept_in_turn:
  assumes w: "kept_in tok p single bound eg" and ok: "fill_queue_ok k eg" and b: "bound < 2147483648 * p" and p: "0 < p"
  shows "kept_in tok p single bound (portfolio_turn eg)" and "exposure tok (portfolio_turn eg) = exposure tok eg"
proof -
  note pend = fw.turn_pending [OF ok] and res = fw.turn_result [OF ok]
  have "kept_in tok p single bound (portfolio_turn eg) \<and> exposure tok (portfolio_turn eg) = exposure tok eg"
  proof (cases "fills_pending eg")
    case Nil
    then show ?thesis using pend res w by (auto simp: kept_in_def fills_waiting_def booked_def exposure_def)
  next
    case (Cons f fs)
    have fs: "fills_pending (portfolio_turn eg) = fs" and pf: "eg_portfolio (portfolio_turn eg) = process_fill f (eg_portfolio eg)"
      using pend res Cons by simp_all
    have bk: "booked tok (portfolio_turn eg) = booked tok eg + net_quantity tok [f]"
    proof (cases "fl_token f = tok")
      case True
      have "of_int \<bar>booked tok eg + net_quantity tok (take 1 (fills_pending eg))\<bar> * p \<le> bound"
        using w unfolding kept_in_def by blast
      then have "small (booked tok eg + signed_qty f)" using below_small [OF _ b p] True Cons by simp
      moreover have "small (fl_quantity f)" using w True Cons by (simp add: kept_in_def fills_waiting_def)
      ultimately show ?thesis using True by (simp add: booked_def pf process_fill_position fill_position_quantity)
    next
      case False
      then show ?thesis by (simp add: booked_def pf process_fill_position)
    qed
    have shift: "booked tok (portfolio_turn eg) + net_quantity tok (take i fs)
        = booked tok eg + net_quantity tok (take (Suc i) (fills_pending eg))" for i
      using Cons bk by simp
    have "of_int \<bar>booked tok (portfolio_turn eg) + net_quantity tok (take i fs)\<bar> * p \<le> bound" for i
      unfolding shift using w unfolding kept_in_def by blast
    moreover have "set (fills_waiting tok (portfolio_turn eg)) \<subseteq> set (fills_waiting tok eg)"
      using fs Cons by (auto simp: fills_waiting_def)
    ultimately have "kept_in tok p single bound (portfolio_turn eg)"
      using w fs by (auto simp: kept_in_def)
    moreover have "exposure tok (portfolio_turn eg) = exposure tok eg" using bk fs Cons by (simp add: exposure_def)
    ultimately show ?thesis by simp
  qed
  then show "kept_in tok p single bound (portfolio_turn eg)" "exposure tok (portfolio_turn eg) = exposure tok eg" by auto
qed

section \<open>Every step keeps the bound\<close>

lemma price_ticks_from:
  "p \<le> current_price tok re \<Longrightarrow> list_all (\<lambda>t. tk_token t = tok \<longrightarrow> p \<le> tk_ltp t) ts \<Longrightarrow>
   p \<le> current_price tok (price_ticks ts re)"
  by (induction ts arbitrary: re) auto

lemma prices_from_same:
  "prices_from tok p eg \<Longrightarrow> eg_normalizer eg' = eg_normalizer eg \<Longrightarrow>
   current_price tok (eg_risk eg') = current_price tok (eg_risk eg) \<or> p \<le> current_price tok (eg_risk eg') \<Longrightarrow>
   prices_from tok p eg'"
  by (auto simp: prices_from_def)

lemma prices_from_normalizer:
  assumes "prices_from tok p eg"
  shows "prices_from tok p (normalizer_turn eg)"
proof -
  let ?nm = "eg_normalizer eg"
  obtain j where j: "spsc_inv j (nm_raw_queue ?nm)" using assms by (auto simp: prices_from_def)
  show ?thesis
  proof (cases "spsc_items (nm_raw_queue ?nm)")
    case Nil
    then show ?thesis using assms normalizer_iter_nil [OF j Nil] by (simp add: normalizer_turn_def prices_from_def)
  next
    case (Cons t ts)
    obtain q where q: "spsc_inv j q" "spsc_items q = ts" "nm_raw_queue (normalizer_iter ?nm) = q"
      "nm_kafka_out (normalizer_iter ?nm) = nm_kafka_out ?nm @ (if nm_has_kafka_fn ?nm then filter valid_tick [t] else [])"
      by (rule normalizer_iter_cons [OF j Cons]) simp
    have "p \<le> current_price tok (eg_risk (normalizer_turn eg))"
      using assms Cons q(4) by (auto simp: normalizer_turn_def prices_from_def intro!: price_ticks_from)
    then show ?thesis
      using assms Cons q by (auto simp: prices_from_def normalizer_turn_def)
  qed
qed

lemma prices_from_raw:
  assumes "prices_from tok p eg" and "tk_token t = tok \<longrightarrow> p \<le> tk_ltp t"
  shows "prices_from tok p (raw_tick t eg)"
proof -
  obtain j where j: "spsc_inv j (nm_raw_queue (eg_normalizer eg))" using assms by (auto simp: prices_from_def)
  have "spsc_inv j (snd (spsc_push t (nm_raw_queue (eg_normalizer eg))))"
    using ring.enq_refines [OF j, of t] by auto
  moreover have "set (spsc_items (snd (spsc_push t (nm_raw_queue (eg_normalizer eg)))))
      \<subseteq> insert t (set (spsc_items (nm_raw_queue (eg_normalizer eg))))"
    using ring.enq_refines [OF j, of t]
    by (auto simp: list_enq_def split: if_splits dest!: sym [of "_ @ [t]"])
  ultimately show ?thesis
    using assms by (auto simp: prices_from_def raw_tick_def list_all_iff)
qed

lemma limit_order:
  assumes pe: "paper_engine n k pf0 applied eg" "0 < n" "unat (om_seq (eg_oms eg)) + 1 < 2 ^ 64"
    and ev: "limit_event tok p cap single (StrategyOrder scfg req tt now ck)"
    and room: "length (fills_pending eg) < 2 ^ k - 1" and d: "length (fills_waiting tok eg) \<le> d"
    and pr: "prices_from tok p eg" and w: "kept_in tok p single (cap + real d * single) eg"
    and p: "0 < p" "0 \<le> single" and b: "cap + real (d + 1) * single < 2147483648 * p"
    and eg': "eg' = engine_step (StrategyOrder scfg req tt now ck) eg"
  shows "prices_from tok p eg' \<and> kept_in tok p single (cap + real d * single) eg'"
proof (cases "fst (check req scfg (pf_snapshot (eg_portfolio eg)) tt now (eg_risk eg)) = PASS")
  case False
  from order_refused [OF this] have "eg_normalizer eg' = eg_normalizer eg"
    "current_price tok (eg_risk eg') = current_price tok (eg_risk eg)"
    "fills_pending eg' = fills_pending eg" "eg_portfolio eg' = eg_portfolio eg"
    by (simp_all add: eg' fills_pending_def)
  then show ?thesis using prices_from_same [OF pr] kept_in_refused [OF w] by simp
next
  case True
  define f where "f = paper_fill req ck (om_seq (eg_oms eg))"
  have q: "in_i32 (rq_quantity req)" using ev by simp
  note o = order_filled [OF pe q room True eg', folded f_def]
  have f: "fl_token f = rq_token req" "fl_quantity f = rq_quantity req" "fl_side f = rq_side req"
    by (simp_all add: f_def paper_fill_def)
  have "prices_from tok p eg'" using prices_from_same [OF pr o(3)] o(4) [of tok] ev by auto
  moreover have "kept_in tok p single (cap + real d * single) eg'"
  proof (cases "rq_token req = tok")
    case False
    then show ?thesis using kept_in_other [OF w o(1,2)] f(1) by simp
  next
    case tok: True
    let ?d = "if rq_side req = BUY then rq_quantity req else - rq_quantity req"
    have ok: "0 < rq_quantity req" "rl_max_position_value (sc_risk scfg) \<le> cap" "rl_max_single_order_value (sc_risk scfg) \<le> single"
      using ev tok by simp_all
    have price: "p \<le> current_price (rq_token req) (eg_risk eg)" using pr tok by (simp add: prices_from_def)
    note lims = passed_limits [OF True p(1) price ok(1) q ok(3,2) refl]
    have "of_int \<bar>booked tok eg + ?d\<bar> * p \<le> of_int \<bar>booked tok eg\<bar> * p + of_int (rq_quantity req) * p"
      using p(1) ok(1) by (simp add: mult_right_mono flip: distrib_right) (auto simp: abs_if)
    also have "\<dots> \<le> cap + real (d + 1) * single"
      using kept_in_booked [OF w] lims(1) by (simp add: distrib_right)
    finally have "small (booked tok eg + ?d)" using below_small b p(1) by blast
    with lims(2) tok have book: "of_int \<bar>booked tok eg + ?d\<bar> * p \<le> cap" by simp
    have "of_int \<bar>net_quantity tok (fills_pending eg)\<bar> * p \<le> real (length (fills_waiting tok eg)) * single"
      unfolding fills_waiting_def using w p(1) by (intro net_quantity_bound) (auto simp: kept_in_def fills_waiting_def)
    also have "\<dots> \<le> real d * single" using d p(2) by (simp add: mult_right_mono)
    finally have pend: "of_int \<bar>net_quantity tok (fills_pending eg)\<bar> * p \<le> real d * single" .
    have "exposure tok eg' = (booked tok eg + ?d) + net_quantity tok (fills_pending eg)"
      using tok f by (simp add: exposure_def booked_def o(1,2) signed_qty_def)
    then have "of_int \<bar>exposure tok eg'\<bar> \<le> (of_int \<bar>booked tok eg + ?d\<bar> :: real) + of_int \<bar>net_quantity tok (fills_pending eg)\<bar>"
      by simp
    then have "of_int \<bar>exposure tok eg'\<bar> * p \<le> of_int \<bar>booked tok eg + ?d\<bar> * p + of_int \<bar>net_quantity tok (fills_pending eg)\<bar> * p"
      using p(1) by (simp only: mult_right_mono flip: distrib_right)
    also have "\<dots> \<le> cap + real d * single" using book pend by (rule add_mono)
    finally have e: "of_int \<bar>exposure tok eg'\<bar> * p \<le> cap + real d * single" .
    have "small (rq_quantity req)" using q ok(1) by (simp add: small_def in_i32_def)
    then show ?thesis using kept_in_filled [OF w o(1,2) _ _ _ e] f ok(1) lims(1) by simp
  qed
  ultimately show ?thesis by simp
qed

lemma limit_step:
  assumes pe: "paper_engine n k pf0 applied eg" "0 < n" "unat (om_seq (eg_oms eg)) + 1 < 2 ^ 64"
    and ev: "limit_event tok p cap single e" and bl: "backlog_within k d tok [e] eg"
    and pr: "prices_from tok p eg" and w: "kept_in tok p single (cap + real d * single) eg"
    and p: "0 < p" "0 \<le> single" and b: "cap + real (d + 1) * single < 2147483648 * p"
  shows "prices_from tok p (engine_step e eg) \<and> kept_in tok p single (cap + real d * single) (engine_step e eg)"
proof (cases e)
  case (StrategyOrder scfg req tt now ck)
  with limit_order [OF pe _ _ _ pr w p b refl] ev bl show ?thesis by simp
next
  case PortfolioTurn
  have "cap + real d * single \<le> cap + real (d + 1) * single" using p(2) by (simp add: distrib_right)
  then have "cap + real d * single < 2147483648 * p" using b by simp
  moreover have "fill_queue_ok k eg" using pe(1) by (simp add: fill_queue_ok_def paper_engine_def paper_ready_def oms_inv_def)
  ultimately have "kept_in tok p single (cap + real d * single) (portfolio_turn eg)" using kept_in_turn(1) [OF w] p(1) by blast
  then show ?thesis
    using PortfolioTurn pr by (auto simp: portfolio_turn_def split_beta intro: prices_from_same)
next
  case NormalizerTurn
  then show ?thesis
    using prices_from_normalizer [OF pr] kept_in_refused [OF w] by (simp add: normalizer_turn_def Let_def fills_pending_def)
next
  case (RawTick t)
  then show ?thesis
    using prices_from_raw [OF pr] ev kept_in_refused [OF w] by (simp add: raw_tick_def fills_pending_def)
next
  case (StrategyCancel oid)
  then show ?thesis
    using pe(1) pr w by (simp add: ctx_cancel_order_def paper_engine_def paper_ready_def no_open_cancel with_oms_same)
next
  case ShutdownCancel
  then show ?thesis using pe(1) pr w by (simp add: paper_engine_def paper_ready_def no_open_cancel with_oms_same)
qed (use ev pr w in \<open>auto simp: engage_global_kill_switch_def disengage_global_kill_switch_def fills_pending_def current_price_def
    intro: prices_from_same kept_in_refused\<close>)

lemma limit_run:
  "paper_engine n k pf0 applied eg \<Longrightarrow> 0 < n \<Longrightarrow> unat (om_seq (eg_oms eg)) + length es < 2 ^ 64 \<Longrightarrow>
   list_all (limit_event tok p cap single) es \<Longrightarrow> backlog_within k d tok es eg \<Longrightarrow>
   prices_from tok p eg \<Longrightarrow> kept_in tok p single (cap + real d * single) eg \<Longrightarrow>
   0 < p \<Longrightarrow> 0 \<le> single \<Longrightarrow> cap + real (d + 1) * single < 2147483648 * p \<Longrightarrow>
   kept_in tok p single (cap + real d * single) (engine_run es eg)"
proof (induction es arbitrary: eg applied)
  case (Cons e es)
  have sq: "unat (om_seq (eg_oms eg)) + 1 < 2 ^ 64" using Cons.prems(3) by simp
  have ev: "limit_event tok p cap single e" "list_all (limit_event tok p cap single) es" using Cons.prems(4) by simp_all
  have bl: "backlog_within k d tok [e] eg" "backlog_within k d tok es (engine_step e eg)" using Cons.prems(5) by simp_all
  have room: "length (spsc_items (om_fill_queue (eg_oms eg))) < 2 ^ k - 1" using bl(1) by (simp add: fills_pending_def)
  obtain applied' where st: "paper_engine n k pf0 applied' (engine_step e eg)"
    "om_seq (eg_oms (engine_step e eg)) = om_seq (eg_oms eg) \<or> om_seq (eg_oms (engine_step e eg)) = om_seq (eg_oms eg) + 1"
    using paper_engine_step [OF Cons.prems(1,2) sq limit_event_paper [OF ev(1)] room] by blast
  have "unat (om_seq (eg_oms (engine_step e eg))) + length es < 2 ^ 64"
    using st(2) unat_plus_one [OF sq] Cons.prems(3) by auto
  with Cons.IH [OF st(1) Cons.prems(2) _ ev(2) bl(2)] limit_step [OF Cons.prems(1,2) sq ev(1) bl(1) Cons.prems(6-10)] Cons.prems(8-10)
  show ?case by simp
qed simp

section \<open>The limit and the backlog\<close>


section \<open>Two orders in flight\<close>

definition capped_config :: strategy_config where
  "capped_config = strategy_config_init\<lparr>sc_risk := risk_limits_init
     \<lparr>rl_max_position_value := 1000, rl_max_single_order_value := 1000\<rparr>\<rparr>"

definition buy_ten :: order_request where
  "buy_ten = (order_request_init 7)\<lparr>rq_side := BUY, rq_order_type := LIMIT, rq_quantity := 10, rq_limit_price := 100\<rparr>"

definition quoted_engine :: engine where
  \<comment> \<open>a new engine after a price of 100 for instrument 7\<close>
  "quoted_engine = (engine_new engine_config_init 0)
     \<lparr>eg_risk := update_price 7 100 (eg_risk (engine_new engine_config_init 0))\<rparr>"

abbreviation buy_event :: engine_event where
  "buy_event \<equiv> StrategyOrder capped_config buy_ten 363600 0 \<lparr>ck_sys_ms = 0, ck_place_ns = 1, ck_fill_ns = 2\<rparr>"

lemma buy_fields [simp]: "rq_token buy_ten = 7" "rq_side buy_ten = BUY" "rq_quantity buy_ten = 10" "rq_limit_price buy_ten = 100"
  "rq_order_type buy_ten = LIMIT"
  by (simp_all add: buy_ten_def order_request_init_def)

lemma buy_passes:
  assumes "re_global_kill_switch (eg_risk eg) = False" and "re_halted_strategies (eg_risk eg) = {}" and "re_rate_limiters (eg_risk eg) = []"
    and "current_price 7 (eg_risk eg) = 100" and "sn_positions (pf_snapshot (eg_portfolio eg)) = []"
  shows "fst (check buy_ten capped_config (pf_snapshot (eg_portfolio eg)) 363600 0 (eg_risk eg)) = PASS"
proof -
  have "is_open 363600" by (simp add: is_open_def gm_hour_def gm_min_def gm_wday_def)
  moreover have "signed_delta buy_ten = 10" by (simp add: signed_delta_def)
  moreover have "snapshot_get_position (pf_snapshot (eg_portfolio eg)) 7 = position_init"
    using assms(5) by (simp add: snapshot_get_position_def)
  ultimately show ?thesis
    using assms by (simp add: check_eq rate_check_eq is_strategy_halted_def limit_checks_def
        strategy_daily_pnl_def strategy_used_capital_def position_init_def small_i32 small_def
        capped_config_def risk_limits_init_def)
qed

lemma quoted_start:
  "paper_engine 10000 12 (set_update_callback portfolio_new) [] quoted_engine"
  "om_seq (eg_oms quoted_engine) = 0" "fills_pending quoted_engine = []" "booked tok quoted_engine = 0"
  "prices_from 7 100 quoted_engine" "current_price 7 (eg_risk quoted_engine) = 100"
  "re_global_kill_switch (eg_risk quoted_engine) = False" "re_halted_strategies (eg_risk quoted_engine) = {}"
  "re_rate_limiters (eg_risk quoted_engine) = []" "sn_positions (pf_snapshot (eg_portfolio quoted_engine)) = []"
proof -
  have "ec_paper_trading engine_config_init" by (simp add: engine_config_init_def)
  from paper_engine_start [OF this, of 0]
  show "paper_engine 10000 12 (set_update_callback portfolio_new) [] quoted_engine"
    by (rule paper_engine_other) (simp_all add: quoted_engine_def)
  show "om_seq (eg_oms quoted_engine) = 0" "fills_pending quoted_engine = []"
    by (simp_all add: quoted_engine_def engine_new_def set_fill_callback_def oms_new_def fills_pending_def)
  show pos: "sn_positions (pf_snapshot (eg_portfolio quoted_engine)) = []"
    by (simp add: quoted_engine_def engine_new_def set_update_callback_def portfolio_new_def snapshot_init_def)
  then show "booked tok quoted_engine = 0" by (simp add: booked_def snapshot_get_position_def position_init_def)
  show price: "current_price 7 (eg_risk quoted_engine) = 100" by (simp add: quoted_engine_def)
  have "spsc_inv 16 (nm_raw_queue (eg_normalizer quoted_engine))" "spsc_items (nm_raw_queue (eg_normalizer quoted_engine)) = []"
    using spsc_inv_new [of 16 tick_init] by (simp_all add: quoted_engine_def engine_new_def set_kafka_fn_def TICK_QUEUE_CAPACITY_def)
  then show "prices_from 7 100 quoted_engine" unfolding prices_from_def by (auto simp: price)
  show "re_global_kill_switch (eg_risk quoted_engine) = False" "re_halted_strategies (eg_risk quoted_engine) = {}"
    "re_rate_limiters (eg_risk quoted_engine) = []"
    by (simp_all add: quoted_engine_def update_price_def engine_new_def configure_def risk_new_def engine_config_init_def)
qed

lemma buy_twice:
  defines "one \<equiv> engine_step buy_event quoted_engine"
  shows "fills_waiting 7 one = fills_pending one" "length (fills_pending one) = 1"
    and "exposure 7 (engine_run [buy_event, buy_event] quoted_engine) = 20"
proof -
  have n: "(0::nat) < 10000" by simp
  have s1: "unat (om_seq (eg_oms quoted_engine)) + 1 < 2 ^ 64" by (simp add: quoted_start)
  have q: "in_i32 (rq_quantity buy_ten)" by (simp add: in_i32_def)
  have r1: "length (fills_pending quoted_engine) < 2 ^ 12 - 1" by (simp add: quoted_start)
  have c1: "fst (check buy_ten capped_config (pf_snapshot (eg_portfolio quoted_engine)) 363600 0 (eg_risk quoted_engine)) = PASS"
    by (rule buy_passes) (simp_all add: quoted_start)
  note o1 = order_filled [OF quoted_start(1) n s1 q r1 c1, of one, unfolded one_def, OF refl, folded one_def]
  have len: "length (spsc_items (om_fill_queue (eg_oms quoted_engine))) < 2 ^ 12 - 1" using r1 by (simp add: fills_pending_def)
  have ev: "paper_event buy_event" using q by simp
  obtain applied where pe: "paper_engine 10000 12 (set_update_callback portfolio_new) applied one"
    and sq: "om_seq (eg_oms one) = 0 \<or> om_seq (eg_oms one) = 1"
    using paper_engine_step [OF quoted_start(1) n s1 ev len] unfolding one_def by (auto simp: quoted_start)
  have s2: "unat (om_seq (eg_oms one)) + 1 < 2 ^ 64" using sq by auto
  have p1: "length (fills_pending one) = 1" using o1(1) by (simp add: quoted_start)
  have r2: "length (fills_pending one) < 2 ^ 12 - 1" using p1 by simp
  have risk: "eg_risk one = update_price 7 100 (eg_risk quoted_engine)"
    using o1(5) c1 by (simp add: check_eq rate_check_eq quoted_start split: if_splits)
  have c2: "fst (check buy_ten capped_config (pf_snapshot (eg_portfolio one)) 363600 0 (eg_risk one)) = PASS"
    by (rule buy_passes) (simp_all add: o1(2) quoted_start risk, simp_all add: update_price_def quoted_start)
  note o2 = order_filled [OF pe n s2 q r2 c2 refl]
  show "fills_waiting 7 one = fills_pending one" "length (fills_pending one) = 1"
    using o1(1) p1 by (simp_all add: fills_waiting_def quoted_start paper_fill_def)
  show "exposure 7 (engine_run [buy_event, buy_event] quoted_engine) = 20"
    using o1(1,2) o2(1,2) quoted_start(4) [of 7]
    by (simp add: one_def exposure_def booked_def paper_fill_def signed_qty_def quoted_start(3) del: engine_step.simps)
qed


text \<open>A negative quantity passes the limit on a single order and the capital check whatever its size.\<close>

lemma negative_quantity_unlimited:
  assumes "rq_quantity req < 0" and "0 \<le> rl_max_single_order_value (sc_risk scfg)"
    and "strategy_used_capital pf (rq_strategy_id req) \<le> rl_max_capital_allocation (sc_risk scfg)"
    and "limit_checks req scfg pf ltp = REJECT_POSITION_LIMIT \<or> limit_checks req scfg pf ltp = REJECT_CAPITAL"
  shows "rl_max_position_value (sc_risk scfg)
     < of_int (abs32 (i32 (ps_quantity (snapshot_get_position pf (rq_token req)) + signed_delta req))) * ltp"
proof -
  have "of_int (rq_quantity req) * ltp \<le> 0" if "0 < ltp"
    using assms(1) that by (simp add: mult_le_0_iff)
  then show ?thesis
    using assms(2-4) by (fastforce simp: limit_checks_def Let_def split: if_splits)
qed

end
