(* ===== verification/QF_Live_Limits.thy ===== *)
theory QF_Live_Limits
  imports QF_Live
begin

text \<open>
  What the risk gate limits in live trading. The position and the capital it compares with the limits come
  from the portfolio, which changes with fills only, and a live session has none (\<open>QF_Live\<close>): the gate
  forgets every order it has let through.
\<close>

section \<open>One more order\<close>

lemma submit_seq_Suc: "fst (submit req ck m) \<Longrightarrow> \<not> om_paper m \<Longrightarrow> om_seq (snd (submit req ck m)) = om_seq m + 1"
proof (cases "pool_acquire (om_pool m)")
  case (Pair p pl)
  assume "fst (submit req ck m)" "\<not> om_paper m"
  with Pair show ?thesis by (cases p) (simp_all add: submit_None submit_Some)
qed

lemma rate_check_unlimited: "map_of (re_rate_limiters re) sid = None \<Longrightarrow> rate_check sid now re = (True, re)"
  by (simp add: rate_check_eq)

lemma check_unlimited: "map_of (re_rate_limiters re) (rq_strategy_id req) = None \<Longrightarrow> snd (check req scfg pf tt now re) = re"
  by (simp add: check_eq rate_check_unlimited)

lemma live_repeat_step:
  assumes inv: "live_inv pf lv" and free: "map_of (re_rate_limiters (eg_risk (live_engine lv))) (rq_strategy_id req) = None"
    and pass: "fst (check req scfg (pf_snapshot pf) tt now (eg_risk (live_engine lv))) = PASS"
    and room: "unat (om_seq (eg_oms (live_engine lv))) < 10000 + lv_refused lv"
    and lv': "lv' = live_step dump parse on_candle lib (Local (EngineEvent (StrategyOrder scfg req tt now ck))) lv"
  shows "live_inv pf lv' \<and> lv_refused lv' = lv_refused lv \<and> eg_risk (live_engine lv') = eg_risk (live_engine lv)
     \<and> unat (om_seq (eg_oms (live_engine lv'))) = Suc (unat (om_seq (eg_oms (live_engine lv))))
     \<and> orders_sent (eg_oms (live_engine lv')) = Suc (orders_sent (eg_oms (live_engine lv)))"
proof -
  let ?eg = "live_engine lv" and ?m = "eg_oms (live_engine lv)"
  have step: "live_inv pf lv' \<and> lv_refused lv' = lv_refused lv"
    using live_inv_local [OF inv, of "EngineEvent (StrategyOrder scfg req tt now ck)" on_candle lib] by (simp add: lv')
  have lb: "live_book (lv_refused lv) (map snd (lv_under_way lv)) ?m" and pf: "eg_portfolio ?eg = pf"
    using inv by (simp_all add: live_inv_def)
  then have "length (om_orders ?m) < 10000" using room by (simp add: live_book_def)
  then have acc: "fst (submit req ck ?m)" using lb by (subst submit_accepts_iff [where n = 10000 and k = 12]) (simp_all add: live_book_def)
  then obtain oid m' where sub: "submit req ck ?m = (True, emit (EmsPlace req oid) m')" "om_out m' = om_out ?m"
    using live_submit [OF lb, of req ck] by auto
  have eg': "live_engine lv' = with_oms (snd (submit req ck ?m)) ?eg"
    using pass pf check_unlimited [OF free, of scfg "pf_snapshot pf" tt now]
    by (cases "lv_system lv") (simp add: lv' live_local_def live_engine_def Let_def ctx_submit_order_eq split_beta with_oms_def)
  have out: "om_out (snd (submit req ck ?m)) = om_out ?m @ [EmsPlace req oid]"
    using sub by (simp add: emit_def)
  have "orders_sent (snd (submit req ck ?m)) = Suc (orders_sent ?m)" using out by (simp add: orders_sent_def)
  moreover have "om_seq (snd (submit req ck ?m)) = om_seq ?m + 1"
    using submit_seq_Suc [OF acc] lb by (simp add: live_book_def)
  moreover have "eg_risk (live_engine lv') = eg_risk ?eg" by (simp add: eg' with_oms_def out)
  ultimately show ?thesis
    using step unat_plus_one [OF live_book_room [OF lb]] by (simp add: eg')
qed

lemma live_repeat:
  "live_inv pf lv \<Longrightarrow> map_of (re_rate_limiters (eg_risk (live_engine lv))) (rq_strategy_id req) = None \<Longrightarrow>
   fst (check req scfg (pf_snapshot pf) tt now (eg_risk (live_engine lv))) = PASS \<Longrightarrow>
   unat (om_seq (eg_oms (live_engine lv))) + n \<le> 10000 + lv_refused lv \<Longrightarrow>
   orders_sent (eg_oms (live_engine (live_run dump parse on_candle lib
       (replicate n (Local (EngineEvent (StrategyOrder scfg req tt now ck)))) lv))) = orders_sent (eg_oms (live_engine lv)) + n"
proof (induction n arbitrary: lv)
  case (Suc n)
  define lv' where "lv' = live_step dump parse on_candle lib (Local (EngineEvent (StrategyOrder scfg req tt now ck))) lv"
  have "unat (om_seq (eg_oms (live_engine lv))) < 10000 + lv_refused lv" using Suc.prems(4) by simp
  note st = live_repeat_step [OF Suc.prems(1-3) this lv'_def]
  have "orders_sent (eg_oms (live_engine (live_run dump parse on_candle lib
       (replicate n (Local (EngineEvent (StrategyOrder scfg req tt now ck)))) lv'))) = orders_sent (eg_oms (live_engine lv')) + n"
    using Suc.prems(2-4) st by (intro Suc.IH) simp_all
  then show ?case using st by (simp add: lv'_def [symmetric] del: live_step.simps)
qed simp

section \<open>Any number of orders\<close>

text \<open>
  C31: in live trading the limits on position and capital do not add up. At any moment of any live session,
  an order of a strategy without a limiter that passes the gate passes it again as often as it is
  placed: \<open>n\<close> orders are sent for every \<open>n\<close> the pool has room for, whatever their total.
\<close>

lemma live_limits_forget:
  assumes "\<not> ec_paper_trading cfg" and "list_all live_event_ok es" and "length es < 2 ^ 63"
    and "\<forall>body j. parse body = Some j \<longrightarrow> exchange_oid j \<noteq> Some []"
    and "lv = live_run dump parse on_candle lib es (live_start cfg now0 readings)"
    and "map_of (re_rate_limiters (eg_risk (live_engine lv))) (rq_strategy_id req) = None"
    and "fst (check req scfg (get_snapshot (eg_portfolio (live_engine lv))) tt now (eg_risk (live_engine lv))) = PASS"
    and "unat (om_seq (eg_oms (live_engine lv))) + n \<le> 10000 + lv_refused lv"
  shows "orders_sent (eg_oms (live_engine (live_run dump parse on_candle lib
       (replicate n (Local (EngineEvent (StrategyOrder scfg req tt now ck)))) lv))) = orders_sent (eg_oms (live_engine lv)) + n"
proof -
  have "lv_refused (live_start cfg now0 readings) + length es < 2 ^ 63"
    using assms(3) by (simp add: live_start_def)
  from live_inv_run [OF live_inv_start [OF assms(1)] assms(2) this assms(4), of dump on_candle lib]
  have inv: "live_inv (set_update_callback portfolio_new) lv" by (simp add: assms(5))
  then have "fst (check req scfg (pf_snapshot (set_update_callback portfolio_new)) tt now (eg_risk (live_engine lv))) = PASS"
    using assms(7) by (simp add: live_inv_def get_snapshot_def)
  from live_repeat [OF inv assms(6) this assms(8)] show ?thesis .
qed

definition quote_events :: "live_event list" where
  \<comment> \<open>a tick for instrument 7 at a price of 100\<close>
  "quote_events = [Local (EngineEvent (RawTick (tick_init\<lparr>tk_token := 7, tk_ltp := 100\<rparr>))), Local (EngineEvent NormalizerTurn)]"

definition limited_buy :: order_request where
  "limited_buy = (order_request_init 7)\<lparr>rq_order_type := LIMIT, rq_quantity := 10, rq_limit_price := 100\<rparr>"

definition limited_config :: strategy_config where
  "limited_config = strategy_config_init\<lparr>sc_risk := risk_limits_init
     \<lparr>rl_max_position_value := 1000, rl_max_single_order_value := 1000, rl_max_capital_allocation := 1000\<rparr>\<rparr>"


lemma quoted_session:
  assumes "ec_strategies cfg = []" and "lv = live_run dump parse on_candle lib quote_events (live_start cfg now readings)"
  shows "current_price 7 (eg_risk (live_engine lv)) = 100"
    and "re_rate_limiters (eg_risk (live_engine lv)) = []" "re_global_kill_switch (eg_risk (live_engine lv)) = False"
    and "re_halted_strategies (eg_risk (live_engine lv)) = {}"
    and "eg_oms (live_engine lv) = eg_oms (engine_new cfg now)"
    and "eg_portfolio (live_engine lv) = set_update_callback portfolio_new" and "lv_refused lv = 0"
proof -
  let ?t = "tick_init\<lparr>tk_token := 7, tk_ltp := 100\<rparr>" and ?eg = "engine_new cfg now"
  define q where "q = snd (spsc_push ?t (nm_raw_queue (eg_normalizer ?eg)))"
  have eg: "live_engine lv = normalizer_turn (raw_tick ?t ?eg)"
    by (simp add: assms(2) quote_events_def live_local_def live_engine_def live_start_def Let_def)
  have new: "spsc_inv 16 (nm_raw_queue (eg_normalizer ?eg))" "spsc_items (nm_raw_queue (eg_normalizer ?eg)) = []"
    using spsc_inv_new [of 16 tick_init] by (simp_all add: engine_new_def set_kafka_fn_def TICK_QUEUE_CAPACITY_def)
  have q: "spsc_inv 16 q" "spsc_items q = [?t]"
    using ring.enq_room [OF new(1), of ?t] new(2) by (auto simp: q_def)
  define nm where "nm = (eg_normalizer ?eg)\<lparr>nm_raw_queue := q\<rparr>"
  have raw: "raw_tick ?t ?eg = ?eg\<lparr>eg_normalizer := nm\<rparr>" by (simp add: raw_tick_def nm_def q_def)
  have nq: "spsc_inv 16 (nm_raw_queue nm)" "spsc_items (nm_raw_queue nm) = ?t # []" "nm_has_kafka_fn nm" "nm_kafka_out nm = []"
    using q by (simp_all add: nm_def engine_new_def set_kafka_fn_def)
  have "valid_tick ?t" by (simp add: valid_tick_def sane_def tick_init_def)
  then have out: "nm_kafka_out (normalizer_iter nm) = [?t]"
    by - (rule normalizer_iter_cons [OF nq(1,2)], simp add: nq(3,4))
  have risk: "eg_risk (live_engine lv) = update_price 7 100 (eg_risk ?eg)"
    by (simp add: eg raw normalizer_turn_def Let_def out nq(4))
  show "current_price 7 (eg_risk (live_engine lv)) = 100"
    by (simp add: risk current_price_def update_price_def update_conv')
  show "re_rate_limiters (eg_risk (live_engine lv)) = []" "re_global_kill_switch (eg_risk (live_engine lv)) = False"
    "re_halted_strategies (eg_risk (live_engine lv)) = {}"
    using assms(1) by (simp_all add: risk update_price_def engine_new_def configure_def risk_new_def)
  show "eg_oms (live_engine lv) = eg_oms (engine_new cfg now)" by (simp add: eg raw normalizer_turn_def Let_def)
  show "eg_portfolio (live_engine lv) = set_update_callback portfolio_new"
    using eg raw by (simp add: normalizer_turn_def Let_def) (simp add: engine_new_def)
  show "lv_refused lv = 0" by (simp add: assms(2) quote_events_def live_local_def live_start_def Let_def)
qed

lemma limited_buy_passes:
  assumes "re_global_kill_switch re = False" and "re_halted_strategies re = {}" and "re_rate_limiters re = []"
    and "current_price 7 re = 100"
  shows "fst (check limited_buy limited_config (pf_snapshot (set_update_callback portfolio_new)) 363600 0 re) = PASS"
proof -
  have "is_open 363600" by (simp add: is_open_def gm_hour_def gm_min_def gm_wday_def)
  moreover have "sn_positions (pf_snapshot (set_update_callback portfolio_new)) = []"
    by (simp add: set_update_callback_def portfolio_new_def snapshot_init_def)
  ultimately show ?thesis
    using assms by (simp add: check_eq rate_check_eq is_strategy_halted_def limit_checks_def strategy_daily_pnl_def
        strategy_used_capital_def snapshot_get_position_def position_init_def small_i32 small_def signed_delta_def
        limited_config_def risk_limits_init_def limited_buy_def order_request_init_def)
qed

text \<open>With a limit of 1000 on order, position and capital, 5000 orders of 1000 are sent.\<close>

lemma live_limits_forget_witness:
  "let cfg = engine_config_init\<lparr>ec_paper_trading := False\<rparr>;
       lv = live_run (\<lambda>j. []) two_answers (\<lambda>cv c m. m) (\<lambda>p. NullStrategy) quote_events (live_start cfg 0 some_readings)
   in orders_sent (eg_oms (live_engine (live_run (\<lambda>j. []) two_answers (\<lambda>cv c m. m) (\<lambda>p. NullStrategy)
        (replicate 5000 (Local (EngineEvent (StrategyOrder limited_config limited_buy 363600 0
           \<lparr>ck_sys_ms = 0, ck_place_ns = 1, ck_fill_ns = 2\<rparr>)))) lv))) = 5000"
proof -
  define cfg where "cfg = engine_config_init\<lparr>ec_paper_trading := False\<rparr>"
  define lv where "lv = live_run (\<lambda>j. []) two_answers (\<lambda>cv c m. m) (\<lambda>p. NullStrategy) quote_events (live_start cfg 0 some_readings)"
  have live: "\<not> ec_paper_trading cfg" "ec_strategies cfg = []" by (simp_all add: cfg_def engine_config_init_def)
  note qs = quoted_session [OF live(2) lv_def]
  have oms: "om_seq (eg_oms (live_engine lv)) = 0" "orders_sent (eg_oms (live_engine lv)) = 0"
    by (simp_all add: qs(5) engine_new_def set_fill_callback_def oms_new_def orders_sent_def)
  have "fst (check limited_buy limited_config (get_snapshot (eg_portfolio (live_engine lv))) 363600 0 (eg_risk (live_engine lv))) = PASS"
    unfolding qs(6) get_snapshot_def using qs(1-4) by (intro limited_buy_passes)
  moreover have "map_of (re_rate_limiters (eg_risk (live_engine lv))) (rq_strategy_id limited_buy) = None" by (simp add: qs(2))
  moreover have "list_all live_event_ok quote_events" "length quote_events < 2 ^ 63" by (simp_all add: quote_events_def)
  moreover have "\<forall>body j. two_answers body = Some j \<longrightarrow> exchange_oid j \<noteq> Some []"
    by (auto simp: two_answers_def exchange_oid_def)
  moreover have "unat (om_seq (eg_oms (live_engine lv))) + 5000 \<le> 10000 + lv_refused lv" by (simp add: oms)
  ultimately have "orders_sent (eg_oms (live_engine (live_run (\<lambda>j. []) two_answers (\<lambda>cv c m. m) (\<lambda>p. NullStrategy)
        (replicate 5000 (Local (EngineEvent (StrategyOrder limited_config limited_buy 363600 0
           \<lparr>ck_sys_ms = 0, ck_place_ns = 1, ck_fill_ns = 2\<rparr>)))) lv))) = orders_sent (eg_oms (live_engine lv)) + 5000"
    by (intro live_limits_forget [OF live(1) _ _ _ lv_def])
  then show ?thesis by (simp only: Let_def cfg_def [symmetric] lv_def [symmetric] oms add_0)
qed

end
