(* ===== verification/QF_Main.thy ===== *)
theory QF_Main
  imports QF_Publish
begin

text \<open>
  \<open>main\<close> of \<open>cpp/main/main.cpp\<close> as a process: it builds the program, starts its parts in order, beats
  every ten seconds until a signal has set \<open>g_shutdown\<close>, and shuts the parts down in order. A step is one
  call of the main thread, one second of its sleep, a signal, or a step of one of the threads that have been
  started; the program they work on is that of \<open>QF_Publish\<close>. The logger of \<open>cpp/common/logger.hpp\<close>
  comes first. Time passes in the sleep of the loop only.
\<close>

section \<open>The logger\<close>

datatype log_level = LvTrace | LvDebug | LvInfo | LvWarn | LvError | LvCritical

fun level_rank :: "log_level \<Rightarrow> nat" where
  "level_rank LvTrace = 0"
| "level_rank LvDebug = 1"
| "level_rank LvInfo = 2"
| "level_rank LvWarn = 3"
| "level_rank LvError = 4"
| "level_rank LvCritical = 5"

instantiation log_level :: linorder
begin

definition less_eq_log_level :: "log_level \<Rightarrow> log_level \<Rightarrow> bool" where
  "less_eq_log_level a b \<longleftrightarrow> level_rank a \<le> level_rank b"

definition less_log_level :: "log_level \<Rightarrow> log_level \<Rightarrow> bool" where
  "less_log_level a b \<longleftrightarrow> level_rank a < level_rank b"

instance
proof
  fix a b :: log_level
  show "a \<le> b \<Longrightarrow> b \<le> a \<Longrightarrow> a = b"
    by (cases a; cases b) (simp_all add: less_eq_log_level_def)
qed (auto simp: less_eq_log_level_def less_log_level_def)

end

datatype overflow_policy = Block | OverrunOldest

record logger =
  lg_name :: string
  lg_console_level :: log_level
  lg_file :: string
  lg_file_level :: log_level
  lg_level :: log_level
  lg_queue :: nat
  lg_threads :: nat
  lg_overflow :: overflow_policy
  lg_pattern :: string
  lg_flush_seconds :: nat

record log_state =
  ls_default :: "logger option"
  ls_stderr :: "string list"

definition log_init :: "string option \<Rightarrow> string \<Rightarrow> log_level \<Rightarrow> log_state \<Rightarrow> log_state" where
  \<comment> \<open>\<open>failure\<close>: the message of the exception if the library could not make the pool or a sink\<close>
  "log_init failure log_dir level st =
     (case failure of
        Some what \<Rightarrow> st\<lparr>ls_stderr := ls_stderr st @ [''Logger init failed: '' @ what]\<rparr>
      | None \<Rightarrow> st\<lparr>ls_default := Some
          \<lparr>lg_name = ''qf'', lg_console_level = level, lg_file = log_dir @ ''/engine.log'', lg_file_level = LvTrace,
           lg_level = LvTrace, lg_queue = 8192, lg_threads = 2, lg_overflow = OverrunOldest,
           lg_pattern = ''[%Y-%m-%d %H:%M:%S.%f] [%n] [%l] [%t] %v'', lg_flush_seconds = 1\<rparr>\<rparr>)"

definition log_shutdown :: "log_state \<Rightarrow> log_state" where
  "log_shutdown st = st\<lparr>ls_default := None\<rparr>"

definition log_flush :: "log_state \<Rightarrow> log_state option" where
  \<comment> \<open>\<open>None\<close>: the default logger is a null pointer, as it is after \<open>shutdown\<close>\<close>
  "log_flush st = (if ls_default st = None then None else Some st)"

definition log_line :: "log_level \<Rightarrow> log_level \<Rightarrow> logger \<Rightarrow> bool \<times> bool" where
  \<comment> \<open>whether a line of a \<open>LOG_\<close> macro goes to the console and to the file; \<open>active\<close> is the level the
    macros are compiled for\<close>
  "log_line active lv lg = (let on = active \<le> lv \<and> lg_level lg \<le> lv
     in (on \<and> lg_console_level lg \<le> lv, on \<and> lg_file_level lg \<le> lv))"

lemma log_ranks: "LvTrace \<le> lv" "\<not> LvInfo \<le> LvTrace" "\<not> LvInfo \<le> LvDebug"
  by (cases lv) (simp_all add: less_eq_log_level_def)

text \<open>
  With the macros compiled for \<open>info\<close>, as by default, the file gets exactly what the console gets, although
  its level is \<open>trace\<close>: the lines of \<open>LOG_TRACE\<close> and \<open>LOG_DEBUG\<close> are nowhere.
\<close>

lemma debug_lines_vanish:
  assumes "ls_default (log_init None dir LvInfo st) = Some lg"
  shows "log_line LvInfo lv lg = (LvInfo \<le> lv, LvInfo \<le> lv)"
    and "log_line LvInfo LvTrace lg = (False, False) \<and> log_line LvInfo LvDebug lg = (False, False)"
  using assms by (auto simp: log_init_def log_line_def Let_def log_ranks)

text \<open>Flushing before the shutdown, as \<open>main\<close> does on both ways out, is safe; afterwards it is not.\<close>

lemma flush_then_shutdown:
  "ls_default st \<noteq> None \<Longrightarrow> map_option log_shutdown (log_flush st) = Some (log_shutdown st) \<and> log_flush (log_shutdown st) = None"
  by (simp add: log_flush_def log_shutdown_def)

section \<open>The calls of main\<close>

datatype main_call =
  PortfolioStart
| StrategiesStart
| NormalizerStart
| WsSubscribe "string list" string
| WarnNoInstruments
| WsStart
| IoThreadStart
| Heartbeat heartbeat
| CancelAllOpen
| PauseMs nat
| WsStop
| WorkGuardReset
| IocStop
| NormalizerStop
| StrategiesStop
| PortfolioStop
| CandlesFlush
| KafkaFlush int
| RedisFlush
| IoJoin

definition start_calls :: "engine_config \<Rightarrow> main_call list" where
  "start_calls cfg = [PortfolioStart, StrategiesStart, NormalizerStart,
     (if instrument_keys cfg \<noteq> [] then WsSubscribe (instrument_keys cfg) ''full'' else WarnNoInstruments),
     WsStart, IoThreadStart]"

definition shutdown_calls :: "main_call list" where
  "shutdown_calls = [CancelAllOpen, PauseMs 500, WsStop, WorkGuardReset, IocStop, NormalizerStop, StrategiesStop,
     PortfolioStop, CandlesFlush, KafkaFlush 5000, RedisFlush, IoJoin]"

record main_env =
  \<comment> \<open>the libraries and the clock\<close>
  me_outside :: outside
  me_on_candle :: "ctx_view \<Rightarrow> candle \<Rightarrow> momentum \<Rightarrow> momentum"
  me_library :: "string \<Rightarrow> momentum created"
  me_sys_ns :: u64

definition program_step :: "main_env \<Rightarrow> system_event \<Rightarrow> deployed \<Rightarrow> deployed option" where
  "program_step me e d = deployed_step (me_outside me) (me_on_candle me) (me_library me) e d"

fun call_effect :: "main_env \<Rightarrow> main_call \<Rightarrow> deployed \<Rightarrow> deployed option" where
  \<comment> \<open>what a call does to the program; the others start, stop or join threads, wait, or only log\<close>
  "call_effect me StrategiesStart d = program_step me (ManagerEvent StartAll) d"
| "call_effect me CancelAllOpen d = program_step me (EngineEvent ShutdownCancel) d"
| "call_effect me StrategiesStop d = program_step me (ManagerEvent StopAll) d"
| "call_effect me CandlesFlush d = program_step me (FlushCandles (me_sys_ns me)) d"
| "call_effect me RedisFlush d = map_option (\<lambda>ot. d\<lparr>dp_outlet := ot\<rparr>) (flush_outlet (me_outside me) (dp_outlet d))"
| "call_effect me _ d = Some d"

fun do_calls :: "main_env \<Rightarrow> main_call list \<Rightarrow> deployed \<Rightarrow> deployed option" where
  "do_calls me [] d = Some d"
| "do_calls me (c # cs) d = Option.bind (call_effect me c d) (do_calls me cs)"

section \<open>The main thread\<close>

datatype main_pc = StartingUp "main_call list" | LoopTest | Sleeping nat | ShuttingDown "main_call list" | Returned int

record main_state =
  mn_shutdown :: bool \<comment> \<open>\<open>g_shutdown\<close>\<close>
  mn_pc :: main_pc
  mn_beat :: u64
  mn_slept :: nat \<comment> \<open>seconds the loop has slept\<close>
  mn_calls :: "main_call list" \<comment> \<open>the calls made so far\<close>
  mn_io :: bool \<comment> \<open>the io thread is in \<open>ioc.run()\<close>\<close>
  mn_program :: deployed

definition main_build :: "outside \<Rightarrow> string option \<Rightarrow> string option \<Rightarrow> string option \<Rightarrow> u64 \<Rightarrow> (nat \<Rightarrow> reading)
    \<Rightarrow> string + deployed" where
  \<comment> \<open>from the configuration to the last constructor; \<open>Inl\<close> is the exception that \<open>main\<close> catches\<close>
  "main_build out file tok tok2 now readings =
     (case engine_startup_config file tok tok2 of
        Inl e \<Rightarrow> Inl e
      | Inr cfg \<Rightarrow> (case redis_new (os_redis out) (ec_redis_url cfg) of
          Inl e \<Rightarrow> Inl e
        | Inr rs \<Rightarrow> Inr
            \<lparr>dp_system = (strategy_manager_new cfg, \<lparr>wd_engine = engine_new cfg now, wd_readings = readings, wd_next = 0\<rparr>),
             dp_outlet = \<lparr>ot_kafka = kafka_new (os_kafka out) (os_topics out), ot_redis = rs, ot_produced = 0, ot_flushes = 0\<rparr>\<rparr>))"

definition program_config :: "deployed \<Rightarrow> engine_config" where
  "program_config d = sm_cfg (fst (dp_system d))"

definition main_begin :: "bool \<Rightarrow> deployed \<Rightarrow> main_state" where
  \<comment> \<open>after the constructors; a signal may have come before\<close>
  "main_begin signalled d = \<lparr>mn_shutdown = signalled, mn_pc = StartingUp (start_calls (program_config d)), mn_beat = 0,
     mn_slept = 0, mn_calls = [], mn_io = False, mn_program = d\<rparr>"

definition signal_handler :: "main_state \<Rightarrow> main_state" where
  "signal_handler s = s\<lparr>mn_shutdown := True\<rparr>"

definition make_call :: "main_env \<Rightarrow> main_call \<Rightarrow> main_pc \<Rightarrow> main_state \<Rightarrow> main_state option" where
  "make_call me c next s = map_option
     (\<lambda>d. s\<lparr>mn_program := d, mn_calls := mn_calls s @ [c], mn_pc := next, mn_io := (mn_io s \<or> c = IoThreadStart)\<rparr>)
     (call_effect me c (mn_program s))"

definition main_own :: "main_env \<Rightarrow> main_state \<Rightarrow> main_state option" where
  \<comment> \<open>the next step of the main thread; \<open>None\<close> when it waits or has returned\<close>
  "main_own me s = (case mn_pc s of
       StartingUp [] \<Rightarrow> Some (s\<lparr>mn_pc := LoopTest\<rparr>)
     | StartingUp (c # cs) \<Rightarrow> make_call me c (StartingUp cs) s
     | LoopTest \<Rightarrow> Some (s\<lparr>mn_pc := (if mn_shutdown s then ShuttingDown shutdown_calls else Sleeping 10)\<rparr>)
     | Sleeping (Suc n) \<Rightarrow> Some (s\<lparr>mn_pc := Sleeping n, mn_slept := Suc (mn_slept s)\<rparr>)
     | Sleeping 0 \<Rightarrow>
         let (beat, hb) = heartbeat_of (mn_beat s) (wd_engine (snd (dp_system (mn_program s))))
         in Some (s\<lparr>mn_beat := beat, mn_calls := mn_calls s @ [Heartbeat hb], mn_pc := LoopTest\<rparr>)
     | ShuttingDown [] \<Rightarrow> Some (s\<lparr>mn_pc := Returned 0\<rparr>)
     | ShuttingDown (c # cs) \<Rightarrow> if c = IoJoin \<and> mn_io s then None else make_call me c (ShuttingDown cs) s
     | Returned r \<Rightarrow> None)"

fun thread_event :: "main_state \<Rightarrow> system_event \<Rightarrow> bool" where
  \<comment> \<open>the steps the threads that run can make\<close>
  "thread_event s NormalizerThread \<longleftrightarrow> NormalizerStart \<in> set (mn_calls s) \<and> NormalizerStop \<notin> set (mn_calls s)"
| "thread_event s (EngineEvent PortfolioTurn) \<longleftrightarrow> PortfolioStart \<in> set (mn_calls s) \<and> PortfolioStop \<notin> set (mn_calls s)"
| "thread_event s (ManagerEvent (ThreadTurn i)) \<longleftrightarrow> StrategiesStart \<in> set (mn_calls s) \<and> StrategiesStop \<notin> set (mn_calls s)"
| "thread_event s (EngineEvent (RawTick t)) \<longleftrightarrow> mn_io s"
| "thread_event s (EngineEvent (EmsAck ex oid)) \<longleftrightarrow> mn_io s"
| "thread_event s (EngineEvent (EmsError oid reason)) \<longleftrightarrow> mn_io s"
| "thread_event s (EngineEvent (EmsFill ex p q tid now)) \<longleftrightarrow> mn_io s"
| "thread_event s _ \<longleftrightarrow> False"

inductive main_step :: "main_env \<Rightarrow> main_state \<Rightarrow> main_state \<Rightarrow> bool" for me where
  step_main: "main_own me s = Some s' \<Longrightarrow> main_step me s s'"
| step_signal: "mn_pc s \<notin> range Returned \<Longrightarrow> main_step me s (signal_handler s)"
| step_thread: "thread_event s e \<Longrightarrow> program_step me e (mn_program s) = Some d \<Longrightarrow> main_step me s (s\<lparr>mn_program := d\<rparr>)"
| step_io_ends: "mn_io s \<Longrightarrow> IocStop \<in> set (mn_calls s) \<Longrightarrow> main_step me s (s\<lparr>mn_io := False\<rparr>)"

inductive_cases main_stepE: "main_step me s s'"

abbreviation main_run :: "main_env \<Rightarrow> main_state \<Rightarrow> main_state \<Rightarrow> bool" where
  "main_run me \<equiv> (main_step me)\<^sup>*\<^sup>*"

definition exit_code :: "string + main_state \<Rightarrow> int option" where
  \<comment> \<open>what \<open>main\<close> returns: 1 when building the program has thrown\<close>
  "exit_code r = (case r of Inl e \<Rightarrow> Some 1 | Inr s \<Rightarrow> (case mn_pc s of Returned c \<Rightarrow> Some c | _ \<Rightarrow> None))"

section \<open>The order of the calls\<close>

fun is_heartbeat :: "main_call \<Rightarrow> bool" where
  "is_heartbeat (Heartbeat hb) = True"
| "is_heartbeat _ = False"

definition heartbeats :: "main_state \<Rightarrow> main_call list" where
  "heartbeats s = filter is_heartbeat (mn_calls s)"

fun where_main_is :: "engine_config \<Rightarrow> main_call list \<Rightarrow> main_state \<Rightarrow> main_pc \<Rightarrow> bool" where
  \<comment> \<open>the calls made, the calls still to make and the seconds slept, with the heartbeats \<open>bs\<close> so far\<close>
  "where_main_is cfg bs s (StartingUp cs) \<longleftrightarrow> bs = [] \<and> mn_slept s = 0 \<and> mn_calls s @ cs = start_calls cfg"
| "where_main_is cfg bs s LoopTest \<longleftrightarrow> mn_calls s = start_calls cfg @ bs \<and> mn_slept s = 10 * length bs"
| "where_main_is cfg bs s (Sleeping n) \<longleftrightarrow> mn_calls s = start_calls cfg @ bs \<and> mn_slept s + n = 10 * length bs + 10 \<and> n \<le> 10"
| "where_main_is cfg bs s (ShuttingDown cs) \<longleftrightarrow> mn_shutdown s \<and> mn_slept s = 10 * length bs
     \<and> (\<exists>pre. pre @ cs = shutdown_calls \<and> mn_calls s = start_calls cfg @ bs @ pre \<and> (IoJoin \<in> set pre \<longrightarrow> \<not> mn_io s))"
| "where_main_is cfg bs s (Returned r) \<longleftrightarrow> r = 0 \<and> mn_shutdown s \<and> mn_slept s = 10 * length bs
     \<and> mn_calls s = start_calls cfg @ bs @ shutdown_calls \<and> \<not> mn_io s"

definition main_inv :: "engine_config \<Rightarrow> main_state \<Rightarrow> bool" where
  "main_inv cfg s \<longleftrightarrow> (\<exists>bs. list_all is_heartbeat bs \<and> mn_beat s = of_nat (length bs) \<and> where_main_is cfg bs s (mn_pc s))"

lemma main_invI: "list_all is_heartbeat bs \<Longrightarrow> mn_beat s = of_nat (length bs) \<Longrightarrow> where_main_is cfg bs s (mn_pc s) \<Longrightarrow> main_inv cfg s"
  by (auto simp: main_inv_def)

lemma main_begin_inv: "main_inv (program_config d) (main_begin sg d)"
  by (rule main_invI [of "[]"]) (simp_all add: main_begin_def)

lemma make_call_Some:
  "make_call me c next s = Some s' \<longleftrightarrow> (\<exists>d. call_effect me c (mn_program s) = Some d
     \<and> s' = s\<lparr>mn_program := d, mn_calls := mn_calls s @ [c], mn_pc := next, mn_io := (mn_io s \<or> c = IoThreadStart)\<rparr>)"
  by (auto simp: make_call_def)

lemma shutdown_calls_facts [simp]:
  "IoThreadStart \<notin> set shutdown_calls" "IoJoin \<in> set shutdown_calls" "NormalizerStop \<in> set shutdown_calls"
  "PortfolioStop \<in> set shutdown_calls" "StrategiesStop \<in> set shutdown_calls" "filter is_heartbeat shutdown_calls = []"
  "length shutdown_calls = 12"
  by (simp_all add: shutdown_calls_def)

lemma start_calls_facts [simp]: "filter is_heartbeat (start_calls cfg) = []" "length (start_calls cfg) = 6"
  by (simp_all add: start_calls_def)

lemma ioc_stopped: "pre @ IoJoin # cs = shutdown_calls \<Longrightarrow> IocStop \<in> set pre"
  by (auto simp: shutdown_calls_def append_eq_Cons_conv)

lemma main_own_inv:
  assumes inv: "main_inv cfg s" and st: "main_own me s = Some s'"
  shows "main_inv cfg s'"
proof -
  obtain bs where bs: "list_all is_heartbeat bs" "mn_beat s = of_nat (length bs)" "where_main_is cfg bs s (mn_pc s)"
    using inv by (auto simp: main_inv_def)
  show ?thesis
  proof (cases "mn_pc s")
    case (StartingUp cs)
    then show ?thesis
      using bs st by (cases cs) (auto simp: main_own_def make_call_Some intro!: main_invI [of bs])
  next
    case LoopTest
    then show ?thesis
      using bs st by (auto simp: main_own_def intro!: main_invI [of bs])
  next
    case (Sleeping n)
    then show ?thesis
      using bs st by (cases n)
        (auto simp: main_own_def heartbeat_of_def Let_def add.commute intro: main_invI [of bs] main_invI [of "bs @ [Heartbeat hb]" for hb])
  next
    case (ShuttingDown cs)
    then obtain pre where pre: "pre @ cs = shutdown_calls" "mn_calls s = start_calls cfg @ bs @ pre" "IoJoin \<in> set pre \<longrightarrow> \<not> mn_io s"
      "mn_shutdown s" "mn_slept s = 10 * length bs" using bs(3) by auto
    show ?thesis
    proof (cases cs)
      case Nil
      with pre(1) have "IoJoin \<in> set pre" by simp
      then show ?thesis
        using bs(1,2) st ShuttingDown Nil pre by (auto simp: main_own_def intro!: main_invI [of bs])
    next
      case (Cons c cs')
      have "c \<in> set shutdown_calls" using pre(1) Cons by (metis in_set_conv_decomp)
      then have "c \<noteq> IoThreadStart" by auto
      then show ?thesis
        using bs(1,2) st ShuttingDown Cons pre
        by (auto simp: main_own_def make_call_Some split: if_splits intro!: main_invI [of bs] exI [of _ "pre @ [c]"])
    qed
  next
    case (Returned r)
    then show ?thesis using st by (simp add: main_own_def)
  qed
qed

lemma main_step_inv: "main_step me s s' \<Longrightarrow> main_inv cfg s \<Longrightarrow> main_inv cfg s'"
proof (induction rule: main_step.induct)
  case (step_main s s')
  then show ?case by (blast intro: main_own_inv)
next
  case (step_signal s)
  then show ?case
    by (cases "mn_pc s") (auto simp: main_inv_def signal_handler_def)
next
  case (step_thread s e d)
  then show ?case by (cases "mn_pc s") (auto simp: main_inv_def)
next
  case (step_io_ends s)
  then show ?case by (cases "mn_pc s") (auto simp: main_inv_def)
qed

lemma main_run_inv: "main_run me s s' \<Longrightarrow> main_inv cfg s \<Longrightarrow> main_inv cfg s'"
  by (induction rule: rtranclp_induct) (auto intro: main_step_inv)


section \<open>After a signal\<close>

definition sleep_left :: "main_state \<Rightarrow> nat" where
  \<comment> \<open>seconds of sleep still to come once the flag is set\<close>
  "sleep_left s = (case mn_pc s of Sleeping n \<Rightarrow> n | _ \<Rightarrow> 0)"

definition beats_left :: "main_state \<Rightarrow> nat" where
  "beats_left s = (case mn_pc s of Sleeping n \<Rightarrow> 1 | _ \<Rightarrow> 0)"

lemma signalled_step:
  assumes "main_step me s s'" and "mn_shutdown s" and "main_inv cfg s"
  shows "mn_shutdown s' \<and> mn_slept s' + sleep_left s' \<le> mn_slept s + sleep_left s
     \<and> length (heartbeats s') + beats_left s' \<le> length (heartbeats s) + beats_left s"
  using assms(1)
proof (cases rule: main_step.cases)
  case step_main
  have sc: "\<not> is_heartbeat c" if "mn_pc s = StartingUp (c # cs)" for c cs
  proof -
    have "c \<in> set (start_calls cfg)" using assms(3) that by (fastforce simp: main_inv_def dest: arg_cong [where f = set])
    then show ?thesis by (auto simp: start_calls_def split: if_splits)
  qed
  have hc: "\<not> is_heartbeat c" if pc: "mn_pc s = ShuttingDown (c # cs)" for c cs
  proof -
    obtain pre where "pre @ c # cs = shutdown_calls" using assms(3) pc by (auto simp: main_inv_def)
    then have "c \<in> set shutdown_calls" by (metis in_set_conv_decomp)
    then show ?thesis by (auto simp: shutdown_calls_def)
  qed
  show ?thesis
    using step_main assms(2) sc hc
    by (auto simp: main_own_def make_call_Some sleep_left_def beats_left_def heartbeats_def Let_def split_beta heartbeat_of_def
        split: main_pc.splits list.splits nat.splits if_splits)
next
  case step_signal
  then show ?thesis using assms(2) by (simp add: signal_handler_def sleep_left_def beats_left_def heartbeats_def)
qed (use assms(2) in \<open>simp_all add: sleep_left_def beats_left_def heartbeats_def\<close>)

lemma signalled_run:
  assumes "main_run me s s'" and "mn_shutdown s" and "main_inv cfg s"
  shows "mn_shutdown s' \<and> mn_slept s' + sleep_left s' \<le> mn_slept s + sleep_left s
     \<and> length (heartbeats s') + beats_left s' \<le> length (heartbeats s) + beats_left s"
  using assms(1)
proof (induction rule: rtranclp_induct)
  case (step s1 s2)
  have "main_inv cfg s1" using step.hyps(1) assms(3) by (rule main_run_inv)
  with signalled_step [OF step.hyps(2)] step.IH show ?case by (meson order_trans)
qed (use assms(2) in simp)

subsection \<open>No call hangs if reads time out\<close>

lemma flush_returns: "reads_time_out out \<Longrightarrow> flush_outlet out ot \<noteq> None"
proof -
  assume "reads_time_out out"
  then obtain k where k: "\<not> os_replies out (ot_flushes ot) k" by (auto simp: reads_time_out_def)
  have "drain_replies (os_replies out (ot_flushes ot)) 0 \<noteq> None"
    using drain_until [of 0 "LEAST k. \<not> os_replies out (ot_flushes ot) k" "os_replies out (ot_flushes ot)"]
      LeastI [of "\<lambda>k. \<not> os_replies out (ot_flushes ot) k", OF k] not_less_Least by fastforce
  then show "flush_outlet out ot \<noteq> None" by (auto simp: flush_outlet_def redis_flush_def)
qed

lemma updates_return: "reads_time_out out \<Longrightarrow> publish_updates out ss ot \<noteq> None"
proof (induction ss arbitrary: ot)
  case (Cons s ss)
  obtain ot' where "on_update_callback out s ot = Some ot'"
    unfolding on_update_callback_def using flush_returns [OF Cons.prems] by blast
  then show ?case using Cons.IH [OF Cons.prems] by simp
qed simp

lemma call_returns: "reads_time_out (me_outside me) \<Longrightarrow> call_effect me c d \<noteq> None"
  using flush_returns updates_return
  by (cases c) (auto simp: program_step_def deployed_step_def Let_def)

subsection \<open>The main thread gets to its end\<close>

fun steps_to_go :: "main_pc \<Rightarrow> nat" where
  \<comment> \<open>steps of the main thread to the end once the flag is set; a call may launch the io thread\<close>
  "steps_to_go (Returned r) = 0"
| "steps_to_go (ShuttingDown cs) = 1 + 2 * length cs"
| "steps_to_go LoopTest = 26"
| "steps_to_go (Sleeping n) = 27 + n"
| "steps_to_go (StartingUp cs) = 27 + 2 * length cs"

definition to_go :: "main_state \<Rightarrow> nat" where
  "to_go s = steps_to_go (mn_pc s) + (if mn_io s then 1 else 0)"

lemma main_progress:
  assumes inv: "main_inv cfg s" and "mn_shutdown s" and out: "reads_time_out (me_outside me)" and "mn_pc s \<notin> range Returned"
  shows "\<exists>s'. main_step me s s' \<and> mn_shutdown s' \<and> to_go s' < to_go s"
proof (cases "\<exists>cs. mn_pc s = ShuttingDown (IoJoin # cs) \<and> mn_io s")
  case True
  then obtain cs where pc: "mn_pc s = ShuttingDown (IoJoin # cs)" "mn_io s" by blast
  then obtain pre bs where "pre @ IoJoin # cs = shutdown_calls" "mn_calls s = start_calls cfg @ bs @ pre"
    using inv by (auto simp: main_inv_def)
  with ioc_stopped [of pre cs] have "IocStop \<in> set (mn_calls s)" by simp
  from step_io_ends [OF pc(2) this, of me] show ?thesis
    using pc assms(2) by (intro exI [of _ "s\<lparr>mn_io := False\<rparr>"]) (simp add: to_go_def)
next
  case False
  have call: "\<exists>s'. make_call me c next s = Some s' \<and> mn_shutdown s' \<and> mn_pc s' = next" for c "next"
    using call_returns [OF out, of c "mn_program s"] assms(2) by (auto simp: make_call_Some)
  have "\<exists>s'. main_own me s = Some s' \<and> mn_shutdown s' \<and> to_go s' < to_go s"
  proof (cases "mn_pc s")
    case (StartingUp cs)
    show ?thesis
    proof (cases cs)
      case (Cons c cs')
      obtain s' where s': "make_call me c (StartingUp cs') s = Some s'" "mn_shutdown s'" "mn_pc s' = StartingUp cs'"
        using call by blast
      then have "main_own me s = Some s'" "to_go s' < to_go s"
        using StartingUp Cons by (simp_all add: main_own_def to_go_def)
      with s'(2) show ?thesis by blast
    qed (use StartingUp assms(2) in \<open>simp add: main_own_def to_go_def\<close>)
  next
    case (ShuttingDown cs)
    show ?thesis
    proof (cases cs)
      case (Cons c cs')
      obtain s' where s': "make_call me c (ShuttingDown cs') s = Some s'" "mn_shutdown s'" "mn_pc s' = ShuttingDown cs'"
        using call by blast
      then have "main_own me s = Some s'" "to_go s' < to_go s"
        using ShuttingDown Cons False by (simp_all add: main_own_def to_go_def)
      with s'(2) show ?thesis by blast
    qed (use ShuttingDown assms(2) in \<open>simp add: main_own_def to_go_def\<close>)
  next
    case (Sleeping n)
    then show ?thesis using assms(2) by (cases n) (simp_all add: main_own_def to_go_def split_beta)
  qed (use assms in \<open>simp_all add: main_own_def to_go_def\<close>)
  then show ?thesis by (blast intro: main_step.step_main)
qed

lemma main_returns:
  "main_inv cfg s \<Longrightarrow> mn_shutdown s \<Longrightarrow> reads_time_out (me_outside me) \<Longrightarrow>
   \<exists>s'. main_run me s s' \<and> mn_pc s' = Returned 0"
proof (induction "to_go s" arbitrary: s rule: less_induct)
  case less
  show ?case
  proof (cases "mn_pc s \<in> range Returned")
    case True
    then have "mn_pc s = Returned 0" using less.prems(1) by (auto simp: main_inv_def)
    then show ?thesis by blast
  next
    case False
    then obtain s1 where s1: "main_step me s s1" "mn_shutdown s1" "to_go s1 < to_go s"
      using main_progress less.prems by blast
    from less.hyps [OF s1(3) main_step_inv [OF s1(1) less.prems(1)] s1(2) less.prems(3)]
    show ?thesis using s1(1) by (blast intro: converse_rtranclp_into_rtranclp)
  qed
qed


text \<open>
  The flag is looked at only between two sleeps: a signal in the middle of one is acted upon when it
  is over, and until then the strategies trade on.
\<close>

lemma sleep_monotone: "main_step me s s' \<Longrightarrow> mn_slept s + sleep_left s \<le> mn_slept s' + sleep_left s'"
  by (erule main_stepE)
    (auto simp: main_own_def make_call_Some sleep_left_def signal_handler_def Let_def split_beta
      split: main_pc.splits list.splits nat.splits if_splits)

lemma signal_waits_for_sleep:
  assumes "main_run me s s'" and "mn_pc s = Sleeping n" and "mn_pc s' = ShuttingDown cs"
  shows "mn_slept s + n \<le> mn_slept s'"
proof -
  have "mn_slept s + sleep_left s \<le> mn_slept s' + sleep_left s'"
    using assms(1) by (induction rule: rtranclp_induct) (auto dest: sleep_monotone)
  with assms(2,3) show ?thesis by (simp add: sleep_left_def)
qed

section \<open>The program without other threads\<close>

text \<open>
  Made in one go, the calls of the start and of the shutdown are those of \<open>QF_Publish\<close>.
\<close>

lemma start_all_silent:
  "program_step me (ManagerEvent StartAll) d = Some (d\<lparr>dp_system := (start_all (momentum_plugin (me_on_candle me)) (me_library me)
     (fst (dp_system d)), snd (dp_system d))\<rparr>)"
  by (cases "dp_system d") (simp add: program_step_def deployed_step_def fresh_def Let_def)

lemma start_calls_do:
  "do_calls me (start_calls cfg) d = program_step me (ManagerEvent StartAll) d"
  by (simp add: start_calls_def start_all_silent)

lemma deployed_start_calls:
  assumes "out = me_outside me" and "on_candle = me_on_candle me" and "lib = me_library me"
  shows "deployed_start out file tok tok2 lib now readings on_candle
     = (case main_build out file tok tok2 now readings of Inl e \<Rightarrow> Inl e
        | Inr d \<Rightarrow> Inr (the (do_calls me (start_calls (program_config d)) d)))"
  unfolding start_calls_do start_all_silent
  by (auto simp: assms deployed_start_def main_build_def system_start_def split: sum.split)

lemma deployed_shutdown_calls:
  "do_calls me shutdown_calls d
     = deployed_shutdown (me_outside me) (me_on_candle me) (me_library me) (me_sys_ns me) d"
proof -
  have cons: "do_calls me (c # cs) = (\<lambda>d. Option.bind (call_effect me c d) (do_calls me cs))" for c cs by (rule ext) simp
  have nil: "do_calls me [] = Some" by (rule ext) simp
  show ?thesis
    by (simp add: shutdown_calls_def cons nil deployed_shutdown_def system_shutdown_def program_step_def Option.bind_assoc
        del: system_step.simps do_calls.simps)
qed

section \<open>A session that ends\<close>

definition some_env :: main_env where
  "some_env = \<lparr>me_outside = some_outside, me_on_candle = no_candles, me_library = momentum_library, me_sys_ns = 0\<rparr>"

lemma some_build:
  obtains d where "main_build some_outside None (Some ''tok'') None 0 some_readings = Inr d"
proof -
  obtain d where d: "deployed_start some_outside None (Some ''tok'') None momentum_library 0 some_readings no_candles = Inr d"
    by (rule some_start)
  have env: "some_outside = me_outside some_env" "no_candles = me_on_candle some_env" "momentum_library = me_library some_env"
    by (simp_all add: some_env_def)
  show thesis
    using d deployed_start_calls [OF env, of None "Some ''tok''" None 0 some_readings] that by (auto split: sum.splits)
qed

lemma some_session:
  obtains d s where "main_build some_outside None (Some ''tok'') None 0 some_readings = Inr d"
    and "main_run some_env (main_begin False d) (signal_handler (main_begin False d))"
    and "main_run some_env (main_begin False d) s" and "mn_pc s = Returned 0"
proof -
  obtain d where d: "main_build some_outside None (Some ''tok'') None 0 some_readings = Inr d" by (rule some_build)
  let ?b = "main_begin False d"
  have "main_step some_env ?b (signal_handler ?b)" by (rule step_signal) (simp add: main_begin_def image_iff)
  then have sig: "main_run some_env ?b (signal_handler ?b)" by blast
  have "main_inv (program_config d) (signal_handler ?b)" using sig main_begin_inv by (rule main_run_inv)
  moreover have "mn_shutdown (signal_handler ?b)" by (simp add: signal_handler_def)
  moreover have "reads_time_out (me_outside some_env)" using some_outside_times_out by (simp add: some_env_def)
  ultimately obtain s where "main_run some_env (signal_handler ?b) s" "mn_pc s = Returned 0" using main_returns by blast
  with d sig that show thesis by (metis rtranclp_trans)
qed



text \<open>A program that was built never returns anything but 0, and one that was not returns 1.\<close>

lemma exit_code_run: "main_run me (main_begin signalled d) s \<Longrightarrow> exit_code (Inr s) \<in> {None, Some 0}"
  using main_run_inv [OF _ main_begin_inv, of me signalled d s]
  by (auto simp: exit_code_def main_inv_def split: main_pc.split)

end
