(* ===== verification/QF_Builds.thy ===== *)
theory QF_Builds
  imports QF_Publish
begin

text \<open>
  The build options: without librdkafka or hiredis, \<open>transport/kafka_publisher.hpp\<close> and
  \<open>transport/redis_client.hpp\<close> define classes that do nothing. Both builds of both clients keep one
  contract, \<open>optional_client\<close>: while a client is not live its calls have no effect. What the engine
  and its strategies do depends neither on the build nor on the answers of Kafka and Redis.
\<close>

section \<open>The classes that do nothing\<close>

datatype kafka_stub = KafkaStub
datatype redis_stub = RedisStub

definition stub_kafka_new :: "string \<Rightarrow> kafka_stub" where "stub_kafka_new brokers = KafkaStub"

definition stub_is_healthy :: "kafka_stub \<Rightarrow> bool" where "stub_is_healthy k \<longleftrightarrow> False"

definition stub_publish_tick :: "tick \<Rightarrow> kafka_stub \<Rightarrow> kafka_stub" where "stub_publish_tick t k = k"

definition stub_publish_fill :: "fill \<Rightarrow> kafka_stub \<Rightarrow> kafka_stub" where "stub_publish_fill f k = k"

definition stub_publish_portfolio :: "snapshot \<Rightarrow> kafka_stub \<Rightarrow> kafka_stub" where "stub_publish_portfolio s k = k"

definition stub_publish_alert :: "risk_alert \<Rightarrow> kafka_stub \<Rightarrow> kafka_stub" where "stub_publish_alert a k = k"

definition stub_kafka_flush :: "int \<Rightarrow> kafka_stub \<Rightarrow> kafka_stub" where "stub_kafka_flush wait_ms k = k"

definition stub_redis_new :: "string \<Rightarrow> redis_stub" where "stub_redis_new url = RedisStub"

definition stub_is_connected :: "redis_stub \<Rightarrow> bool" where "stub_is_connected r \<longleftrightarrow> False"

definition stub_reconnect :: "redis_stub \<Rightarrow> bool \<times> redis_stub" where "stub_reconnect r = (False, r)"

definition stub_publish_position :: "string \<Rightarrow> position \<Rightarrow> redis_stub \<Rightarrow> redis_stub" where "stub_publish_position sid pos r = r"

definition stub_redis_publish_tick :: "tick \<Rightarrow> redis_stub \<Rightarrow> redis_stub" where "stub_redis_publish_tick t r = r"

definition stub_publish_risk_counters :: "string \<Rightarrow> dbl \<Rightarrow> int \<Rightarrow> dbl \<Rightarrow> redis_stub \<Rightarrow> redis_stub" where
  "stub_publish_risk_counters sid daily_pnl order_count exposure r = r"

definition stub_set_kill_switch :: "bool \<Rightarrow> redis_stub \<Rightarrow> redis_stub" where "stub_set_kill_switch engaged r = r"

definition stub_redis_flush :: "redis_stub \<Rightarrow> redis_stub" where "stub_redis_flush r = r"

lemmas stub_defs = stub_is_healthy_def stub_publish_tick_def stub_publish_fill_def stub_publish_portfolio_def
  stub_publish_alert_def stub_kafka_flush_def stub_is_connected_def stub_publish_position_def
  stub_redis_publish_tick_def stub_publish_risk_counters_def stub_set_kill_switch_def stub_redis_flush_def

section \<open>The contract of an optional client\<close>

definition kafka_is_healthy :: "kafka \<Rightarrow> bool" where "kafka_is_healthy kf = kf_healthy kf"

definition redis_is_connected :: "redis \<Rightarrow> bool" where "redis_is_connected rs = rs_connected rs"

datatype kafka_request =
  PublishTick tick
| PublishFill fill
| PublishPortfolio snapshot
| PublishAlert risk_alert

datatype redis_request =
  PublishPosition string position
| PublishRedisTick tick
| PublishRiskCounters string dbl int dbl
| SetKillSwitch bool

fun kafka_call :: "(dbl \<Rightarrow> u64) \<Rightarrow> (dbl \<Rightarrow> string) \<Rightarrow> bool \<Rightarrow> kafka_request \<Rightarrow> kafka \<Rightarrow> kafka" where
  "kafka_call bits fmt accepted (PublishTick t) = publish_tick bits accepted t"
| "kafka_call bits fmt accepted (PublishFill f) = publish_fill bits accepted f"
| "kafka_call bits fmt accepted (PublishPortfolio s) = publish_portfolio fmt accepted s"
| "kafka_call bits fmt accepted (PublishAlert a) = publish_alert accepted a"

fun stub_kafka_call :: "kafka_request \<Rightarrow> kafka_stub \<Rightarrow> kafka_stub" where
  "stub_kafka_call (PublishTick t) = stub_publish_tick t"
| "stub_kafka_call (PublishFill f) = stub_publish_fill f"
| "stub_kafka_call (PublishPortfolio s) = stub_publish_portfolio s"
| "stub_kafka_call (PublishAlert a) = stub_publish_alert a"

fun redis_call :: "(dbl \<Rightarrow> string) \<Rightarrow> redis_request \<Rightarrow> redis \<Rightarrow> redis" where
  "redis_call fmt (PublishPosition sid pos) = redis_publish_position fmt sid pos"
| "redis_call fmt (PublishRedisTick t) = redis_publish_tick fmt t"
| "redis_call fmt (PublishRiskCounters sid pnl n e) = publish_risk_counters fmt sid pnl n e"
| "redis_call fmt (SetKillSwitch b) = set_kill_switch b"

fun stub_redis_call :: "redis_request \<Rightarrow> redis_stub \<Rightarrow> redis_stub" where
  "stub_redis_call (PublishPosition sid pos) = stub_publish_position sid pos"
| "stub_redis_call (PublishRedisTick t) = stub_redis_publish_tick t"
| "stub_redis_call (PublishRiskCounters sid pnl n e) = stub_publish_risk_counters sid pnl n e"
| "stub_redis_call (SetKillSwitch b) = stub_set_kill_switch b"

locale optional_client =
  fixes live :: "'k \<Rightarrow> bool" and call :: "'c \<Rightarrow> 'k \<Rightarrow> 'k"
  assumes dead_call: "\<not> live k \<Longrightarrow> call c k = k"
begin

lemma dead_calls: "\<not> live k \<Longrightarrow> fold call cs k = k"
  by (induction cs) (simp_all add: dead_call)

lemma dead_stays: "\<not> live k \<Longrightarrow> \<not> live (fold call cs k)"
  by (simp add: dead_calls)

end

interpretation kc: optional_client kafka_is_healthy "kafka_call bits fmt accepted" for bits fmt accepted
proof
  show "\<not> kafka_is_healthy k \<Longrightarrow> kafka_call bits fmt accepted c k = k" for c k
    by (cases c) (simp_all add: kafka_is_healthy_def publish_tick_def publish_fill_def publish_portfolio_def publish_alert_def)
qed

interpretation rc: optional_client redis_is_connected "redis_call fmt" for fmt
proof
  show "\<not> redis_is_connected r \<Longrightarrow> redis_call fmt c r = r" for c r
    by (cases c) (simp_all add: redis_is_connected_def redis_publish_position_def redis_publish_tick_def
        publish_risk_counters_def set_kill_switch_def)
qed

interpretation ks: optional_client stub_is_healthy stub_kafka_call
proof
  show "stub_kafka_call c k = k" for c k by (cases k; cases c) (simp_all add: stub_defs)
qed

interpretation rk: optional_client stub_is_connected stub_redis_call
proof
  show "stub_redis_call c r = r" for c r by (cases r; cases c) (simp_all add: stub_defs)
qed

section \<open>The program built without both\<close>

record stubbed =
  sb_system :: system
  sb_kafka :: kafka_stub
  sb_redis :: redis_stub

definition stub_on_fill :: "fill \<Rightarrow> stubbed \<Rightarrow> stubbed" where
  "stub_on_fill f s = s\<lparr>sb_kafka := stub_publish_fill f (sb_kafka s)\<rparr>"

definition stub_on_tick :: "tick \<Rightarrow> stubbed \<Rightarrow> stubbed" where
  "stub_on_tick t s = s\<lparr>sb_kafka := stub_publish_tick t (sb_kafka s), sb_redis := stub_redis_publish_tick t (sb_redis s)\<rparr>"

fun stub_positions :: "(u64 \<times> position) list \<Rightarrow> redis_stub \<Rightarrow> redis_stub" where
  "stub_positions [] r = r"
| "stub_positions ((_, pos) # ps) r = stub_positions ps (stub_publish_position (c_str (ps_strategy_id pos)) pos r)"

definition stub_on_update :: "snapshot \<Rightarrow> stubbed \<Rightarrow> stubbed" where
  "stub_on_update snap s = s\<lparr>sb_kafka := stub_publish_portfolio snap (sb_kafka s),
     sb_redis := stub_redis_flush (stub_positions (sn_positions snap) (sb_redis s))\<rparr>"

definition stubbed_step :: "(ctx_view \<Rightarrow> candle \<Rightarrow> momentum \<Rightarrow> momentum) \<Rightarrow> (string \<Rightarrow> momentum created)
    \<Rightarrow> system_event \<Rightarrow> stubbed \<Rightarrow> stubbed" where
  \<comment> \<open>\<open>deployed_step\<close> with the stubs\<close>
  "stubbed_step on_candle lib e s =
     (let mw = sb_system s; mw' = system_step on_candle lib e mw; w = snd mw; w' = snd mw'
      in fold stub_on_update (fresh published_updates w w') (fold stub_on_tick (fresh published_ticks w w')
           (fold stub_on_fill (fresh published_fills w w') (s\<lparr>sb_system := mw'\<rparr>))))"

fun stubbed_run :: "(ctx_view \<Rightarrow> candle \<Rightarrow> momentum \<Rightarrow> momentum) \<Rightarrow> (string \<Rightarrow> momentum created)
    \<Rightarrow> system_event list \<Rightarrow> stubbed \<Rightarrow> stubbed" where
  "stubbed_run on_candle lib [] s = s"
| "stubbed_run on_candle lib (e # es) s = stubbed_run on_candle lib es (stubbed_step on_candle lib e s)"

lemma stub_all_equal: "(k :: kafka_stub) = k'" "(r :: redis_stub) = r'"
  by (cases k; cases k'; simp) (cases r; cases r'; simp)

lemma stub_callbacks: "sb_system (fold stub_on_fill fs s) = sb_system s" "sb_system (fold stub_on_tick ts s) = sb_system s"
  "sb_system (fold stub_on_update ss s) = sb_system s"
proof -
  show "sb_system (fold stub_on_fill fs s) = sb_system s" by (induction fs arbitrary: s) (simp_all add: stub_on_fill_def)
  show "sb_system (fold stub_on_tick ts s) = sb_system s" by (induction ts arbitrary: s) (simp_all add: stub_on_tick_def)
  show "sb_system (fold stub_on_update ss s) = sb_system s" by (induction ss arbitrary: s) (simp_all add: stub_on_update_def)
qed

lemma stubbed_system: "sb_system (stubbed_run on_candle lib es s) = system_run on_candle lib es (sb_system s)"
  by (induction es arbitrary: s) (simp_all add: stubbed_step_def Let_def stub_callbacks del: system_step.simps)

section \<open>Trading does not depend on Kafka and Redis\<close>

lemma deployed_system:
  "deployed_run out on_candle lib es d = Some d' \<Longrightarrow> dp_system d' = system_run on_candle lib es (dp_system d)"
  by (induction es arbitrary: d)
    (auto simp: deployed_step_def Let_def bind_eq_Some_conv simp del: system_step.simps)

definition outlet_dead :: "outlet \<Rightarrow> bool" where
  "outlet_dead ot \<longleftrightarrow> \<not> kafka_is_healthy (ot_kafka ot) \<and> \<not> redis_is_connected (ot_redis ot)"

definition same_clients :: "outlet \<Rightarrow> outlet \<Rightarrow> bool" where
  "same_clients ot ot' \<longleftrightarrow> ot_kafka ot' = ot_kafka ot \<and> ot_redis ot' = ot_redis ot"

lemmas dead_kafka = kc.dead_call [of _ _ _ _ "PublishTick _", simplified] kc.dead_call [of _ _ _ _ "PublishFill _", simplified]
  kc.dead_call [of _ _ _ _ "PublishPortfolio _", simplified]

lemmas dead_redis = rc.dead_call [of _ _ "PublishPosition _ _", simplified] rc.dead_call [of _ _ "PublishRedisTick _", simplified]

lemma dead_positions: "\<not> redis_is_connected rs \<Longrightarrow> publish_positions fmt ps rs = rs"
  by (induction fmt ps rs rule: publish_positions.induct) (simp_all add: dead_redis)

lemma dead_fills: "outlet_dead ot \<Longrightarrow> same_clients ot (publish_fills out fs ot)"
proof (induction fs arbitrary: ot)
  case (Cons f fs)
  then have "outlet_dead (on_fill_callback out f ot)" "same_clients ot (on_fill_callback out f ot)"
    by (simp_all add: outlet_dead_def same_clients_def on_fill_callback_def dead_kafka)
  with Cons.IH show ?case by (simp add: same_clients_def)
qed (simp add: same_clients_def)

lemma dead_ticks: "outlet_dead ot \<Longrightarrow> same_clients ot (publish_ticks out ts ot)"
proof (induction ts arbitrary: ot)
  case (Cons t ts)
  then have "outlet_dead (on_tick_callback out t ot)" "same_clients ot (on_tick_callback out t ot)"
    by (simp_all add: outlet_dead_def same_clients_def on_tick_callback_def dead_kafka dead_redis)
  with Cons.IH show ?case by (simp add: same_clients_def)
qed (simp add: same_clients_def)

lemma dead_updates: "outlet_dead ot \<Longrightarrow> \<exists>ot'. publish_updates out ss ot = Some ot' \<and> same_clients ot ot'"
proof (induction ss arbitrary: ot)
  case (Cons s ss)
  obtain ot1 where ot1: "on_update_callback out s ot = Some ot1" "same_clients ot ot1"
    using Cons.prems
    by (auto simp: outlet_dead_def same_clients_def on_update_callback_def flush_outlet_def dead_kafka dead_positions
        redis_flush_def redis_is_connected_def)
  with Cons.prems have "outlet_dead ot1" by (simp add: outlet_dead_def same_clients_def)
  with Cons.IH [OF this] ot1 show ?case by (auto simp: same_clients_def)
qed (simp add: same_clients_def)

lemma same_clients_dead: "same_clients ot ot' \<Longrightarrow> outlet_dead ot' = outlet_dead ot"
  by (simp add: same_clients_def outlet_dead_def)

lemma dead_step:
  assumes "outlet_dead (dp_outlet d)"
  shows "\<exists>d'. deployed_step out on_candle lib e d = Some d' \<and> same_clients (dp_outlet d) (dp_outlet d')"
proof -
  let ?w = "snd (dp_system d)" and ?w' = "snd (system_step on_candle lib e (dp_system d))"
  define ot1 where "ot1 = publish_fills out (fresh published_fills ?w ?w') (dp_outlet d)"
  define ot2 where "ot2 = publish_ticks out (fresh published_ticks ?w ?w') ot1"
  have s1: "same_clients (dp_outlet d) ot1" unfolding ot1_def using assms by (rule dead_fills)
  then have d1: "outlet_dead ot1" using assms same_clients_dead by blast
  then have s2: "same_clients ot1 ot2" unfolding ot2_def by (rule dead_ticks)
  then have "outlet_dead ot2" using d1 same_clients_dead by blast
  from dead_updates [OF this, of out "fresh published_updates ?w ?w'"] s1 s2 show ?thesis
    by (auto simp: deployed_step_def Let_def same_clients_def ot1_def ot2_def simp del: system_step.simps)
qed

lemma dead_run:
  "outlet_dead (dp_outlet d) \<Longrightarrow>
   \<exists>d'. deployed_run out on_candle lib es d = Some d' \<and> same_clients (dp_outlet d) (dp_outlet d')"
proof (induction es arbitrary: d)
  case (Cons e es)
  obtain d1 where d1: "deployed_step out on_candle lib e d = Some d1" "same_clients (dp_outlet d) (dp_outlet d1)"
    using dead_step [OF Cons.prems] by blast
  then have "outlet_dead (dp_outlet d1)" using Cons.prems same_clients_dead by blast
  from Cons.IH [OF this] d1 show ?case by (auto simp: same_clients_def)
qed (simp add: same_clients_def)



end
