(* ===== verification/QF_Interfaces.thy ===== *)
theory QF_Interfaces
  imports QF_System QF_Redis QF_Arena QF_Ws
begin

text \<open>
  The parts of the classes that other components call by small member functions: the helpers
  \<open>IStrategy\<close> gives to strategies (\<open>cpp/strategy/strategy_interface.hpp\<close>) with the context of the
  engine behind them, \<open>ArenaAllocator::make\<close>, the hash of the candle builder's keys, the operator's
  list of open orders, and the constructor of the REST client.
\<close>

section \<open>The helpers of a strategy\<close>

record 'w context_fns =
  cf_submit_order :: "order_request \<Rightarrow> 'w \<Rightarrow> bool \<times> 'w"
  cf_cancel_order :: "string \<Rightarrow> 'w \<Rightarrow> bool \<times> 'w"
  cf_get_position :: "u64 \<Rightarrow> 'w \<Rightarrow> position"
  cf_get_available_capital :: "'w \<Rightarrow> dbl"
  cf_get_last_tick :: "u64 \<Rightarrow> tick"
  cf_now_ns :: "'w \<Rightarrow> u64"
  cf_config :: strategy_config

record 'w strategy_base =
  sb_ctx :: "'w context_fns option"
  sb_id :: string

definition base_submit_order :: "'w strategy_base \<Rightarrow> order_request \<Rightarrow> 'w \<Rightarrow> bool \<times> 'w" where
  "base_submit_order s req w = (case sb_ctx s of None \<Rightarrow> (False, w) | Some cx \<Rightarrow> cf_submit_order cx req w)"

definition base_cancel_order :: "'w strategy_base \<Rightarrow> string \<Rightarrow> 'w \<Rightarrow> bool \<times> 'w" where
  "base_cancel_order s oid w = (case sb_ctx s of None \<Rightarrow> (False, w) | Some cx \<Rightarrow> cf_cancel_order cx oid w)"

definition base_get_position :: "'w strategy_base \<Rightarrow> u64 \<Rightarrow> 'w \<Rightarrow> position" where
  "base_get_position s tok w = (case sb_ctx s of None \<Rightarrow> position_init | Some cx \<Rightarrow> cf_get_position cx tok w)"

definition base_available_capital :: "'w strategy_base \<Rightarrow> 'w \<Rightarrow> dbl" where
  "base_available_capital s w = (case sb_ctx s of None \<Rightarrow> 0 | Some cx \<Rightarrow> cf_get_available_capital cx w)"

definition base_now_ns :: "'w strategy_base \<Rightarrow> 'w \<Rightarrow> u64" where
  "base_now_ns s w = (case sb_ctx s of None \<Rightarrow> 0 | Some cx \<Rightarrow> cf_now_ns cx w)"

definition inject_context :: "'w context_fns \<Rightarrow> 'w strategy_base \<Rightarrow> 'w strategy_base" where
  "inject_context cx s = s\<lparr>sb_ctx := Some cx\<rparr>"

definition set_strategy_id :: "string \<Rightarrow> 'w strategy_base \<Rightarrow> 'w strategy_base" where
  "set_strategy_id sid s = s\<lparr>sb_id := sid\<rparr>"

definition strategy_id :: "'w strategy_base \<Rightarrow> string" where
  "strategy_id s = sb_id s"

definition cancel_order :: "string \<Rightarrow> world \<Rightarrow> bool \<times> world" where
  \<comment> \<open>\<open>ctx.cancel_order\<close>: to the OMS, without the risk gate\<close>
  "cancel_order oid w = (let (ok, eg) = ctx_cancel_order oid (wd_engine w) in (ok, w\<lparr>wd_engine := eg\<rparr>))"

definition engine_context :: "strategy_context \<Rightarrow> world context_fns" where
  \<comment> \<open>the functions \<open>build_context\<close> puts into a context\<close>
  "engine_context cx = \<lparr>cf_submit_order = submit_order cx, cf_cancel_order = cancel_order,
     cf_get_position = (\<lambda>tok w. cv_position (ctx_view_of w) tok),
     cf_get_available_capital = (\<lambda>w. cv_capital (ctx_view_of w)), cf_get_last_tick = cx_get_last_tick cx,
     cf_now_ns = (\<lambda>w. cv_now_ns (ctx_view_of w)), cf_config = cx_config cx\<rparr>"

text \<open>Without a context no call has an effect; with the engine's, what a strategy does the system model does.\<close>

lemma no_context:
  assumes "sb_ctx s = None"
  shows "base_submit_order s req w = (False, w)" and "base_cancel_order s oid w = (False, w)"
    and "ps_quantity (base_get_position s tok w) = 0" and "base_available_capital s w = 0"
  using assms by (simp_all add: base_submit_order_def base_cancel_order_def base_get_position_def
      base_available_capital_def position_init_def)

datatype base_call = SubmitCall order_request | CancelCall string

fun base_calls :: "'w strategy_base \<Rightarrow> base_call list \<Rightarrow> 'w \<Rightarrow> 'w" where
  "base_calls s [] w = w"
| "base_calls s (SubmitCall req # cs) w = base_calls s cs (snd (base_submit_order s req w))"
| "base_calls s (CancelCall oid # cs) w = base_calls s cs (snd (base_cancel_order s oid w))"

text \<open>
  A strategy acts on the engine through orders and cancels only: any calls of the helpers are a run of
  the engine, so every invariant of its steps holds afterwards.
\<close>

lemma base_calls_run:
  assumes "sb_ctx s = Some (engine_context cx)"
  shows "\<exists>es. wd_engine (base_calls s cs w) = engine_run es (wd_engine w)
     \<and> length es = length cs
     \<and> list_all (\<lambda>e. case e of StrategyOrder scfg _ _ _ _ \<Rightarrow> scfg = cx_config cx | StrategyCancel _ \<Rightarrow> True | _ \<Rightarrow> False) es"
proof (induction cs arbitrary: w)
  case (Cons c cs)
  show ?case
  proof (cases c)
    case (SubmitCall req)
    let ?r = "wd_readings w (wd_next w)"
    let ?e = "StrategyOrder (cx_config cx) req (rd_time_t ?r) (rd_now_ns ?r) (rd_clock ?r)"
    let ?w = "snd (base_submit_order s req w)"
    have w: "wd_engine ?w = engine_step ?e (wd_engine w)"
      using assms by (simp add: base_submit_order_def engine_context_def submit_order_def Let_def split_beta)
    obtain es where "wd_engine (base_calls s cs ?w) = engine_run es (wd_engine ?w)" "length es = length cs"
      "list_all (\<lambda>e. case e of StrategyOrder scfg _ _ _ _ \<Rightarrow> scfg = cx_config cx | StrategyCancel _ \<Rightarrow> True | _ \<Rightarrow> False) es"
      using Cons.IH [of ?w] by blast
    then show ?thesis using SubmitCall w by (intro exI [of _ "?e # es"]) (simp del: engine_step.simps)
  next
    case (CancelCall oid)
    let ?w = "snd (base_cancel_order s oid w)"
    have w: "wd_engine ?w = engine_step (StrategyCancel oid) (wd_engine w)"
      using assms by (simp add: base_cancel_order_def engine_context_def cancel_order_def Let_def split_beta)
    obtain es where "wd_engine (base_calls s cs ?w) = engine_run es (wd_engine ?w)" "length es = length cs"
      "list_all (\<lambda>e. case e of StrategyOrder scfg _ _ _ _ \<Rightarrow> scfg = cx_config cx | StrategyCancel _ \<Rightarrow> True | _ \<Rightarrow> False) es"
      using Cons.IH [of ?w] by blast
    then show ?thesis using CancelCall w by (intro exI [of _ "StrategyCancel oid # es"]) (simp del: engine_step.simps)
  qed
qed simp

section \<open>Construction in the arena\<close>

definition arena_make :: "u64 \<Rightarrow> u64 \<Rightarrow> 'a \<Rightarrow> (u64 \<rightharpoonup> 'a) \<times> arena \<Rightarrow> u64 option \<times> (u64 \<rightharpoonup> 'a) \<times> arena" where
  \<comment> \<open>\<open>make<T>\<close>: size and alignment of \<open>T\<close>, the new object, the objects by offset\<close>
  "arena_make sz align x = (\<lambda>(objs, ar).
     let (p, ar) = allocate sz align ar
     in case p of None \<Rightarrow> (None, objs, ar) | Some off \<Rightarrow> (Some off, objs(off \<mapsto> x), ar))"

lemma arena_make_full: "fst (allocate sz align ar) = None \<Longrightarrow> arena_make sz align x (objs, ar) = (None, objs, ar)"
  by (simp add: arena_make_def allocate_def split: option.splits prod.splits)

lemma arena_make_new:
  "fst (allocate sz align ar) = Some off \<Longrightarrow> (fst (snd (arena_make sz align x (objs, ar)))) off = Some x"
  by (simp add: arena_make_def split_beta)

section \<open>The hash of a bar\<close>

definition bar_key_eq :: "u64 \<times> u32 \<Rightarrow> u64 \<times> u32 \<Rightarrow> bool" where
  "bar_key_eq k o' \<longleftrightarrow> fst k = fst o' \<and> snd k = snd o'"

definition bar_key_hash :: "u64 \<times> u32 \<Rightarrow> u64" where
  "bar_key_hash k = xor (fst k) (push_bit 32 (ucast (snd k)))"

lemma bar_key_eq_iff: "bar_key_eq k k' \<longleftrightarrow> k = k'"
  by (auto simp: bar_key_eq_def prod_eq_iff)

text \<open>
  The hash is perfect for tokens of 32 bits. The tokens of the feed are hashes of 64 bits, of
  which bars can collide, which costs time and no bar: keys are compared with \<open>bar_key_eq\<close>.
\<close>

lemma bar_key_hash_low: "unat tok < 2 ^ 32 \<Longrightarrow> take_bit 32 (bar_key_hash (tok, iv)) = tok"
proof -
  assume "unat tok < 2 ^ 32"
  then have "take_bit 32 tok = tok"
    by (simp add: word_unat_eq_iff unsigned_take_bit_eq take_bit_nat_eq_self)
  then show ?thesis by (simp add: bar_key_hash_def take_bit_xor take_bit_push_bit)
qed

lemma bar_key_hash_high: "unat tok < 2 ^ 32 \<Longrightarrow> n < 32 \<Longrightarrow> bit (bar_key_hash (tok, iv)) (n + 32) = bit iv n"
proof -
  assume tok: "unat tok < 2 ^ 32" and n: "n < 32"
  have "(2 :: nat) ^ 32 \<le> 2 ^ (n + 32)" by (rule power_increasing) simp_all
  then have "unat tok < 2 ^ (n + 32)" using tok by (rule order_less_le_trans [rotated])
  then have "\<not> bit (unat tok) (n + 32)" by (simp add: bit_iff_odd)
  then have "\<not> bit tok (n + 32)" by (simp add: bit_unsigned_iff)
  then show ?thesis using n by (auto simp: bar_key_hash_def bit_simps)
qed

lemma bar_key_hash_inj:
  assumes "bar_key_hash (tok, iv) = bar_key_hash (tok', iv')" and "unat tok < 2 ^ 32" and "unat tok' < 2 ^ 32"
  shows "bar_key_eq (tok, iv) (tok', iv')"
proof -
  have "tok = tok'" using bar_key_hash_low [OF assms(2), of iv] bar_key_hash_low [OF assms(3), of iv'] assms(1) by simp
  moreover have "iv = iv'"
  proof (rule bit_word_eqI)
    fix n assume "n < LENGTH(32)"
    then show "bit iv n = bit iv' n"
      using bar_key_hash_high [OF assms(2), of n iv] bar_key_hash_high [OF assms(3), of n iv'] assms(1) by simp
  qed
  ultimately show ?thesis by (simp add: bar_key_eq_def)
qed

lemma bar_key_hash_collides: "bar_key_hash (4294967296, 0) = bar_key_hash (0, 1)"
  by (simp add: bar_key_hash_def push_bit_eq_mult)

section \<open>The operator's view\<close>

definition open_order_line :: "oms \<Rightarrow> string \<times> nat \<Rightarrow> string" where
  "open_order_line m = (\<lambda>(oid, i). let o' = po_order (slot_of m i) in
     ''[OMS] Open order: '' @ oid @ '' | '' @ c_str (od_strategy_id o') @ '' | ''
       @ (if od_side o' = BUY then ''BUY'' else ''SELL'') @ '' '' @ dec (unat (od_token o'))
       @ '' qty='' @ dec_int (od_quantity o') @ '' filled='' @ dec_int (od_filled_qty o'))"

definition log_open_orders :: "oms \<Rightarrow> string list" where
  \<comment> \<open>the order of the lines is that of the map\<close>
  "log_open_orders m = map (open_order_line m) (om_orders m)"

lemma log_open_orders_count: "oms_inv n k m \<Longrightarrow> length (log_open_orders m) = open_order_count m"
  by (simp add: log_open_orders_def open_count_all)

section \<open>Constructors and accessors\<close>

definition rest_client_new :: "string \<Rightarrow> bool \<Rightarrow> rest_client" where
  "rest_client_new token paper_mode = \<lparr>rc_access_token = token, rc_paper_mode = paper_mode\<rparr>"

definition sm_new :: "order_status option \<Rightarrow> order_status" where
  "sm_new initial = (case initial of None \<Rightarrow> PENDING | Some st \<Rightarrow> st)"

definition ticks_processed :: "normalizer \<Rightarrow> u64" where "ticks_processed nm = nm_ticks_processed nm"

definition stale_dropped :: "normalizer \<Rightarrow> u64" where "stale_dropped nm = nm_stale_dropped nm"

definition sanity_rejected :: "normalizer \<Rightarrow> u64" where "sanity_rejected nm = nm_sanity_rejected nm"

text \<open>What the accessors of the normalizer report adds up: each turn counts its tick once.\<close>

lemma normalizer_counts_each_tick:
  assumes "spsc_inv k (nm_raw_queue nm)" and "spsc_items (nm_raw_queue nm) = t # ts"
  shows "ticks_processed (normalizer_iter nm) + stale_dropped (normalizer_iter nm) + sanity_rejected (normalizer_iter nm)
     = ticks_processed nm + stale_dropped nm + sanity_rejected nm + 1"
proof -
  obtain q where "spsc_pop (nm_raw_queue nm) = (Some t, q)" using ring.deq_cons [OF assms] by blast
  then show ?thesis
    by (auto simp: ticks_processed_def stale_dropped_def sanity_rejected_def normalizer_iter_def validate_conv valid_tick_def)
qed

end
