(* ===== verification/Spec2Isabelle.thy ===== *)
theory Spec2Isabelle
  imports QF_Arena QF_Live QF_Wire QF_Stopping QF_Threads QF_Disruptor_Race QF_Limits QF_Live_Limits QF_Main QF_Builds QF_Interfaces
begin

text \<open>
  A verification of the QuantForge trading engine, the C++ program under \<open>src/cpp/\<close>.

  \<^bold>\<open>The program.\<close> Market data arrive over a WebSocket (\<open>market_data/upstox_ws_handler.cpp\<close>), become
  ticks and go through a single-producer queue (\<open>common/spsc_queue.hpp\<close>) to the normalizer thread
  (\<open>market_data/tick_normalizer.cpp\<close>), which validates them and hands them to a ring with many readers
  (\<open>common/disruptor.hpp\<close>), to the candle builder (\<open>market_data/candle_builder.hpp\<close>) and to the risk
  gate's price cache. Each strategy runs in a thread of the strategy manager
  (\<open>strategy/strategy_manager.cpp\<close>), reads the ring, is called back with candles and fills, and submits
  orders through the risk gate (\<open>risk/pre_trade_risk.cpp\<close>, \<open>risk/token_bucket.hpp\<close>) to the OMS
  (\<open>oms/\<close>). The OMS takes an order from its pool, fills it itself in paper mode or sends it through the
  EMS (\<open>ems/ems.cpp\<close>) and the REST client (\<open>transport/upstox_rest_client.cpp\<close>), and publishes fills
  through a second queue to the portfolio thread (\<open>portfolio/portfolio_engine.cpp\<close>). Kafka and Redis
  (\<open>transport/\<close>) get copies. \<open>main/main.cpp\<close> reads the configuration and wires all of it.

  \<^bold>\<open>Theories.\<close> A theory models the file it names in its first lines; definitions keep the names of the
  code, members of a struct or class become record fields with a two-letter prefix.

  \<^item> \<open>QF_Prelude\<close>: wrapped signed arithmetic, masks, C strings, decimal printing, association lists.
  \<^item> \<open>QF_Types\<close>: \<open>common/types.hpp\<close>, enumerations with their codes and structs with their defaults.
  \<^item> \<open>QF_Spsc\<close>, \<open>QF_Disruptor\<close>, \<open>QF_Arena\<close>: the lock-free structures of \<open>common/\<close>. The ring queue
    refines a bounded list, in sequence and under every interleaving of its two threads; a reader of the
    disruptor that is never lapped sees a prefix of what was published; arena blocks are disjoint.
  \<^item> \<open>QF_Disruptor_Race\<close>: the disruptor with ticks copied word by word. Within one ring every tick is read
    whole; a consumer that is lapped while it copies can receive a mixture of two.
  \<^item> \<open>QF_Order_State\<close>, \<open>QF_Order_Pool\<close>, \<open>QF_Fill_Dedup\<close>, \<open>QF_Oms\<close>, with \<open>QF_Oms_Props\<close> and
    \<open>QF_Oms_Edges\<close>: order life cycle, slots, duplicate fills, and the OMS over them: slots are conserved,
    live and paper orders are filled as they should, and the error paths behave as described.
  \<^item> \<open>QF_Oms_Typing\<close>: well-formed records: texts end within their buffers, quantities fit \<open>int32_t\<close>, in
    every order, queued fill and output of every run.
  \<^item> \<open>QF_Token_Bucket\<close>, \<open>QF_Risk\<close>, \<open>QF_Risk_Props\<close>: the limiter, and exactly what the gate lets pass.
  \<^item> \<open>QF_Portfolio\<close>, \<open>QF_Portfolio_Props\<close>: fills and prices move cash, positions and profit so that
    book value is conserved, and where it is not.
  \<^item> \<open>QF_Candle\<close>, \<open>QF_Candle_Props\<close>, \<open>QF_Normalizer\<close>: candles are the runs of ticks with one bar
    start; the normalizer gives its three outputs exactly the valid ticks.
  \<^item> \<open>QF_Engine\<close>, \<open>QF_Engine_Props\<close>: the callbacks of \<open>main\<close> and the services of
    \<open>StrategyManager::build_context\<close>; a step is one call by one thread.
  \<^item> \<open>QF_Limits\<close>: how far the position limit limits the position: the gate checks a snapshot that lags
    behind the fills in the queue, and the bound grows with the backlog.
  \<^item> \<open>QF_Strategy_Manager\<close>, \<open>QF_Strategy_Props\<close>: strategies as records of functions, their threads cut
    into turns, dispatch, halting and stopping.
  \<^item> \<open>QF_Momentum\<close>, \<open>QF_Momentum_Props\<close>: the one strategy of the repository.
  \<^item> \<open>QF_Config\<close>: the configuration and token readers of \<open>main\<close>.
  \<^item> \<open>QF_System\<close>: engine, manager and momentum strategy together, from the configuration file to the
    shutdown; what the kill switch stops, and what the engine as shipped never does.
  \<^item> \<open>QF_Rest\<close>, \<open>QF_Ems\<close>: requests, answers, and what the OMS hears of them.
  \<^item> \<open>QF_Live\<close>: the system trading live, with the requests under way and their answers in any order: no
    order is ever filled, and the pool runs dry.
  \<^item> \<open>QF_Live_Limits\<close>: what that does to the risk gate, which forgets every live order it lets through.
  \<^item> \<open>QF_Ws\<close>, \<open>QF_Ws_Props\<close>: the connection as a machine of completions, and feed messages as ticks.
  \<^item> \<open>QF_Pipeline\<close>: handler, normalizer, candle builder and strategy threads together, in any
    interleaving: what a strategy is given of what the socket received.
  \<^item> \<open>QF_Stopping\<close>: \<open>stop_all\<close> statement by statement among the strategy threads: it always ends, and
    what each strategy is called with on the way, and that the single step of the system model is one
    of its schedules.
  \<^item> \<open>QF_Threads\<close>: the set-up of threads (\<open>common/thread_utils.hpp\<close>) and the life cycle of the three
    worker loops; what a stopped worker still does, and what it leaves in its queue.
  \<^item> \<open>QF_Kafka\<close>, \<open>QF_Redis\<close>: byte layouts and their inverse, pipelines and the flush.
  \<^item> \<open>QF_Publish\<close>: the whole program, the system together with what its callbacks copy to Kafka and
    Redis: the topics carry the streams of fills, ticks and updates, and what the flushes cost.
  \<^item> \<open>QF_Builds\<close>: the classes that stand for Kafka and Redis in a build without them: trading goes the
    same way with either build and whatever the real clients meet.
  \<^item> \<open>QF_Main\<close>: the logger, and \<open>main\<close> as a process with signals, sleeps, threads and an exit code: the
    order of its calls in every run, and that it ends after a signal.
  \<^item> \<open>QF_Interfaces\<close>: the helpers of \<open>IStrategy\<close> with the engine behind them, \<open>ArenaAllocator::make\<close>,
    the hash of bars, the list of open orders, constructors and accessors.
  \<^item> \<open>QF_Wire\<close>: a consumer of the topic of fills reads back exactly the fills the OMS has reported.

  \<^bold>\<open>Interfaces.\<close> Seven contracts are locales, interpreted on the model's own definitions: a bounded
  first-in first-out queue (\<open>fifo_queue\<close>, kept by the ring), a pool that hands out each slot once (\<open>slot_pool\<close>, kept by the order
  pool), a limiter whose grants a credit pays for
  (\<open>limiter\<close>, kept by the token bucket), a plugin whose callbacks keep a property of the engine
  (\<open>keeping_plugin\<close>), what a property of the engine needs in order to survive every step of the whole system
  (\<open>engine_property\<close>, which gives \<open>keeping_plugin\<close> for the momentum strategy; kept by the kill switch, by
  the outputs, which only grow, by the texts of the fills and by the live order book), a loop
  that serves a queue one item per turn (\<open>queue_worker\<close>, kept by the fill thread within the engine and by the
  normalizer thread) and a client that does nothing while it is not live (\<open>optional_client\<close>, kept by both
  builds of both clients). Their clients' theorems are proved once from the contract.

  \<^bold>\<open>Reading the model.\<close> Unsigned integers are machine words; \<open>int32_t\<close> values are integers with the
  wrap written out where the code adds or negates; doubles are exact reals, without rounding, NaN or
  infinities. Atomics are sequentially consistent; where a copy can be overtaken by another thread
  (\<open>QF_Disruptor_Race\<close>, \<open>QF_Spsc\<close>) a step is one memory access. Clocks, random data and everything the third-party
  libraries decide are arguments. An \<open>unordered_map\<close> is an association list; theorems hold for every
  order. A call under a lock is one step, and so is a callback of a strategy. Exceptions, rejections and
  early returns are values.

  \<^bold>\<open>Bounds.\<close> The fill queue has 4096 slots and holds 4095 fills, so the theorem on paper sessions covers
  runs of up to 4095 calls however slow the portfolio thread is; the bound on exposures holds for runs of
  any length in which the queue has room whenever an order is placed. Sequence numbers are 64-bit: theorems
  that need them not to wrap say so. No definition uses fuel; the one loop that may run for ever, the
  Redis flush, is a partial function, and it is proved when it returns.

  \<^bold>\<open>Not modelled.\<close> The lines the components log, but for the heartbeat and the
  list of open orders, since they have no effect on the modelled state; a thread that cannot be created,
  and exceptions that leave a thread other than main's; what the operating system makes of affinities
  and priorities; fills of live orders, for which the repository has no source; TLS, HTTP,
  WebSocket, protobuf, JSON, Kafka and Redis client code, which is not in the repository; functions that
  are declared and not defined (\<open>MomentumStrategy::on_candle\<close>, \<open>PortfolioEngine::reset_for_eod\<close>,
  \<open>PreTradeRiskEngine::engage_strategy_kill\<close>, \<open>UpstoxWSHandler::translate_feed\<close>).
\<close>

end
